(* ===== verification/Prelude.thy ===== *)
theory Prelude
  imports Main "HOL-Library.AList" "HOL-Library.Char_ord" "HOL-Library.List_Lexorder"
begin

text \<open>
  The shared library of the development: results and the state/error monad the
  engine's methods are written in, the two map types of the Rust code
  (\<^verbatim>\<open>BTreeMap\<close> as a strictly sorted association list, \<^verbatim>\<open>HashMap\<close> as a
  duplicate-free association list), 64-bit signed wrap-around, and the rules by
  which a relation between the states before and after a method is shown method
  by method.  Strings are byte strings: a Rust \<^verbatim>\<open>String\<close> is the list of its UTF-8
  bytes, so that \<^verbatim>\<open>len\<close>, equality and \<^verbatim>\<open>Ord\<close> are the list's.
\<close>

named_theorems run_simps "evaluation of the state/error monad"
named_theorems keeps_intros "introduction rules for relations kept by a method"

section \<open>Results\<close>

definition bindE :: "'e + 'a \<Rightarrow> ('a \<Rightarrow> 'e + 'b) \<Rightarrow> 'e + 'b" where
  "bindE r f = (case r of Inl e \<Rightarrow> Inl e | Inr x \<Rightarrow> f x)"

lemma bindE_simps [simp]:
  "bindE (Inl e) f = Inl e"
  "bindE (Inr x) f = f x"
  by (simp_all add: bindE_def)

lemma bindE_eq_Inr [simp]:
  "bindE r f = Inr y \<longleftrightarrow> (\<exists>x. r = Inr x \<and> f x = Inr y)"
  by (cases r) simp_all

lemma bindE_eq_Inl:
  "bindE r f = Inl e \<longleftrightarrow> r = Inl e \<or> (\<exists>x. r = Inr x \<and> f x = Inl e)"
  by (cases r) simp_all

lemma bindE_cong [fundef_cong]:
  assumes "r = r'" and "\<And>x. r' = Inr x \<Longrightarrow> f x = f' x"
  shows "bindE r f = bindE r' f'"
  using assms by (cases r') simp_all

definition is_ok :: "'e + 'a \<Rightarrow> bool" where
  "is_ok r = (case r of Inl _ \<Rightarrow> False | Inr _ \<Rightarrow> True)"

lemma is_ok_simps [simp]: "\<not> is_ok (Inl e)" "is_ok (Inr x)"
  by (simp_all add: is_ok_def)

lemma is_okE: "is_ok r \<Longrightarrow> (\<And>x. r = Inr x \<Longrightarrow> P) \<Longrightarrow> P"
  by (cases r) simp_all

definition ensure :: "bool \<Rightarrow> 'e \<Rightarrow> 'e + unit" where
  "ensure b e = (if b then Inr () else Inl e)"

lemma ensure_simps [simp]:
  "ensure True e = Inr ()"
  "ensure False e = Inl e"
  "ensure b e = Inr u \<longleftrightarrow> b"
  "is_ok (ensure b e) \<longleftrightarrow> b"
  by (simp_all add: ensure_def)

text \<open>\<^verbatim>\<open>for x in xs { f(x)?; }\<close> and \<^verbatim>\<open>iter().map(f).collect::<Result<_>>()\<close>.\<close>

fun eachE :: "('a \<Rightarrow> 'e + unit) \<Rightarrow> 'a list \<Rightarrow> 'e + unit" where
  "eachE f [] = Inr ()"
| "eachE f (x # xs) = bindE (f x) (\<lambda>_. eachE f xs)"

fun mapE :: "('a \<Rightarrow> 'e + 'b) \<Rightarrow> 'a list \<Rightarrow> 'e + 'b list" where
  "mapE f [] = Inr []"
| "mapE f (x # xs) = bindE (f x) (\<lambda>y. bindE (mapE f xs) (\<lambda>ys. Inr (y # ys)))"

fun foldE :: "('a \<Rightarrow> 's \<Rightarrow> 'e + 's) \<Rightarrow> 'a list \<Rightarrow> 's \<Rightarrow> 'e + 's" where
  "foldE f [] s = Inr s"
| "foldE f (x # xs) s = bindE (f x s) (foldE f xs)"

lemma eachE_ok [simp]: "eachE f xs = Inr () \<longleftrightarrow> (\<forall>x\<in>set xs. f x = Inr ())"
  by (induction xs) (auto simp: bindE_def split: sum.splits)

lemma is_ok_unit: "is_ok (r :: 'e + unit) \<longleftrightarrow> r = Inr ()"
  by (cases r) simp_all

lemma is_ok_eachE [simp]: "is_ok (eachE f xs) \<longleftrightarrow> (\<forall>x\<in>set xs. is_ok (f x))"
  by (simp add: is_ok_unit)

lemma eachE_cong [fundef_cong]:
  "xs = ys \<Longrightarrow> (\<And>x. x \<in> set ys \<Longrightarrow> f x = g x) \<Longrightarrow> eachE f xs = eachE g ys"
  by (induction ys arbitrary: xs) (auto simp: bindE_def split: sum.splits)

lemma mapE_cong [fundef_cong]:
  "xs = ys \<Longrightarrow> (\<And>x. x \<in> set ys \<Longrightarrow> f x = g x) \<Longrightarrow> mapE f xs = mapE g ys"
  by (induction ys arbitrary: xs) (auto simp: bindE_def split: sum.splits)

lemma foldE_cong [fundef_cong]:
  "xs = ys \<Longrightarrow> s = t \<Longrightarrow> (\<And>x s. x \<in> set ys \<Longrightarrow> f x s = g x s) \<Longrightarrow> foldE f xs s = foldE g ys t"
  by (induction ys arbitrary: xs s t) (auto simp: bindE_def split: sum.splits)

lemma mapE_ok: "mapE f xs = Inr ys \<longleftrightarrow> list_all2 (\<lambda>x y. f x = Inr y) xs ys"
  by (induction xs arbitrary: ys) (auto simp: list_all2_Cons1)

lemma mapE_length: "mapE f xs = Inr ys \<Longrightarrow> length ys = length xs"
  by (auto simp: mapE_ok dest: list_all2_lengthD)

text \<open>Recursion through association lists.\<close>

lemma size_snd_pair [termination_simp]:
  "p \<in> set fs \<Longrightarrow> f (snd p) < Suc (size_list (size_prod (\<lambda>x. 0) f) fs)"
  using size_list_estimation[of p fs "f (snd p)" "size_prod (\<lambda>x. 0) f"]
  by (cases p) (auto intro: le_imp_less_Suc size_list_estimation')

section \<open>The state and error monad\<close>

text \<open>
  A method \<^verbatim>\<open>fn m(&mut self, ..) -> Result<A>\<close> is a function from the state to
  the result and the state it leaves.  The state is threaded on the error path
  too: what a failing method has already written stays written, as in the code.
\<close>

type_synonym ('s, 'e, 'a) meth = "'s \<Rightarrow> ('e + 'a) \<times> 's"

definition returnM :: "'a \<Rightarrow> ('s, 'e, 'a) meth" where
  "returnM x = (\<lambda>s. (Inr x, s))"

definition throwM :: "'e \<Rightarrow> ('s, 'e, 'a) meth" where
  "throwM e = (\<lambda>s. (Inl e, s))"

definition liftM :: "'e + 'a \<Rightarrow> ('s, 'e, 'a) meth" where
  "liftM r = (\<lambda>s. (r, s))"

definition getM :: "('s \<Rightarrow> 'a) \<Rightarrow> ('s, 'e, 'a) meth" where
  "getM f = (\<lambda>s. (Inr (f s), s))"

definition askM :: "('s \<Rightarrow> 'e + 'a) \<Rightarrow> ('s, 'e, 'a) meth" where
  "askM f = (\<lambda>s. (f s, s))"

definition modifyM :: "('s \<Rightarrow> 's) \<Rightarrow> ('s, 'e, unit) meth" where
  "modifyM f = (\<lambda>s. (Inr (), f s))"

definition bindM :: "('s, 'e, 'a) meth \<Rightarrow> ('a \<Rightarrow> ('s, 'e, 'b) meth) \<Rightarrow> ('s, 'e, 'b) meth" where
  "bindM m f = (\<lambda>s. case m s of (Inl e, s') \<Rightarrow> (Inl e, s') | (Inr x, s') \<Rightarrow> f x s')"

fun eachM :: "('a \<Rightarrow> ('s, 'e, unit) meth) \<Rightarrow> 'a list \<Rightarrow> ('s, 'e, unit) meth" where
  "eachM f [] = returnM ()"
| "eachM f (x # xs) = bindM (f x) (\<lambda>_. eachM f xs)"

fun mapM :: "('a \<Rightarrow> ('s, 'e, 'b) meth) \<Rightarrow> 'a list \<Rightarrow> ('s, 'e, 'b list) meth" where
  "mapM f [] = returnM []"
| "mapM f (x # xs) = bindM (f x) (\<lambda>y. bindM (mapM f xs) (\<lambda>ys. returnM (y # ys)))"

lemma run_basic [run_simps, code]:
  "returnM x s = (Inr x, s)"
  "throwM e s = (Inl e, s)"
  "liftM r s = (r, s)"
  "getM g s = (Inr (g s), s)"
  "askM h s = (h s, s)"
  "modifyM k s = (Inr (), k s)"
  by (simp_all add: returnM_def throwM_def liftM_def getM_def askM_def modifyM_def)

lemma run_bind [run_simps]:
  "bindM m f s = (case m s of (Inl e, s') \<Rightarrow> (Inl e, s') | (Inr x, s') \<Rightarrow> f x s')"
  by (simp add: bindM_def)

text \<open>For evaluation: the continuation runs once the first method has returned.\<close>

fun continue_with :: "('e + 'a) \<times> 's \<Rightarrow> ('a \<Rightarrow> ('s, 'e, 'b) meth) \<Rightarrow> ('e + 'b) \<times> 's" where
  "continue_with (Inl e, s) f = (Inl e, s)"
| "continue_with (Inr y, s) f = f y s"

lemma bindM_code [code]: "bindM m f s = continue_with (m s) f"
  by (simp add: bindM_def split: prod.split sum.split)

lemma bindM_Inr:
  "bindM m f s = (Inr y, s'') \<longleftrightarrow> (\<exists>x s'. m s = (Inr x, s') \<and> f x s' = (Inr y, s''))"
  by (auto simp: bindM_def split: prod.splits sum.splits)

text \<open>
  A relation between the state a method starts in and the state it leaves,
  whatever its result.
\<close>

definition keeps :: "('s \<Rightarrow> 's \<Rightarrow> bool) \<Rightarrow> ('s, 'e, 'a) meth \<Rightarrow> bool" where
  "keeps R m \<longleftrightarrow> (\<forall>s. R s (snd (m s)))"

lemma keepsD: "keeps R m \<Longrightarrow> m s = (r, s') \<Longrightarrow> R s s'"
  unfolding keeps_def by (metis snd_conv)

lemma keepsI: "(\<And>s r s'. m s = (r, s') \<Longrightarrow> R s s') \<Longrightarrow> keeps R m"
  unfolding keeps_def by (metis prod.collapse)

lemma keeps_mono: "keeps R m \<Longrightarrow> (\<And>s s'. R s s' \<Longrightarrow> Q s s') \<Longrightarrow> keeps Q m"
  by (auto simp: keeps_def)

locale preorder_rel =
  fixes R :: "'s \<Rightarrow> 's \<Rightarrow> bool"
  assumes refl: "R s s"
    and trans: "R s t \<Longrightarrow> R t u \<Longrightarrow> R s u"
begin

lemma keeps_pure: "keeps R (returnM x)" "keeps R (throwM e)" "keeps R (liftM r)"
  "keeps R (getM g)" "keeps R (askM h)"
  by (simp_all add: keeps_def run_simps refl)

lemma keeps_modify: "(\<And>s. R s (k s)) \<Longrightarrow> keeps R (modifyM k)"
  by (simp add: keeps_def run_simps)

lemma keeps_bind: "keeps R m \<Longrightarrow> (\<And>x. keeps R (f x)) \<Longrightarrow> keeps R (bindM m f)"
  unfolding keeps_def bindM_def by (auto split: prod.splits sum.splits) (metis snd_conv trans)+

lemma keeps_each: "(\<And>x. x \<in> set xs \<Longrightarrow> keeps R (f x)) \<Longrightarrow> keeps R (eachM f xs)"
  by (induction xs) (auto intro!: keeps_bind keeps_pure)

lemma keeps_map: "(\<And>x. x \<in> set xs \<Longrightarrow> keeps R (f x)) \<Longrightarrow> keeps R (mapM f xs)"
  by (induction xs) (auto intro!: keeps_bind keeps_pure)

lemmas keeps_rules = keeps_pure keeps_bind keeps_each keeps_map

end

text \<open>
  An invariant is the relation ``holds before implies holds after'', and
  a field the method never writes is the relation that compares it.
\<close>

definition inv_rel :: "('s \<Rightarrow> bool) \<Rightarrow> 's \<Rightarrow> 's \<Rightarrow> bool" where
  "inv_rel I s s' \<longleftrightarrow> (I s \<longrightarrow> I s')"

definition same_rel :: "('s \<Rightarrow> 'a) \<Rightarrow> 's \<Rightarrow> 's \<Rightarrow> bool" where
  "same_rel f s s' \<longleftrightarrow> f s' = f s"

interpretation inv: preorder_rel "inv_rel I"
  by unfold_locales (auto simp: inv_rel_def)

interpretation same: preorder_rel "same_rel f"
  by unfold_locales (auto simp: same_rel_def)

text \<open>
  A method that keeps an invariant on every path and whose result, when it returns one,
  satisfies a predicate.
\<close>

definition ensures :: "('s \<Rightarrow> bool) \<Rightarrow> ('s, 'e, 'a) meth \<Rightarrow> ('a \<Rightarrow> bool) \<Rightarrow> bool" where
  "ensures I m Q \<longleftrightarrow>
     (\<forall>s r s'. I s \<longrightarrow> m s = (r, s') \<longrightarrow> I s' \<and> (\<forall>y. r = Inr y \<longrightarrow> Q y))"

lemma ensuresI:
  "(\<And>s r s'. I s \<Longrightarrow> m s = (r, s') \<Longrightarrow> I s' \<and> (\<forall>y. r = Inr y \<longrightarrow> Q y)) \<Longrightarrow> ensures I m Q"
  by (simp add: ensures_def)

lemma ensuresD: "ensures I m Q \<Longrightarrow> I s \<Longrightarrow> m s = (r, s') \<Longrightarrow> I s'"
  by (simp add: ensures_def)

lemma ensures_result: "ensures I m Q \<Longrightarrow> I s \<Longrightarrow> m s = (Inr y, s') \<Longrightarrow> Q y"
  by (simp add: ensures_def)

lemma ensures_pure:
  "Q x \<Longrightarrow> ensures I (returnM x) Q"
  "ensures I (throwM e) Q"
  "(\<And>x. r = Inr x \<Longrightarrow> Q x) \<Longrightarrow> ensures I (liftM r) Q"
  "(\<And>s. I s \<Longrightarrow> Q (g s)) \<Longrightarrow> ensures I (getM g) Q"
  "(\<And>s x. I s \<Longrightarrow> h s = Inr x \<Longrightarrow> Q x) \<Longrightarrow> ensures I (askM h) Q"
  by (auto simp: ensures_def run_simps)

lemma ensures_modify: "(\<And>s. I s \<Longrightarrow> I (k s)) \<Longrightarrow> Q () \<Longrightarrow> ensures I (modifyM k) Q"
  by (auto simp: ensures_def run_simps)

lemma ensures_bind:
  assumes "ensures I m P" "\<And>y. P y \<Longrightarrow> ensures I (f y) Q"
  shows "ensures I (bindM m f) Q"
proof (rule ensuresI)
  fix s r s'
  assume s: "I s" and run: "bindM m f s = (r, s')"
  obtain r1 s1 where m: "m s = (r1, s1)"
    by (cases "m s")
  show "I s' \<and> (\<forall>y. r = Inr y \<longrightarrow> Q y)"
  proof (cases r1)
    case (Inl e)
    then show ?thesis
      using run m ensuresD[OF assms(1) s m] by (auto simp: bindM_def)
  next
    case (Inr y)
    then have "I s1" "P y" "f y s1 = (r, s')"
      using run m ensuresD[OF assms(1) s m] ensures_result[OF assms(1) s] by (auto simp: bindM_def)
    then show ?thesis
      using assms(2)[of y] by (auto simp: ensures_def)
  qed
qed

lemma ensures_bind': "ensures I m (\<lambda>_. True) \<Longrightarrow> (\<And>y. ensures I (f y) Q) \<Longrightarrow> ensures I (bindM m f) Q"
  by (rule ensures_bind)

lemma ensures_weaken: "ensures I m P \<Longrightarrow> (\<And>y. P y \<Longrightarrow> Q y) \<Longrightarrow> ensures I m Q"
  by (auto simp: ensures_def)

lemma ensures_each: "(\<And>x. x \<in> set xs \<Longrightarrow> ensures I (f x) (\<lambda>_. True)) \<Longrightarrow> ensures I (eachM f xs) (\<lambda>_. True)"
  by (induction xs) (simp_all add: ensures_bind' ensures_pure)

lemma ensures_map: "(\<And>x. x \<in> set xs \<Longrightarrow> ensures I (f x) (\<lambda>_. True)) \<Longrightarrow> ensures I (mapM f xs) (\<lambda>_. True)"
  by (induction xs) (simp_all add: ensures_bind' ensures_pure)

lemmas ensures_rules = ensures_pure ensures_each ensures_map ensures_bind'

section \<open>Finite maps\<close>

text \<open>
  What the engine relies on from a map: reading after writing and after
  removing.  \<^verbatim>\<open>BTreeMap\<close> (documents, schema maps) and \<^verbatim>\<open>HashMap\<close> (tables, rows)
  are the two interpretations.
\<close>

locale finite_map =
  fixes insert :: "'k \<Rightarrow> 'v \<Rightarrow> ('k \<times> 'v) list \<Rightarrow> ('k \<times> 'v) list"
    and remove :: "'k \<Rightarrow> ('k \<times> 'v) list \<Rightarrow> ('k \<times> 'v) list"
    and invar :: "('k \<times> 'v) list \<Rightarrow> bool"
  assumes get_insert: "map_of (insert k v m) = (map_of m)(k \<mapsto> v)"
    and get_remove: "map_of (remove k m) = (map_of m)(k := None)"
    and invar_empty: "invar []"
    and invar_insert: "invar m \<Longrightarrow> invar (insert k v m)"
    and invar_remove: "invar m \<Longrightarrow> invar (remove k m)"
    and invar_distinct: "invar m \<Longrightarrow> distinct (map fst m)"
begin

definition extend :: "('k \<times> 'v) list \<Rightarrow> ('k \<times> 'v) list \<Rightarrow> ('k \<times> 'v) list" where
  "extend kvs m = fold (\<lambda>(k, v). insert k v) kvs m"

definition fill :: "('k \<times> 'v) list \<Rightarrow> ('k \<times> 'v) list \<Rightarrow> ('k \<times> 'v) list" where
  "fill kvs m = fold (\<lambda>(k, v) m. if map_of m k = None then insert k v m else m) kvs m"

lemma get_extend: "map_of (extend kvs m) = map_of m ++ map_of (rev kvs)"
  unfolding extend_def
  by (induction kvs arbitrary: m) (auto simp: get_insert)

lemma get_fill: "map_of (fill kvs m) = map_of kvs ++ map_of m"
  unfolding fill_def
proof (induction kvs arbitrary: m)
  case (Cons kv kvs)
  then show ?case
    by (cases kv) (auto simp: get_insert map_add_def fun_eq_iff split: option.splits)
qed simp

lemma invar_extend: "invar m \<Longrightarrow> invar (extend kvs m)"
  unfolding extend_def
  by (induction kvs arbitrary: m) (auto simp: invar_insert)

lemma invar_fill: "invar m \<Longrightarrow> invar (fill kvs m)"
  unfolding fill_def
  by (induction kvs arbitrary: m) (auto simp: invar_insert)

end

subsection \<open>\<^verbatim>\<open>BTreeMap\<close>\<close>

fun bt_insert :: "'k::linorder \<Rightarrow> 'v \<Rightarrow> ('k \<times> 'v) list \<Rightarrow> ('k \<times> 'v) list" where
  "bt_insert k v [] = [(k, v)]"
| "bt_insert k v ((k', v') # m) =
     (if k < k' then (k, v) # (k', v') # m
      else if k = k' then (k, v) # m
      else (k', v') # bt_insert k v m)"

definition bt_remove :: "'k \<Rightarrow> ('k \<times> 'v) list \<Rightarrow> ('k \<times> 'v) list" where
  "bt_remove k m = filter (\<lambda>kv. fst kv \<noteq> k) m"

definition bt_ok :: "('k::linorder \<times> 'v) list \<Rightarrow> bool" where
  "bt_ok m \<longleftrightarrow> sorted_wrt (<) (map fst m)"

lemma set_bt_insert_keys: "fst ` set (bt_insert k v m) = insert k (fst ` set m)"
  by (induction k v m rule: bt_insert.induct) auto

lemma map_of_bt_insert [simp]: "map_of (bt_insert k v m) = (map_of m)(k \<mapsto> v)"
  by (induction k v m rule: bt_insert.induct) (auto simp: fun_eq_iff)

lemma map_of_bt_remove [simp]: "map_of (bt_remove k m) = (map_of m)(k := None)"
  by (induction m) (auto simp: bt_remove_def fun_eq_iff)

lemma bt_ok_insert [simp]: "bt_ok m \<Longrightarrow> bt_ok (bt_insert k v m)"
proof (induction k v m rule: bt_insert.induct)
  case (2 k v k' v' m)
  have "fst ` set (bt_insert k v m) = insert k (fst ` set m)"
    by (rule set_bt_insert_keys)
  with 2 show ?case
    by (fastforce simp: bt_ok_def)
qed (simp add: bt_ok_def)

lemma bt_ok_remove [simp]: "bt_ok m \<Longrightarrow> bt_ok (bt_remove k m)"
  by (induction m) (auto simp: bt_ok_def bt_remove_def)

lemma bt_ok_distinct: "bt_ok m \<Longrightarrow> distinct (map fst m)"
  by (simp add: bt_ok_def strict_sorted_iff)

lemma bt_ok_Nil [simp]: "bt_ok []"
  by (simp add: bt_ok_def)

interpretation btree: finite_map bt_insert bt_remove bt_ok
  by unfold_locales (simp_all add: bt_ok_distinct)

text \<open>Equal contents make equal maps: a sorted map is determined by its lookups.\<close>

lemma bt_ext:
  assumes "bt_ok m" "bt_ok n" "map_of m = map_of n"
  shows "m = n"
proof -
  have m: "sorted (map fst m)" "distinct (map fst m)" and n: "sorted (map fst n)" "distinct (map fst n)"
    using assms by (simp_all add: bt_ok_def strict_sorted_iff)
  have "set m = set n"
    using assms(3) m(2) n(2) by (simp add: map_of_inject_set)
  then show ?thesis
    using m n by (intro map_sorted_distinct_set_unique[of fst]) (simp_all add: distinct_map)
qed

subsection \<open>\<^verbatim>\<open>HashMap\<close>\<close>

text \<open>
  The position in the list stands for the iteration order, which the code
  leaves unspecified: inserting replaces in place or appends.
\<close>

abbreviation hm_insert :: "'k \<Rightarrow> 'v \<Rightarrow> ('k \<times> 'v) list \<Rightarrow> ('k \<times> 'v) list" where
  "hm_insert \<equiv> AList.update"

abbreviation hm_remove :: "'k \<Rightarrow> ('k \<times> 'v) list \<Rightarrow> ('k \<times> 'v) list" where
  "hm_remove \<equiv> AList.delete"

definition hm_ok :: "('k \<times> 'v) list \<Rightarrow> bool" where
  "hm_ok m \<longleftrightarrow> distinct (map fst m)"

interpretation hash: finite_map hm_insert hm_remove hm_ok
  by unfold_locales
    (simp_all add: hm_ok_def update_conv' delete_conv' distinct_update distinct_delete)

section \<open>Signed 64-bit integers\<close>

definition wrap64 :: "int \<Rightarrow> int" where
  "wrap64 n = (n + 2 ^ 63) mod 2 ^ 64 - 2 ^ 63"

definition i64_ok :: "int \<Rightarrow> bool" where
  "i64_ok n \<longleftrightarrow> - (2 ^ 63) \<le> n \<and> n < 2 ^ 63"

lemma wrap64_id [simp]: "i64_ok n \<Longrightarrow> wrap64 n = n"
  by (simp add: wrap64_def i64_ok_def)

lemma wrap64_ok [simp]: "i64_ok (wrap64 n)"
  unfolding wrap64_def i64_ok_def
  using pos_mod_bound[of "2 ^ 64" "n + 2 ^ 63"] pos_mod_sign[of "2 ^ 64" "n + 2 ^ 63"] by simp

lemma wrap64_cong: "(wrap64 n - n) mod 2 ^ 64 = 0"
  unfolding wrap64_def by (simp add: mod_eq_0_iff_dvd mod_eq_dvd_iff[symmetric] algebra_simps mod_simps)

end
