(* ===== verification/Numbers.thy ===== *)
theory Numbers
  imports Complex_Main "HOL-Library.Log_Nat" "HOL-Library.Sublist" Prelude
begin

text \<open>
  The numeric part of the Rust standard library the engine uses: IEEE binary64
  arithmetic with round-to-nearest-even over exact rationals, the conversions
  between \<^verbatim>\<open>f64\<close> and the integers, \<^verbatim>\<open>str::parse\<close> for \<^verbatim>\<open>i64\<close> and \<^verbatim>\<open>f64\<close>, integer
  \<^verbatim>\<open>to_string\<close>, \<^verbatim>\<open>str::trim\<close> and \<^verbatim>\<open>chars().count()\<close>.  A finite double is the
  rational it denotes; the two zeros are one value here.
\<close>

section \<open>Binary64\<close>

datatype f64 = Fin rat | PInf | NInf | NaN

definition two_powi :: "int \<Rightarrow> rat" where
  "two_powi u = (if 0 \<le> u then 2 ^ nat u else 1 / 2 ^ nat (- u))"

text \<open>\<^verbatim>\<open>ilog2\<close> of a positive rational: the exponent \<open>e\<close> with \<open>2^e \<le> a < 2^(e+1)\<close>.\<close>

definition rat_exponent :: "rat \<Rightarrow> int" where
  "rat_exponent a =
     (let (p, q) = quotient_of a;
          e = int (floorlog 2 (nat p)) - int (floorlog 2 (nat q))
      in if two_powi e \<le> a then e else e - 1)"

definition round_half_even :: "rat \<Rightarrow> int" where
  "round_half_even x =
     (let f = \<lfloor>x\<rfloor>; d = x - of_int f
      in if d < 1 / 2 then f else if 1 / 2 < d then f + 1
         else if even f then f else f + 1)"

definition round_f64 :: "rat \<Rightarrow> f64" where
  "round_f64 r =
     (if r = 0 then Fin 0
      else
        let a = \<bar>r\<bar>;
            u = max (rat_exponent a - 52) (- 1074);
            v = of_int (round_half_even (a / two_powi u)) * two_powi u
        in if 2 ^ 1024 \<le> v then (if r < 0 then NInf else PInf)
           else Fin (if r < 0 then - v else v))"

fun is_finite :: "f64 \<Rightarrow> bool" where
  "is_finite (Fin r) = True"
| "is_finite PInf = False"
| "is_finite NInf = False"
| "is_finite NaN = False"

text \<open>\<^verbatim>\<open>PartialOrd\<close> and \<^verbatim>\<open>PartialEq\<close>: every comparison with NaN is false.\<close>

fun f64_lt :: "f64 \<Rightarrow> f64 \<Rightarrow> bool" where
  "f64_lt (Fin a) (Fin b) = (a < b)"
| "f64_lt (Fin a) PInf = True"
| "f64_lt NInf (Fin b) = True"
| "f64_lt NInf PInf = True"
| "f64_lt x y = False"

definition f64_eq :: "f64 \<Rightarrow> f64 \<Rightarrow> bool" where
  "f64_eq x y \<longleftrightarrow> x = y \<and> x \<noteq> NaN"

definition f64_le :: "f64 \<Rightarrow> f64 \<Rightarrow> bool" where
  "f64_le x y \<longleftrightarrow> f64_lt x y \<or> f64_eq x y"

fun f64_neg :: "f64 \<Rightarrow> f64" where
  "f64_neg (Fin a) = Fin (- a)"
| "f64_neg PInf = NInf"
| "f64_neg NInf = PInf"
| "f64_neg NaN = NaN"

fun f64_add :: "f64 \<Rightarrow> f64 \<Rightarrow> f64" where
  "f64_add (Fin a) (Fin b) = round_f64 (a + b)"
| "f64_add NaN y = NaN"
| "f64_add x NaN = NaN"
| "f64_add (Fin a) y = y"
| "f64_add x (Fin b) = x"
| "f64_add PInf PInf = PInf"
| "f64_add NInf NInf = NInf"
| "f64_add PInf NInf = NaN"
| "f64_add NInf PInf = NaN"

definition f64_sub :: "f64 \<Rightarrow> f64 \<Rightarrow> f64" where
  "f64_sub x y = f64_add x (f64_neg y)"

definition inf_of_sign :: "bool \<Rightarrow> f64" where
  "inf_of_sign pos = (if pos then PInf else NInf)"

fun f64_mul :: "f64 \<Rightarrow> f64 \<Rightarrow> f64" where
  "f64_mul (Fin a) (Fin b) = round_f64 (a * b)"
| "f64_mul NaN y = NaN"
| "f64_mul x NaN = NaN"
| "f64_mul (Fin a) y = (if a = 0 then NaN else inf_of_sign ((0 < a) = (y = PInf)))"
| "f64_mul x (Fin b) = (if b = 0 then NaN else inf_of_sign ((0 < b) = (x = PInf)))"
| "f64_mul x y = inf_of_sign (x = y)"

text \<open>
  Division of finite values by a non-zero divisor is the rounded quotient; the
  engine rejects a zero divisor before dividing.
\<close>

fun f64_div :: "f64 \<Rightarrow> f64 \<Rightarrow> f64" where
  "f64_div (Fin a) (Fin b) =
     (if b = 0 then (if a = 0 then NaN else inf_of_sign (0 < a)) else round_f64 (a / b))"
| "f64_div NaN y = NaN"
| "f64_div x NaN = NaN"
| "f64_div (Fin a) y = Fin 0"
| "f64_div x (Fin b) = inf_of_sign ((0 \<le> b) = (x = PInf))"
| "f64_div x y = NaN"

text \<open>\<^verbatim>\<open>f as i64\<close>: truncation that saturates, NaN to zero.\<close>

definition trunc_rat :: "rat \<Rightarrow> int" where
  "trunc_rat r = (if r < 0 then \<lceil>r\<rceil> else \<lfloor>r\<rfloor>)"

fun f64_as_i64 :: "f64 \<Rightarrow> int" where
  "f64_as_i64 (Fin r) = max (- (2 ^ 63)) (min (2 ^ 63 - 1) (trunc_rat r))"
| "f64_as_i64 PInf = 2 ^ 63 - 1"
| "f64_as_i64 NInf = - (2 ^ 63)"
| "f64_as_i64 NaN = 0"

definition i64_as_f64 :: "int \<Rightarrow> f64" where
  "i64_as_f64 n = round_f64 (of_int n)"

subsection \<open>Exactness of rounding\<close>

text \<open>The doubles: a 53-bit significand times a power of two not below \<open>2^-1074\<close>.\<close>

definition is_f64 :: "rat \<Rightarrow> bool" where
  "is_f64 r \<longleftrightarrow> (\<exists>m u. r = of_int m * two_powi u \<and> \<bar>m\<bar> < 2 ^ 53 \<and> - 1074 \<le> u \<and> u \<le> 971)"

lemma two_powi_powi: "two_powi u = 2 powi u"
  by (simp add: two_powi_def power_int_def inverse_eq_divide power_one_over)

lemma two_powi_pos [simp]: "0 < two_powi u"
  by (simp add: two_powi_def)

lemma two_powi_nz [simp]: "two_powi u \<noteq> 0"
  using two_powi_pos[of u] by linarith

lemma two_powi_add: "two_powi (a + b) = two_powi a * two_powi b"
  by (simp add: two_powi_powi power_int_add)

lemma two_powi_nat [simp]: "two_powi (int n) = 2 ^ n"
  by (simp add: two_powi_def)

lemma two_powi_mono: "a \<le> b \<Longrightarrow> two_powi a \<le> two_powi b"
  by (simp add: two_powi_powi power_int_increasing)

lemma two_powi_le_iff: "two_powi a \<le> two_powi b \<longleftrightarrow> a \<le> b"
  using two_powi_mono[of a b] power_int_strict_increasing[of b a "2::rat"]
  by (auto simp: two_powi_powi not_le[symmetric])

lemma two_powi_less_iff: "two_powi a < two_powi b \<longleftrightarrow> a < b"
  using two_powi_le_iff[of b a] by linarith

lemma two_powi_numeral [simp]: "two_powi (numeral k) = 2 ^ numeral k"
  by (simp add: two_powi_def)

lemma floorlog2_bounds:
  assumes "0 < n"
  shows "2 ^ (floorlog 2 n - 1) \<le> n \<and> n < 2 ^ floorlog 2 n \<and> 0 < floorlog 2 n"
  using assms floorlog_bounds[of n 2] floorlog_eq_zero_iff[of 2 n] by auto

lemma floorlog2_rat:
  assumes "0 < p"
  shows "2 ^ (floorlog 2 (nat p) - 1) \<le> (of_int p :: rat)" (is ?lo)
    and "(of_int p :: rat) < 2 ^ floorlog 2 (nat p)" (is ?hi)
    and "0 < floorlog 2 (nat p)"
proof -
  have b: "2 ^ (floorlog 2 (nat p) - 1) \<le> nat p" "nat p < 2 ^ floorlog 2 (nat p)"
    and "0 < floorlog 2 (nat p)"
    using floorlog2_bounds[of "nat p"] assms by auto
  then show "0 < floorlog 2 (nat p)" by simp
  have "rat_of_nat (2 ^ (floorlog 2 (nat p) - 1)) \<le> rat_of_nat (nat p)"
    and "rat_of_nat (nat p) < rat_of_nat (2 ^ floorlog 2 (nat p))"
    using b by (simp_all only: of_nat_le_iff of_nat_less_iff)
  then show ?lo and ?hi
    using assms by simp_all
qed

lemma rat_exponent_bounds:
  assumes "0 < a"
  shows "two_powi (rat_exponent a) \<le> a \<and> a < two_powi (rat_exponent a + 1)"
proof -
  obtain p q where pq: "quotient_of a = (p, q)"
    by (cases "quotient_of a")
  have q: "0 < q" and a: "a = of_int p / of_int q"
    using quotient_of_denom_pos[OF pq] quotient_of_div[OF pq] by auto
  have p: "0 < p"
    using assms q a by (simp add: zero_less_divide_iff)
  define i j where "i = floorlog 2 (nat p)" and "j = floorlog 2 (nat q)"
  note P = floorlog2_rat[OF p, folded i_def] and Q = floorlog2_rat[OF q, folded j_def]
  have ij: "0 < i" "0 < j"
    using P Q by simp_all
  define e where "e = int i - int j"
  have hi: "a < two_powi (e + 1)"
  proof -
    have "a * 2 ^ (j - 1) \<le> a * of_int q" using Q(1) assms by simp
    also have "\<dots> = of_int p" using a q by simp
    also have "\<dots> < 2 ^ i" by (rule P(2))
    also have "(2::rat) ^ i = two_powi (e + 1) * 2 ^ (j - 1)"
      using ij by (simp flip: two_powi_nat two_powi_add add: e_def of_nat_diff)
    finally show ?thesis by simp
  qed
  have lo: "two_powi (e - 1) < a"
  proof -
    have "two_powi (e - 1) * 2 ^ j = 2 ^ (i - 1)"
      using ij by (simp flip: two_powi_nat two_powi_add add: e_def of_nat_diff)
    also have "\<dots> \<le> of_int p" by (rule P(1))
    also have "\<dots> = a * of_int q" using a q by simp
    also have "\<dots> < a * 2 ^ j" using Q(2) assms by simp
    finally show ?thesis by simp
  qed
  show ?thesis
    using hi lo by (auto simp: rat_exponent_def pq Let_def i_def[symmetric] j_def[symmetric] e_def[symmetric])
qed

lemma round_half_even_int [simp]: "round_half_even (of_int n) = n"
  by (simp add: round_half_even_def)

lemma round_f64_exact:
  assumes "is_f64 r"
  shows "round_f64 r = Fin r"
proof (cases "r = 0")
  case False
  obtain m w where r: "r = of_int m * two_powi w" and m: "\<bar>m\<bar> < 2 ^ 53" and w: "- 1074 \<le> w" "w \<le> 971"
    using assms by (auto simp: is_f64_def)
  define a u where "a = \<bar>r\<bar>" and "u = max (rat_exponent a - 52) (- 1074)"
  have a: "0 < a" and am: "a = of_int \<bar>m\<bar> * two_powi w"
    using False by (simp_all add: a_def r abs_mult less_imp_le[OF two_powi_pos])
  have "two_powi (rat_exponent a) \<le> a" using rat_exponent_bounds[OF a] by simp
  also have "a < 2 ^ 53 * two_powi w"
    using m by (simp add: am flip: of_int_less_iff[where 'a=rat])
  also have "\<dots> = two_powi (w + 53)" by (simp add: two_powi_add mult.commute)
  finally have "rat_exponent a < w + 53" by (simp add: two_powi_less_iff)
  then have uw: "u \<le> w" using w by (simp add: u_def)
  have au: "a / two_powi u = of_int (\<bar>m\<bar> * 2 ^ nat (w - u))"
  proof -
    have "two_powi w = two_powi u * 2 ^ nat (w - u)"
      using uw by (simp flip: two_powi_nat two_powi_add)
    then show ?thesis by (simp add: am)
  qed
  have "of_int (round_half_even (a / two_powi u)) * two_powi u = a"
  proof -
    have "of_int (round_half_even (a / two_powi u)) = a / two_powi u"
      by (simp only: au round_half_even_int)
    then show ?thesis by simp
  qed
  moreover have "a < 2 ^ 1024"
  proof -
    have "a < 2 ^ 53 * two_powi w"
      using m by (simp add: am flip: of_int_less_iff[where 'a=rat])
    also have "\<dots> \<le> 2 ^ 53 * two_powi 971"
      by (rule mult_left_mono[OF two_powi_mono[OF w(2)]]) simp
    also have "\<dots> = 2 ^ 1024" by (simp add: two_powi_def)
    finally show ?thesis .
  qed
  ultimately show ?thesis
    using False by (auto simp: round_f64_def a_def u_def Let_def)
qed (simp add: round_f64_def)

lemma is_f64_int: "\<bar>n\<bar> \<le> 2 ^ 53 \<Longrightarrow> is_f64 (of_int n)"
proof (cases "\<bar>n\<bar> = 2 ^ 53")
  case True
  then have "of_int n = of_int (sgn n) * two_powi 53 \<and> \<bar>sgn n\<bar> < 2 ^ 53"
    by (auto simp: two_powi_def abs_if sgn_if split: if_splits)
  then show ?thesis unfolding is_f64_def by (intro exI[of _ "sgn n"] exI[of _ 53]) simp
next
  case False
  assume "\<bar>n\<bar> \<le> 2 ^ 53"
  with False show ?thesis unfolding is_f64_def
    by (intro exI[of _ n] exI[of _ 0]) (simp add: two_powi_def)
qed

lemma i64_as_f64_exact: "\<bar>n\<bar> \<le> 2 ^ 53 \<Longrightarrow> i64_as_f64 n = Fin (of_int n)"
  by (simp add: i64_as_f64_def is_f64_int round_f64_exact)

text \<open>For evaluation: small integers are doubles and need no rounding.\<close>

lemma round_f64_code [code]:
  "round_f64 r =
     (case quotient_of r of (p, q) \<Rightarrow>
        if q = 1 \<and> \<bar>p\<bar> \<le> 2 ^ 53 then Fin r
        else
          let a = \<bar>r\<bar>;
              u = max (rat_exponent a - 52) (- 1074);
              v = of_int (round_half_even (a / two_powi u)) * two_powi u
          in if 2 ^ 1024 \<le> v then (if r < 0 then NInf else PInf)
             else Fin (if r < 0 then - v else v))"
proof -
  obtain p q where pq: "quotient_of r = (p, q)"
    by (cases "quotient_of r")
  show ?thesis
  proof (cases "q = 1 \<and> \<bar>p\<bar> \<le> 2 ^ 53")
    case True
    then have "r = of_int p"
      using quotient_of_div[OF pq] by simp
    then show ?thesis
      using round_f64_exact[OF is_f64_int, of p] True pq by (simp only: prod.case simp_thms if_True)
  next
    case False
    then have "r \<noteq> 0"
      using pq by auto
    then show ?thesis
      using False by (simp only: round_f64_def pq prod.case if_False)
  qed
qed

text \<open>Rounding an integer gives an integer, of at most twice its size.\<close>

lemma round_half_even_bound: "of_int (round_half_even x) \<le> x + 1"
  unfolding round_half_even_def Let_def by (auto simp: le_floor_iff) linarith+

lemma round_f64_int:
  assumes "\<bar>n\<bar> < 2 ^ 64"
  obtains k where "round_f64 (of_int n) = Fin (of_int k)" "\<bar>k\<bar> < 2 ^ 66"
proof (cases "\<bar>n\<bar> \<le> 2 ^ 53")
  case True
  show ?thesis
    by (rule that[of n]) (use True is_f64_int round_f64_exact in auto)
next
  case False
  define a :: rat where "a = of_int \<bar>n\<bar>"
  define u where "u = max (rat_exponent a - 52) (- 1074)"
  have a: "0 < a" "a < 2 ^ 64" "2 ^ 53 < a"
    using False assms by (simp_all add: a_def flip: of_int_less_iff[where 'a = rat])
  have e: "two_powi (rat_exponent a) \<le> a" "a < two_powi (rat_exponent a + 1)"
    using rat_exponent_bounds[OF a(1)] by auto
  have lt: "two_powi (rat_exponent a) < two_powi 64" "two_powi 53 < two_powi (rat_exponent a + 1)"
    using e a by simp_all
  then have re: "52 < rat_exponent a" "rat_exponent a < 64"
    unfolding two_powi_less_iff by simp_all
  then have u: "0 \<le> u" "u \<le> 12" by (simp_all add: u_def)
  define m where "m = round_half_even (a / two_powi u)"
  have m0: "0 \<le> m"
    using a(1) by (auto simp: m_def round_half_even_def Let_def zero_le_floor)
      (simp_all add: divide_nonneg_pos less_imp_le add_increasing2)
  have v: "of_int m * two_powi u = of_int (m * 2 ^ nat u)"
    using u by (simp add: two_powi_def)
  have "of_int m * two_powi u \<le> (a / two_powi u + 1) * two_powi u"
    unfolding m_def by (rule mult_right_mono[OF round_half_even_bound]) (simp add: less_imp_le)
  also have "\<dots> = a + two_powi u" by (simp add: distrib_right)
  also have "\<dots> < 2 ^ 64 + two_powi 12" using a(2) two_powi_mono[OF u(2)] by simp
  finally have b: "of_int m * two_powi u < 2 ^ 66" by simp
  then have k: "m * 2 ^ nat u < 2 ^ 66"
    unfolding v by (simp flip: of_int_less_iff[where 'a = rat])
  have "\<not> (2 ^ 1024 \<le> of_int m * two_powi u)"
    using b by (simp add: not_le less_trans)
  then have "round_f64 (of_int n) = Fin (if n < 0 then - (of_int m * two_powi u) else of_int m * two_powi u)"
    using False by (auto simp: round_f64_def Let_def m_def u_def a_def simp flip: of_int_abs)
  then have "round_f64 (of_int n) = Fin (of_int (if n < 0 then - (m * 2 ^ nat u) else m * 2 ^ nat u))"
    unfolding v by simp
  then show ?thesis
    using that k m0 by auto
qed

section \<open>Text\<close>

definition is_digit :: "char \<Rightarrow> bool" where
  "is_digit c \<longleftrightarrow> 48 \<le> (of_char c :: nat) \<and> (of_char c :: nat) \<le> 57"

definition is_alpha :: "char \<Rightarrow> bool" where
  "is_alpha c \<longleftrightarrow>
     (65 \<le> (of_char c :: nat) \<and> (of_char c :: nat) \<le> 90)
     \<or> (97 \<le> (of_char c :: nat) \<and> (of_char c :: nat) \<le> 122)"

definition digit_val :: "char \<Rightarrow> nat" where
  "digit_val c = of_char c - 48"

definition digit_char :: "nat \<Rightarrow> char" where
  "digit_char d = char_of (48 + d)"

fun nat_to_string :: "nat \<Rightarrow> string" where
  "nat_to_string n =
     (if n < 10 then [digit_char n] else nat_to_string (n div 10) @ [digit_char (n mod 10)])"

declare nat_to_string.simps [simp del]

definition int_to_string :: "int \<Rightarrow> string" where
  "int_to_string n =
     (if n < 0 then CHR ''-'' # nat_to_string (nat (- n)) else nat_to_string (nat n))"

definition digits_val :: "string \<Rightarrow> nat" where
  "digits_val s = foldl (\<lambda>a c. 10 * a + digit_val c) 0 s"

definition all_digits :: "string \<Rightarrow> bool" where
  "all_digits s \<longleftrightarrow> s \<noteq> [] \<and> list_all is_digit s"

definition strip_sign :: "string \<Rightarrow> bool \<times> string" where
  "strip_sign s =
     (case s of
        [] \<Rightarrow> (False, s)
      | c # cs \<Rightarrow> if c = CHR ''-'' then (True, cs)
                  else if c = CHR ''+'' then (False, cs) else (False, s))"

text \<open>\<^verbatim>\<open>s.parse::<i64>()\<close>: an optional sign, at least one digit, in range.\<close>

definition parse_i64 :: "string \<Rightarrow> int option" where
  "parse_i64 s =
     (let (neg, ds) = strip_sign s
      in if all_digits ds
         then let n = (if neg then - int (digits_val ds) else int (digits_val ds))
              in if i64_ok n then Some n else None
         else None)"

lemma of_char_digit: "d < 10 \<Longrightarrow> of_char (digit_char d) = (48 + d :: nat)"
  by (simp add: digit_char_def)

lemma digit_char_ok [simp]:
  "d < 10 \<Longrightarrow> is_digit (digit_char d)" "d < 10 \<Longrightarrow> digit_val (digit_char d) = d"
  by (simp_all add: is_digit_def digit_val_def of_char_digit)

lemma all_digits_nat_to_string [simp]: "all_digits (nat_to_string n)"
proof (induction n rule: nat_to_string.induct)
  case (1 n)
  then show ?case
    by (subst nat_to_string.simps) (auto simp: all_digits_def)
qed

lemma digits_val_nat_to_string [simp]: "digits_val (nat_to_string n) = n"
proof (induction n rule: nat_to_string.induct)
  case (1 n)
  then show ?case
    by (subst nat_to_string.simps) (auto simp: digits_val_def)
qed

lemma sign_not_digit: "\<not> is_digit (CHR ''-'')" "\<not> is_digit (CHR ''+'')"
  by (simp_all add: is_digit_def)

lemma strip_sign_digits: "all_digits s \<Longrightarrow> strip_sign s = (False, s)"
  using sign_not_digit by (auto simp: strip_sign_def all_digits_def split: list.splits)

lemma parse_i64_int_to_string: "i64_ok n \<Longrightarrow> parse_i64 (int_to_string n) = Some n"
  by (auto simp: parse_i64_def int_to_string_def strip_sign_digits)
     (simp_all add: strip_sign_def)

text \<open>\<^verbatim>\<open>s.parse::<f64>()\<close>: decimal or scientific notation, \<^verbatim>\<open>inf\<close>, \<^verbatim>\<open>infinity\<close> and
  \<^verbatim>\<open>nan\<close> in any case, an optional sign.\<close>

definition ascii_lower :: "char \<Rightarrow> char" where
  "ascii_lower c =
     (if 65 \<le> (of_char c :: nat) \<and> (of_char c :: nat) \<le> 90 then char_of ((of_char c :: nat) + 32) else c)"

definition eq_ignore_ascii_case :: "string \<Rightarrow> string \<Rightarrow> bool" where
  "eq_ignore_ascii_case s t \<longleftrightarrow> map ascii_lower s = map ascii_lower t"

definition parse_exponent :: "string \<Rightarrow> int option" where
  "parse_exponent s =
     (case s of
        [] \<Rightarrow> Some 0
      | c # cs \<Rightarrow>
          if c = CHR ''e'' \<or> c = CHR ''E''
          then let (neg, ds) = strip_sign cs
               in if all_digits ds
                  then Some (if neg then - int (digits_val ds) else int (digits_val ds)) else None
          else None)"

definition ten_powi :: "int \<Rightarrow> rat" where
  "ten_powi e = (if 0 \<le> e then 10 ^ nat e else 1 / 10 ^ nat (- e))"

definition parse_decimal :: "string \<Rightarrow> rat option" where
  "parse_decimal s =
     (let ip = takeWhile is_digit s; rest = dropWhile is_digit s
      in case rest of
           c # cs \<Rightarrow>
             if c = CHR ''.''
             then let fp = takeWhile is_digit cs; rest' = dropWhile is_digit cs
                  in if ip = [] \<and> fp = [] then None
                     else (case parse_exponent rest' of
                             None \<Rightarrow> None
                           | Some e \<Rightarrow> Some (of_nat (digits_val (ip @ fp)) * ten_powi (e - int (length fp))))
             else if ip = [] then None
             else (case parse_exponent rest of
                     None \<Rightarrow> None
                   | Some e \<Rightarrow> Some (of_nat (digits_val ip) * ten_powi e))
         | [] \<Rightarrow> if ip = [] then None else Some (of_nat (digits_val ip)))"

definition parse_f64 :: "string \<Rightarrow> f64 option" where
  "parse_f64 s =
     (let (neg, b) = strip_sign s
      in if eq_ignore_ascii_case b ''inf'' \<or> eq_ignore_ascii_case b ''infinity''
         then Some (if neg then NInf else PInf)
         else if eq_ignore_ascii_case b ''nan'' then Some NaN
         else (case parse_decimal b of
                 None \<Rightarrow> None
               | Some r \<Rightarrow> Some (round_f64 (if neg then - r else r))))"

text \<open>\<^verbatim>\<open>str::trim\<close>: the UTF-8 encodings of the Unicode \<^verbatim>\<open>White_Space\<close> characters.\<close>

definition utf8 :: "nat list \<Rightarrow> string" where
  "utf8 ns = map char_of ns"

definition white_space :: "string list" where
  "white_space = map utf8
     ([[9], [10], [11], [12], [13], [32], [194, 133], [194, 160], [225, 154, 128]]
      @ map (\<lambda>i. [226, 128, i]) ([128..<139] @ [168, 169, 175])
      @ [[226, 129, 159], [227, 128, 128]])"

fun strip_any :: "nat \<Rightarrow> string list \<Rightarrow> string \<Rightarrow> string" where
  "strip_any 0 ws s = s"
| "strip_any (Suc n) ws s =
     (case find (\<lambda>w. prefix w s) ws of
        None \<Rightarrow> s
      | Some w \<Rightarrow> strip_any n ws (drop (length w) s))"

definition trim :: "string \<Rightarrow> string" where
  "trim s =
     (let t = strip_any (length s) white_space s
      in rev (strip_any (length t) (map rev white_space) (rev t)))"

text \<open>\<^verbatim>\<open>trim_matches(' ')\<close>.\<close>

definition trim_spaces :: "string \<Rightarrow> string" where
  "trim_spaces s = rev (dropWhile (\<lambda>c. c = CHR '' '') (rev (dropWhile (\<lambda>c. c = CHR '' '') s)))"

text \<open>\<^verbatim>\<open>s.chars().count()\<close>: the bytes that are not UTF-8 continuation bytes.\<close>

definition chars_count :: "string \<Rightarrow> nat" where
  "chars_count s = length (filter (\<lambda>c. (of_char c :: nat) div 64 \<noteq> 2) s)"

definition starts_with :: "string \<Rightarrow> string \<Rightarrow> bool" where
  "starts_with p s = prefix p s"

text \<open>\<^verbatim>\<open>s.contains(p)\<close> and \<^verbatim>\<open>parts.join(sep)\<close>.\<close>

fun str_contains :: "string \<Rightarrow> string \<Rightarrow> bool" where
  "str_contains [] p = (p = [])"
| "str_contains (c # cs) p = (prefix p (c # cs) \<or> str_contains cs p)"

fun str_join :: "string \<Rightarrow> string list \<Rightarrow> string" where
  "str_join sep [] = []"
| "str_join sep [s] = s"
| "str_join sep (s # t # ts) = s @ sep @ str_join sep (t # ts)"

text \<open>\<^verbatim>\<open>s.chars()\<close>, each character as the bytes of its UTF-8 encoding, and
  \<^verbatim>\<open>s.split_whitespace()\<close>.\<close>

definition utf8_more :: "char \<Rightarrow> nat" where
  "utf8_more c =
     (let n = of_char c :: nat in if n < 192 then 0 else if n < 224 then 1 else if n < 240 then 2 else 3)"

function str_chars :: "string \<Rightarrow> string list" where
  "str_chars [] = []"
| "str_chars (c # cs) = (c # take (utf8_more c) cs) # str_chars (drop (utf8_more c) cs)"
  by pat_completeness auto
termination
  by (relation "measure length") auto

definition is_whitespace :: "string \<Rightarrow> bool" where
  "is_whitespace c \<longleftrightarrow> c \<in> set white_space"

fun split_chars :: "('a list \<Rightarrow> bool) \<Rightarrow> 'a list \<Rightarrow> 'a list list \<Rightarrow> 'a list list" where
  "split_chars sep acc [] = (if acc = [] then [] else [acc])"
| "split_chars sep acc (c # cs) =
     (if sep c then (if acc = [] then split_chars sep [] cs else acc # split_chars sep [] cs)
      else split_chars sep (acc @ c) cs)"

definition split_whitespace :: "string \<Rightarrow> string list" where
  "split_whitespace s = split_chars is_whitespace [] (str_chars s)"

lemma concat_str_chars [simp]: "concat (str_chars s) = s"
  by (induction s rule: str_chars.induct) simp_all

lemma str_contains_iff: "str_contains s p \<longleftrightarrow> (\<exists>a b. s = a @ p @ b)"
proof (induction s)
  case (Cons c s)
  have "(\<exists>a b. c # s = a @ p @ b) \<longleftrightarrow> prefix p (c # s) \<or> (\<exists>a b. s = a @ p @ b)"
    by (auto simp: prefix_def Cons_eq_append_conv)
  then show ?case
    using Cons.IH by simp
qed simp

end
