(* ===== verification/Json.thy ===== *)
theory Json
  imports Numbers
begin

text \<open>
  \<^verbatim>\<open>serde_json\<close>'s \<^verbatim>\<open>Value\<close>, \<^verbatim>\<open>Number\<close> and \<^verbatim>\<open>Map\<close> as the engine uses them (the
  \<^verbatim>\<open>BTreeMap\<close>-backed map, no arbitrary precision), the error codes of the client
  and the functions of third-party crates the engine calls, collected in one
  record that the definitions take as an argument.
\<close>

section \<open>Values\<close>

datatype num = PosInt nat | NegInt int | Float rat

datatype json =
    JNull
  | JBool bool
  | JNumber num
  | JString string
  | JArray "json list"
  | JObject "(string \<times> json) list"

type_synonym doc = "(string \<times> json) list"

definition num_ok :: "num \<Rightarrow> bool" where
  "num_ok n =
     (case n of
        PosInt k \<Rightarrow> k < 2 ^ 64
      | NegInt i \<Rightarrow> - (2 ^ 63) \<le> i \<and> i < 0
      | Float r \<Rightarrow> round_f64 r = Fin r)"

text \<open>\<^verbatim>\<open>Number::as_f64\<close>, \<^verbatim>\<open>as_i64\<close>, \<^verbatim>\<open>as_u64\<close>, \<^verbatim>\<open>is_f64\<close> and \<^verbatim>\<open>Number::from_f64\<close>.\<close>

fun as_f64 :: "num \<Rightarrow> f64" where
  "as_f64 (PosInt n) = round_f64 (of_nat n)"
| "as_f64 (NegInt i) = round_f64 (of_int i)"
| "as_f64 (Float r) = Fin r"

fun as_i64 :: "num \<Rightarrow> int option" where
  "as_i64 (PosInt n) = (if int n < 2 ^ 63 then Some (int n) else None)"
| "as_i64 (NegInt i) = Some i"
| "as_i64 (Float r) = None"

fun as_u64 :: "num \<Rightarrow> nat option" where
  "as_u64 (PosInt n) = Some n"
| "as_u64 (NegInt i) = None"
| "as_u64 (Float r) = None"

fun is_float :: "num \<Rightarrow> bool" where
  "is_float (Float r) = True"
| "is_float (PosInt n) = False"
| "is_float (NegInt i) = False"

fun number_from_f64 :: "f64 \<Rightarrow> num option" where
  "number_from_f64 (Fin r) = Some (Float r)"
| "number_from_f64 PInf = None"
| "number_from_f64 NInf = None"
| "number_from_f64 NaN = None"

text \<open>\<^verbatim>\<open>Value::from(i64)\<close>.\<close>

definition num_of_int :: "int \<Rightarrow> num" where
  "num_of_int i = (if 0 \<le> i then PosInt (nat i) else NegInt i)"

abbreviation json_of_int :: "int \<Rightarrow> json" where
  "json_of_int i \<equiv> JNumber (num_of_int i)"

lemma as_i64_num_of_int [simp]: "i64_ok i \<Longrightarrow> as_i64 (num_of_int i) = Some i"
  by (auto simp: num_of_int_def i64_ok_def)

lemma num_ok_num_of_int: "i64_ok i \<Longrightarrow> num_ok (num_of_int i)"
  by (auto simp: num_of_int_def i64_ok_def num_ok_def nat_less_iff)

lemma as_f64_num_of_int: "as_f64 (num_of_int i) = i64_as_f64 i"
  by (simp add: num_of_int_def i64_as_f64_def)

text \<open>The accessors of \<^verbatim>\<open>Value\<close>.\<close>

fun is_null :: "json \<Rightarrow> bool" where
  "is_null JNull = True"
| "is_null _ = False"

fun is_string :: "json \<Rightarrow> bool" where
  "is_string (JString s) = True"
| "is_string _ = False"

fun is_number :: "json \<Rightarrow> bool" where
  "is_number (JNumber n) = True"
| "is_number _ = False"

fun is_boolean :: "json \<Rightarrow> bool" where
  "is_boolean (JBool b) = True"
| "is_boolean _ = False"

fun as_str :: "json \<Rightarrow> string option" where
  "as_str (JString s) = Some s"
| "as_str _ = None"

fun as_array :: "json \<Rightarrow> json list option" where
  "as_array (JArray xs) = Some xs"
| "as_array _ = None"

fun as_object :: "json \<Rightarrow> doc option" where
  "as_object (JObject m) = Some m"
| "as_object _ = None"

fun json_as_f64 :: "json \<Rightarrow> f64 option" where
  "json_as_f64 (JNumber n) = Some (as_f64 n)"
| "json_as_f64 _ = None"

fun json_get :: "json \<Rightarrow> string \<Rightarrow> json option" where
  "json_get (JObject m) k = map_of m k"
| "json_get _ k = None"

lemma is_null_iff: "is_null v \<longleftrightarrow> v = JNull"
  by (cases v) simp_all

text \<open>Every map inside the value is a well-formed \<^verbatim>\<open>Map\<close>, every number a \<^verbatim>\<open>Number\<close>.\<close>

fun json_ok :: "json \<Rightarrow> bool" where
  "json_ok (JArray xs) = (\<forall>x\<in>set xs. json_ok x)"
| "json_ok (JObject m) = (bt_ok m \<and> (\<forall>v\<in>set (map snd m). json_ok v))"
| "json_ok (JNumber n) = num_ok n"
| "json_ok _ = True"

definition doc_ok :: "doc \<Rightarrow> bool" where
  "doc_ok d = json_ok (JObject d)"

lemma doc_ok_iff: "doc_ok d \<longleftrightarrow> bt_ok d \<and> (\<forall>v\<in>set (map snd d). json_ok v)"
  by (simp add: doc_ok_def)

lemma doc_ok_map: "doc_ok d \<longleftrightarrow> bt_ok d \<and> (\<forall>k v. map_of d k = Some v \<longrightarrow> json_ok v)"
  by (auto simp: doc_ok_iff dest!: map_of_SomeD) (metis bt_ok_distinct map_of_is_SomeI)

lemma doc_ok_Nil [simp]: "doc_ok []"
  by (simp add: doc_ok_def)

lemma doc_ok_insert [simp]: "doc_ok d \<Longrightarrow> json_ok v \<Longrightarrow> doc_ok (bt_insert k v d)"
  by (auto simp: doc_ok_map)

lemma doc_ok_remove [simp]: "doc_ok d \<Longrightarrow> doc_ok (bt_remove k d)"
  by (auto simp: doc_ok_map)

lemma doc_ok_get: "doc_ok d \<Longrightarrow> map_of d k = Some v \<Longrightarrow> json_ok v"
  by (auto simp: doc_ok_map)

section \<open>Errors\<close>

text \<open>\<^verbatim>\<open>ErrorCode\<close> of the Rust client; messages are not modelled.\<close>

datatype error_code =
    Unauthorized | Forbidden | NotFound | SchemaViolation | PreconditionFailed | BadRequest
  | Internal | Conflict | RateLimited | QuotaExceeded | UnsupportedProtocol | CursorExpired
  | ReadOnly

type_synonym 'a res = "error_code + 'a"

section \<open>Third-party functions\<close>

text \<open>
  What the engine calls outside the repository: \<^verbatim>\<open>serde_json\<close>'s text form of a
  value and its parser, the \<^verbatim>\<open>regex\<close> crate (\<open>None\<close>: the pattern does not
  compile), \<^verbatim>\<open>base64\<close>, and the Unicode case tables behind \<^verbatim>\<open>to_lowercase\<close> and
  \<^verbatim>\<open>to_uppercase\<close>.
\<close>

record ext =
  json_text :: "json \<Rightarrow> string"
  json_parse :: "string \<Rightarrow> json option"
  regex_match :: "string \<Rightarrow> string \<Rightarrow> bool option"
  b64_encode :: "string \<Rightarrow> string"
  b64_decode :: "string \<Rightarrow> string option"
  to_lowercase :: "string \<Rightarrow> string"
  to_uppercase :: "string \<Rightarrow> string"

text \<open>One instance of them, for evaluation on concrete inputs.\<close>

definition sample_ext :: ext where
  "sample_ext =
     \<lparr>json_text = (\<lambda>_. []), json_parse = (\<lambda>_. None), regex_match = (\<lambda>p s. Some (p = s)),
      b64_encode = (\<lambda>s. s), b64_decode = Some, to_lowercase = map ascii_lower,
      to_uppercase = (\<lambda>s. s)\<rparr>"

end
