(* ===== verification/Wire.thy ===== *)
theory Wire
  imports Json
begin

text \<open>
  The filter and value expression grammar of \<^verbatim>\<open>core/src/wire.rs\<close>, the field walks of
  \<^verbatim>\<open>core/src/fields.rs\<close> and the field renaming of \<^verbatim>\<open>core/src/engine.rs\<close>.  Constructors
  carry the Rust variant's name after \<open>F\<close> (filters) or \<open>V\<close> (values).
\<close>

datatype filter_expr =
    FEq string json
  | FNeq string json
  | FGt string json
  | FGte string json
  | FLt string json
  | FLte string json
  | FIn string "json list"
  | FAnd "filter_expr list"
  | FOr "filter_expr list"
  | FNot filter_expr
  | FContains string json
  | FExists string
  | FOlderThan string int

datatype cast = ToString | ToNumber | ToInt64 | ToBoolean

datatype value_expr =
    VField string
  | VLiteral json
  | VConcat "value_expr list"
  | VAdd value_expr value_expr
  | VSub value_expr value_expr
  | VMul value_expr value_expr
  | VDiv value_expr value_expr
  | VCoalesce "value_expr list"
  | VLower value_expr
  | VUpper value_expr
  | VTrim value_expr
  | VCast value_expr cast
  | VNow
  | VCase "case_when list" value_expr
and case_when = CaseWhen (cw_when: filter_expr) (cw_then: value_expr)

section \<open>Field walks\<close>

text \<open>The callback's calls, in order, as a list.\<close>

fun walk_filter_expr_fields :: "filter_expr \<Rightarrow> string list" where
  "walk_filter_expr_fields (FEq field v) = [field]"
| "walk_filter_expr_fields (FNeq field v) = [field]"
| "walk_filter_expr_fields (FGt field v) = [field]"
| "walk_filter_expr_fields (FGte field v) = [field]"
| "walk_filter_expr_fields (FLt field v) = [field]"
| "walk_filter_expr_fields (FLte field v) = [field]"
| "walk_filter_expr_fields (FIn field vs) = [field]"
| "walk_filter_expr_fields (FContains field v) = [field]"
| "walk_filter_expr_fields (FOlderThan field ms) = [field]"
| "walk_filter_expr_fields (FExists field) = [field]"
| "walk_filter_expr_fields (FAnd es) = concat (map walk_filter_expr_fields es)"
| "walk_filter_expr_fields (FOr es) = concat (map walk_filter_expr_fields es)"
| "walk_filter_expr_fields (FNot e) = walk_filter_expr_fields e"

fun walk_value_expr_fields :: "value_expr \<Rightarrow> string list"
  and walk_case_when_fields :: "case_when \<Rightarrow> string list" where
  "walk_value_expr_fields (VField field) = [field]"
| "walk_value_expr_fields (VLiteral v) = []"
| "walk_value_expr_fields VNow = []"
| "walk_value_expr_fields (VConcat parts) = concat (map walk_value_expr_fields parts)"
| "walk_value_expr_fields (VCoalesce parts) = concat (map walk_value_expr_fields parts)"
| "walk_value_expr_fields (VAdd l r) = walk_value_expr_fields l @ walk_value_expr_fields r"
| "walk_value_expr_fields (VSub l r) = walk_value_expr_fields l @ walk_value_expr_fields r"
| "walk_value_expr_fields (VMul l r) = walk_value_expr_fields l @ walk_value_expr_fields r"
| "walk_value_expr_fields (VDiv l r) = walk_value_expr_fields l @ walk_value_expr_fields r"
| "walk_value_expr_fields (VLower v) = walk_value_expr_fields v"
| "walk_value_expr_fields (VUpper v) = walk_value_expr_fields v"
| "walk_value_expr_fields (VTrim v) = walk_value_expr_fields v"
| "walk_value_expr_fields (VCast v to) = walk_value_expr_fields v"
| "walk_value_expr_fields (VCase whens otherwise) =
     concat (map walk_case_when_fields whens) @ walk_value_expr_fields otherwise"
| "walk_case_when_fields (CaseWhen w t) = walk_filter_expr_fields w @ walk_value_expr_fields t"

section \<open>Renaming a field\<close>

definition rename_name :: "string \<Rightarrow> string \<Rightarrow> string \<Rightarrow> string" where
  "rename_name from to field = (if field = from then to else field)"

fun rename_filter_fields :: "string \<Rightarrow> string \<Rightarrow> filter_expr \<Rightarrow> filter_expr" where
  "rename_filter_fields from to (FEq field v) = FEq (rename_name from to field) v"
| "rename_filter_fields from to (FNeq field v) = FNeq (rename_name from to field) v"
| "rename_filter_fields from to (FGt field v) = FGt (rename_name from to field) v"
| "rename_filter_fields from to (FGte field v) = FGte (rename_name from to field) v"
| "rename_filter_fields from to (FLt field v) = FLt (rename_name from to field) v"
| "rename_filter_fields from to (FLte field v) = FLte (rename_name from to field) v"
| "rename_filter_fields from to (FIn field vs) = FIn (rename_name from to field) vs"
| "rename_filter_fields from to (FContains field v) = FContains (rename_name from to field) v"
| "rename_filter_fields from to (FExists field) = FExists (rename_name from to field)"
| "rename_filter_fields from to (FOlderThan field ms) = FOlderThan (rename_name from to field) ms"
| "rename_filter_fields from to (FAnd es) = FAnd (map (rename_filter_fields from to) es)"
| "rename_filter_fields from to (FOr es) = FOr (map (rename_filter_fields from to) es)"
| "rename_filter_fields from to (FNot e) = FNot (rename_filter_fields from to e)"

fun rename_value_expr_fields :: "string \<Rightarrow> string \<Rightarrow> value_expr \<Rightarrow> value_expr"
  and rename_case_when_fields :: "string \<Rightarrow> string \<Rightarrow> case_when \<Rightarrow> case_when" where
  "rename_value_expr_fields from to (VField field) = VField (rename_name from to field)"
| "rename_value_expr_fields from to (VLiteral v) = VLiteral v"
| "rename_value_expr_fields from to VNow = VNow"
| "rename_value_expr_fields from to (VConcat parts) =
     VConcat (map (rename_value_expr_fields from to) parts)"
| "rename_value_expr_fields from to (VCoalesce parts) =
     VCoalesce (map (rename_value_expr_fields from to) parts)"
| "rename_value_expr_fields from to (VAdd l r) =
     VAdd (rename_value_expr_fields from to l) (rename_value_expr_fields from to r)"
| "rename_value_expr_fields from to (VSub l r) =
     VSub (rename_value_expr_fields from to l) (rename_value_expr_fields from to r)"
| "rename_value_expr_fields from to (VMul l r) =
     VMul (rename_value_expr_fields from to l) (rename_value_expr_fields from to r)"
| "rename_value_expr_fields from to (VDiv l r) =
     VDiv (rename_value_expr_fields from to l) (rename_value_expr_fields from to r)"
| "rename_value_expr_fields from to (VLower v) = VLower (rename_value_expr_fields from to v)"
| "rename_value_expr_fields from to (VUpper v) = VUpper (rename_value_expr_fields from to v)"
| "rename_value_expr_fields from to (VTrim v) = VTrim (rename_value_expr_fields from to v)"
| "rename_value_expr_fields from to (VCast v c) = VCast (rename_value_expr_fields from to v) c"
| "rename_value_expr_fields from to (VCase whens otherwise) =
     VCase (map (rename_case_when_fields from to) whens) (rename_value_expr_fields from to otherwise)"
| "rename_case_when_fields from to (CaseWhen w t) =
     CaseWhen (rename_filter_fields from to w) (rename_value_expr_fields from to t)"

text \<open>The walk of a renamed expression is the renamed walk.\<close>

lemma walk_rename_filter:
  "walk_filter_expr_fields (rename_filter_fields a b e)
   = map (rename_name a b) (walk_filter_expr_fields e)"
  by (induction a b e rule: rename_filter_fields.induct)
     (auto simp: map_concat intro!: arg_cong[of _ _ concat])

lemma walk_rename_value_expr:
  "walk_value_expr_fields (rename_value_expr_fields a b ve)
   = map (rename_name a b) (walk_value_expr_fields ve)"
  "walk_case_when_fields (rename_case_when_fields a b cw)
   = map (rename_name a b) (walk_case_when_fields cw)"
  by (induction a b ve and a b cw rule: rename_value_expr_fields_rename_case_when_fields.induct)
     (auto simp: map_concat walk_rename_filter intro!: arg_cong[of _ _ concat])

end
