(* ===== verification/Schema.thy ===== *)
theory Schema
  imports Wire
begin

text \<open>
  The schema types of \<^verbatim>\<open>core/src/schema.rs\<close> and the classification of a field type
  change (\<^verbatim>\<open>strip_on_delete\<close>, \<^verbatim>\<open>is_widening_of\<close>, \<^verbatim>\<open>is_type_change_rejected\<close>).  Field
  type constructors carry the Rust variant's name after \<open>Ty\<close>; record fields carry
  the struct's initials.
\<close>

datatype on_delete_action = Cascade | Restrict | SetNull

datatype field_type =
    TyString
  | TyNumber
  | TyBoolean
  | TyNull
  | TyId string "on_delete_action option"
  | TyLiteral json
  | TyOptional field_type
  | TyUnion "field_type list"
  | TyArray field_type
  | TyObject "(string \<times> field_type) list"
  | TyInt64
  | TyBytes
  | TyAny
  | TyRecord field_type
  | TyVector nat

datatype distance_metric = Cosine | L2 | Ip

record vector_index_spec =
  vs_dimensions :: nat
  vs_filter_fields :: "string list"
  vs_metric :: distance_metric

record index_def =
  ix_name :: string
  ix_fields :: "string list"
  ix_search :: bool
  ix_trgm :: bool
  ix_vector :: "vector_index_spec option"
  ix_unique :: bool
  ix_where :: "filter_expr option"
  ix_language :: "string option"

record ttl_def =
  ttl_field :: string
  ttl_default_duration_ms :: "int option"

record field_constraints =
  fc_min :: "num option"
  fc_max :: "num option"
  fc_min_length :: "nat option"
  fc_max_length :: "nat option"
  fc_pattern :: "string option"

record table_def =
  td_fields :: "(string \<times> field_type) list"
  td_indexes :: "index_def list"
  td_owner_field :: "string option"
  td_collaborators_field :: "string option"
  td_ttl :: "ttl_def option"
  td_updated_at_field :: "string option"
  td_auto_increment_field :: "string option"
  td_authorize :: "filter_expr option"
  td_defaults :: "(string \<times> json) list"
  td_constraints :: "(string \<times> field_constraints) list"
  td_computed :: "(string \<times> value_expr) list"
  td_soft_delete :: bool
  td_insert_only :: bool
  td_description :: "string option"
  td_field_descriptions :: "(string \<times> string) list"

record schema_def =
  sd_tables :: "(string \<times> table_def) list"

text \<open>\<^verbatim>\<open>TableDef::default()\<close>, and a plain b-tree index.\<close>

definition empty_table :: table_def where
  "empty_table =
     \<lparr>td_fields = [], td_indexes = [], td_owner_field = None, td_collaborators_field = None,
      td_ttl = None, td_updated_at_field = None, td_auto_increment_field = None,
      td_authorize = None, td_defaults = [], td_constraints = [], td_computed = [],
      td_soft_delete = False, td_insert_only = False, td_description = None,
      td_field_descriptions = []\<rparr>"

definition plain_index :: "string \<Rightarrow> string list \<Rightarrow> bool \<Rightarrow> index_def" where
  "plain_index n fs u =
     \<lparr>ix_name = n, ix_fields = fs, ix_search = False, ix_trgm = False, ix_vector = None,
      ix_unique = u, ix_where = None, ix_language = None\<rparr>"

definition MAX_TABLE_NAME_LEN :: nat where "MAX_TABLE_NAME_LEN = 30"
definition MAX_INDEX_NAME_LEN :: nat where "MAX_INDEX_NAME_LEN = 30"
definition MAX_FIELD_NAME_LEN :: nat where "MAX_FIELD_NAME_LEN = 60"

fun is_optional :: "field_type \<Rightarrow> bool" where
  "is_optional (TyOptional t) = True"
| "is_optional _ = False"

section \<open>Type changes\<close>

fun strip_on_delete :: "field_type \<Rightarrow> field_type" where
  "strip_on_delete (TyId table od) = TyId table None"
| "strip_on_delete (TyOptional t) = TyOptional (strip_on_delete t)"
| "strip_on_delete (TyUnion ts) = TyUnion (map strip_on_delete ts)"
| "strip_on_delete (TyArray t) = TyArray (strip_on_delete t)"
| "strip_on_delete (TyObject fs) = TyObject (map (\<lambda>p. (fst p, strip_on_delete (snd p))) fs)"
| "strip_on_delete (TyRecord t) = TyRecord (strip_on_delete t)"
| "strip_on_delete t = t"

fun literal_of :: "field_type \<Rightarrow> json option" where
  "literal_of (TyLiteral v) = Some v"
| "literal_of _ = None"

fun literal_set :: "field_type \<Rightarrow> json list option" where
  "literal_set (TyLiteral v) = Some [v]"
| "literal_set (TyUnion ts) =
     (let vals = List.map_filter literal_of ts
      in if length vals = length ts \<and> ts \<noteq> [] then Some vals else None)"
| "literal_set _ = None"

definition literal_widening :: "field_type \<Rightarrow> field_type \<Rightarrow> bool" where
  "literal_widening old new =
     (case (literal_set old, literal_set new) of
        (Some ov, Some nv) \<Rightarrow> list_all (\<lambda>v. v \<in> set nv) ov
      | _ \<Rightarrow> False)"

function (sequential) is_widening_of :: "field_type \<Rightarrow> field_type \<Rightarrow> bool"
  and is_object_shape_widening :: "field_type \<Rightarrow> field_type \<Rightarrow> bool"
  and is_type_change_rejected :: "field_type \<Rightarrow> field_type \<Rightarrow> bool" where
  "is_widening_of old new =
     (if literal_widening old new then True else is_object_shape_widening old new)"
| "is_object_shape_widening (TyArray old_e) (TyArray new_e) = is_object_shape_widening old_e new_e"
| "is_object_shape_widening (TyObject old_fs) (TyObject new_fs) =
     ((\<forall>p\<in>set old_fs.
         case map_of new_fs (fst p) of
           None \<Rightarrow> False
         | Some new_ty \<Rightarrow> \<not> is_type_change_rejected (snd p) new_ty)
      \<and> (\<forall>p\<in>set new_fs. map_of old_fs (fst p) \<noteq> None \<or> is_optional (snd p)))"
| "is_object_shape_widening _ _ = False"
| "is_type_change_rejected old new =
     (strip_on_delete new \<noteq> strip_on_delete old \<and> \<not> is_widening_of old new)"
  by pat_completeness auto
termination
  by (relation "measure (\<lambda>x. case x of
        Inl (old, new) \<Rightarrow> 3 * size old + 1
      | Inr (Inl (old, new)) \<Rightarrow> 3 * size old
      | Inr (Inr (old, new)) \<Rightarrow> 3 * size old + 2)")
     (auto dest: size_snd_pair[where f = size])

declare is_widening_of.simps [simp del] is_type_change_rejected.simps [simp del]

text \<open>Every object type inside is a well-formed \<^verbatim>\<open>BTreeMap\<close>.\<close>

fun ft_ok :: "field_type \<Rightarrow> bool" where
  "ft_ok (TyOptional t) = ft_ok t"
| "ft_ok (TyUnion ts) = (\<forall>t\<in>set ts. ft_ok t)"
| "ft_ok (TyArray t) = ft_ok t"
| "ft_ok (TyObject fs) = (bt_ok fs \<and> (\<forall>p\<in>set fs. ft_ok (snd p)))"
| "ft_ok (TyRecord t) = ft_ok t"
| "ft_ok _ = True"

definition table_ok :: "table_def \<Rightarrow> bool" where
  "table_ok t \<longleftrightarrow>
     bt_ok (td_fields t) \<and> (\<forall>p\<in>set (td_fields t). ft_ok (snd p))
     \<and> doc_ok (td_defaults t) \<and> bt_ok (td_constraints t) \<and> bt_ok (td_computed t)"

definition schema_ok :: "schema_def \<Rightarrow> bool" where
  "schema_ok s \<longleftrightarrow> bt_ok (sd_tables s) \<and> (\<forall>p\<in>set (sd_tables s). table_ok (snd p))"

lemma schema_ok_table: "schema_ok s \<Longrightarrow> map_of (sd_tables s) t = Some td \<Longrightarrow> table_ok td"
  by (auto simp: schema_ok_def dest!: map_of_SomeD)

lemma table_ok_field: "table_ok td \<Longrightarrow> map_of (td_fields td) f = Some ft \<Longrightarrow> ft_ok ft"
  by (auto simp: table_ok_def dest!: map_of_SomeD)

lemma map_of_strip_on_delete:
  "map_of (map (\<lambda>p. (fst p, strip_on_delete (snd p))) fs) k
   = map_option strip_on_delete (map_of fs k)"
  by (induction fs) auto

lemma strip_on_delete_idem [simp]: "strip_on_delete (strip_on_delete t) = strip_on_delete t"
  by (induction t rule: strip_on_delete.induct) auto

lemma is_optional_strip [simp]: "is_optional (strip_on_delete t) = is_optional t"
  by (cases t) simp_all

lemma map_filter_all:
  assumes "length (List.map_filter literal_of ts) = length ts"
  shows "ts = map TyLiteral (List.map_filter literal_of ts)"
proof -
  have le: "length (List.map_filter literal_of us) \<le> length us" for us
    by (induction us) (auto simp: List.map_filter_simps split: option.splits)
  show ?thesis
    using assms
  proof (induction ts)
    case (Cons t ts)
    then show ?case
      using le[of ts] by (cases t) (auto simp: List.map_filter_simps)
  qed (simp add: List.map_filter_simps)
qed

lemma literal_set_cases:
  assumes "literal_set t = Some vs"
  shows "(\<exists>v. t = TyLiteral v \<and> vs = [v]) \<or> t = TyUnion (map TyLiteral vs)"
  using assms by (cases t) (auto simp: Let_def split: if_splits dest: map_filter_all)

text \<open>Accepted changes keep a type optional, and never make a required field of an
  optional one.\<close>

lemma accepted_keeps_optional:
  assumes "\<not> is_type_change_rejected old new"
  shows "is_optional old \<longrightarrow> is_optional new"
proof -
  have "is_optional old \<Longrightarrow> \<not> is_widening_of old new"
    by (cases old) (auto simp: literal_widening_def is_widening_of.simps)
  with assms show ?thesis
    by (metis is_optional_strip is_type_change_rejected.simps)
qed

end
