(* ===== verification/Index_Values.thy ===== *)
theory Index_Values
  imports Schema
begin

text \<open>
  Indexed column types and values of \<^verbatim>\<open>rust-client/src/in_memory/query.rs\<close>: which field
  types are indexable, the check of an equality or range value, the order of index
  values, aggregation over a column, and the key of a unique index.
\<close>

datatype pg_type = Text | Number | Boolean | Int64

record indexed_type =
  it_pg :: pg_type
  it_nullable :: bool

datatype ordering = Less | Equal | Greater

definition cmp :: "'a::linorder \<Rightarrow> 'a \<Rightarrow> ordering" where
  "cmp a b = (if a < b then Less else if a = b then Equal else Greater)"

fun reverse :: "ordering \<Rightarrow> ordering" where
  "reverse Less = Greater"
| "reverse Equal = Equal"
| "reverse Greater = Less"

fun is_string_literal :: "field_type \<Rightarrow> bool" where
  "is_string_literal (TyLiteral (JString s)) = True"
| "is_string_literal _ = False"

fun index_column_type :: "field_type \<Rightarrow> indexed_type res" where
  "index_column_type TyString = Inr \<lparr>it_pg = Text, it_nullable = False\<rparr>"
| "index_column_type (TyId t od) = Inr \<lparr>it_pg = Text, it_nullable = False\<rparr>"
| "index_column_type TyNumber = Inr \<lparr>it_pg = Number, it_nullable = False\<rparr>"
| "index_column_type TyBoolean = Inr \<lparr>it_pg = Boolean, it_nullable = False\<rparr>"
| "index_column_type TyInt64 = Inr \<lparr>it_pg = Int64, it_nullable = False\<rparr>"
| "index_column_type (TyLiteral (JString s)) = Inr \<lparr>it_pg = Text, it_nullable = False\<rparr>"
| "index_column_type (TyLiteral v) = Inl SchemaViolation"
| "index_column_type (TyUnion variants) =
     (if list_all is_string_literal variants
      then Inr \<lparr>it_pg = Text, it_nullable = False\<rparr> else Inl SchemaViolation)"
| "index_column_type (TyOptional inner) =
     bindE (index_column_type inner) (\<lambda>it. Inr \<lparr>it_pg = it_pg it, it_nullable = True\<rparr>)"
| "index_column_type _ = Inl SchemaViolation"

definition int64_of :: "json \<Rightarrow> int option" where
  "int64_of v = (case as_str v of None \<Rightarrow> None | Some s \<Rightarrow> parse_i64 s)"

definition coerce_index_value :: "table_def \<Rightarrow> string \<Rightarrow> json \<Rightarrow> json res" where
  "coerce_index_value table field_name v =
     (case map_of (td_fields table) field_name of
        None \<Rightarrow> Inl Internal
      | Some field_ty \<Rightarrow>
          bindE (index_column_type field_ty) (\<lambda>indexed.
            case it_pg indexed of
              Text \<Rightarrow> if is_string v then Inr v else Inl BadRequest
            | Number \<Rightarrow> if is_number v then Inr v else Inl BadRequest
            | Boolean \<Rightarrow> if is_boolean v then Inr v else Inl BadRequest
            | Int64 \<Rightarrow> if int64_of v \<noteq> None then Inr v else Inl BadRequest))"

text \<open>\<^verbatim>\<open>f64::partial_cmp\<close>, undefined on NaN.\<close>

definition f64_partial_cmp :: "f64 \<Rightarrow> f64 \<Rightarrow> ordering option" where
  "f64_partial_cmp a b =
     (if f64_lt a b then Some Less
      else if f64_lt b a then Some Greater
      else if f64_eq a b then Some Equal else None)"

definition I64_MIN :: int where "I64_MIN = - (2 ^ 63)"

definition compare_index_values :: "json \<Rightarrow> json \<Rightarrow> pg_type \<Rightarrow> ordering" where
  "compare_index_values a b pg =
     (if is_null a \<and> is_null b then Equal
      else if is_null a then Greater
      else if is_null b then Less
      else if pg = Int64
      then cmp (case int64_of a of None \<Rightarrow> I64_MIN | Some n \<Rightarrow> n)
               (case int64_of b of None \<Rightarrow> I64_MIN | Some n \<Rightarrow> n)
      else (case (a, b) of
              (JNumber an, JNumber bn) \<Rightarrow>
                (case f64_partial_cmp (as_f64 an) (as_f64 bn) of None \<Rightarrow> Equal | Some r \<Rightarrow> r)
            | (JString s, JString t) \<Rightarrow> cmp s t
            | (JBool x, JBool y) \<Rightarrow> cmp x y
            | _ \<Rightarrow> Equal))"

datatype order = Asc | Desc

definition dir_order :: "ordering \<Rightarrow> order \<Rightarrow> ordering" where
  "dir_order c dir = (case dir of Asc \<Rightarrow> c | Desc \<Rightarrow> reverse c)"

fun collect_index_key :: "string list \<Rightarrow> json \<Rightarrow> json list option" where
  "collect_index_key [] doc = Some []"
| "collect_index_key (field # rest) doc =
     (case json_get doc field of
        Some v \<Rightarrow>
          if is_null v then None
          else (case collect_index_key rest doc of None \<Rightarrow> None | Some key \<Rightarrow> Some (v # key))
      | None \<Rightarrow> None)"

section \<open>Aggregation over a column\<close>

datatype aggregate_op = Sum | Avg | MinOp | MaxOp | CountOp

definition numeric_value :: "json \<Rightarrow> pg_type \<Rightarrow> f64 option" where
  "numeric_value v pg =
     (case pg of
        Int64 \<Rightarrow> (case as_str v of None \<Rightarrow> None | Some s \<Rightarrow> parse_f64 s)
      | _ \<Rightarrow> json_as_f64 v)"

definition f64_sum :: "f64 list \<Rightarrow> f64" where
  "f64_sum xs = foldl f64_add (Fin 0) xs"

definition f64_aggregate :: "aggregate_op \<Rightarrow> json list \<Rightarrow> pg_type \<Rightarrow> json" where
  "f64_aggregate op values pg =
     (let sum = f64_sum (List.map_filter (\<lambda>v. numeric_value v pg) values);
          result = (if op = Avg then f64_div sum (i64_as_f64 (int (length values))) else sum)
      in case number_from_f64 result of None \<Rightarrow> JNull | Some n \<Rightarrow> JNumber n)"

definition i128_ok :: "int \<Rightarrow> bool" where
  "i128_ok n \<longleftrightarrow> - (2 ^ 127) \<le> n \<and> n < 2 ^ 127"

fun int64_total :: "int \<Rightarrow> json list \<Rightarrow> int option" where
  "int64_total acc [] = Some acc"
| "int64_total acc (v # vs) =
     (case int64_of v of
        None \<Rightarrow> None
      | Some n \<Rightarrow> if i128_ok (acc + n) then int64_total (acc + n) vs else None)"

definition pick_best :: "bool \<Rightarrow> pg_type \<Rightarrow> json \<Rightarrow> json \<Rightarrow> json" where
  "pick_best want_less pg best v =
     (let c = compare_index_values v best pg
      in if (want_less \<and> c = Less) \<or> (\<not> want_less \<and> c = Greater) then v else best)"

text \<open>\<open>None\<close> is the panic of \<^verbatim>\<open>values[0]\<close> on an empty slice, which no caller reaches.\<close>

fun apply_aggregate :: "aggregate_op \<Rightarrow> json list \<Rightarrow> pg_type \<Rightarrow> json option" where
  "apply_aggregate Sum values pg =
     (if pg = Int64
      then (case int64_total 0 values of
              Some acc \<Rightarrow> Some (JString (int_to_string acc))
            | None \<Rightarrow> Some (f64_aggregate Sum values pg))
      else Some (f64_aggregate Sum values pg))"
| "apply_aggregate Avg values pg = Some (f64_aggregate Avg values pg)"
| "apply_aggregate MinOp [] pg = None"
| "apply_aggregate MinOp (v # vs) pg = Some (foldl (pick_best True pg) v vs)"
| "apply_aggregate MaxOp [] pg = None"
| "apply_aggregate MaxOp (v # vs) pg = Some (foldl (pick_best False pg) v vs)"
| "apply_aggregate CountOp values pg = Some (json_of_int (int (length values)))"

section \<open>The order of a column\<close>

text \<open>
  A three-way comparison that orders a carrier totally.  The engine compares the
  values of one column only; values of different kinds would all compare equal.
\<close>

locale three_way =
  fixes c :: "'a \<Rightarrow> 'a \<Rightarrow> ordering" and carrier :: "'a set"
  assumes c_rev: "a \<in> carrier \<Longrightarrow> b \<in> carrier \<Longrightarrow> c b a = reverse (c a b)"
    and c_trans: "a \<in> carrier \<Longrightarrow> b \<in> carrier \<Longrightarrow> d \<in> carrier \<Longrightarrow>
      c a b \<noteq> Greater \<Longrightarrow> c b d \<noteq> Greater \<Longrightarrow> c a d \<noteq> Greater"
begin

lemma c_refl: "a \<in> carrier \<Longrightarrow> c a a = Equal"
  using c_rev[of a a] by (metis ordering.exhaust ordering.distinct(3) reverse.simps)

lemma c_total: "a \<in> carrier \<Longrightarrow> b \<in> carrier \<Longrightarrow> c a b \<noteq> Greater \<or> c b a \<noteq> Greater"
  by (metis c_rev ordering.distinct(3) reverse.simps(3))

lemma foldl_min:
  assumes "v \<in> carrier" "set vs \<subseteq> carrier"
  shows "foldl (\<lambda>b w. if c w b = Less then w else b) v vs \<in> insert v (set vs)
    \<and> (\<forall>w\<in>insert v (set vs). c (foldl (\<lambda>b w. if c w b = Less then w else b) v vs) w \<noteq> Greater)"
  using assms
proof (induction vs arbitrary: v)
  case Nil
  then show ?case by (simp add: c_refl)
next
  case (Cons w vs)
  define b where "b = (if c w v = Less then w else v)"
  have "c v w = reverse (c w v)"
    using Cons.prems by (intro c_rev) auto
  then have b: "b \<in> carrier" "c b w \<noteq> Greater" "c b v \<noteq> Greater"
    using Cons.prems by (cases "c w v"; simp add: b_def c_refl)+
  let ?m = "foldl (\<lambda>b w. if c w b = Less then w else b) b vs"
  have ih: "?m \<in> insert b (set vs)" "\<And>x. x \<in> insert b (set vs) \<Longrightarrow> c ?m x \<noteq> Greater"
    using Cons.IH[of b] Cons.prems b by auto
  have m: "?m \<in> carrier"
    using ih(1) b(1) Cons.prems by auto
  have "c ?m x \<noteq> Greater" if "x \<in> insert v (set (w # vs))" for x
  proof (cases "x \<in> set vs")
    case False
    then have "c b x \<noteq> Greater" "x \<in> carrier"
      using that b Cons.prems by auto
    then show ?thesis
      using c_trans[OF m b(1)] ih(2)[of b] by blast
  qed (use ih(2) in blast)
  moreover have "?m \<in> insert v (set (w # vs))"
    using ih(1) by (auto simp: b_def split: if_splits)
  ultimately show ?case
    by (simp add: b_def)
qed

end

definition column_value :: "pg_type \<Rightarrow> json \<Rightarrow> bool" where
  "column_value pg v \<longleftrightarrow>
     (case pg of
        Text \<Rightarrow> is_string v
      | Number \<Rightarrow> is_number v
      | Boolean \<Rightarrow> is_boolean v
      | Int64 \<Rightarrow> int64_of v \<noteq> None)"

lemma cmp_simps [simp]:
  "cmp a b = Less \<longleftrightarrow> a < b" "cmp a b = Equal \<longleftrightarrow> a = b" "cmp a b = Greater \<longleftrightarrow> b < a"
  by (auto simp: cmp_def)

lemma reverse_cmp: "cmp b a = reverse (cmp a b)"
  by (auto simp: cmp_def)

lemma cmp_trans: "cmp a b \<noteq> Greater \<Longrightarrow> cmp b d \<noteq> Greater \<Longrightarrow> cmp a d \<noteq> Greater"
  by (auto simp: not_less)

definition f64_cmp :: "f64 \<Rightarrow> f64 \<Rightarrow> ordering" where
  "f64_cmp a b = (case f64_partial_cmp a b of None \<Rightarrow> Equal | Some r \<Rightarrow> r)"

lemma f64_cmp_rev: "a \<noteq> NaN \<Longrightarrow> b \<noteq> NaN \<Longrightarrow> f64_cmp b a = reverse (f64_cmp a b)"
  by (cases a; cases b) (auto simp: f64_cmp_def f64_partial_cmp_def f64_eq_def)

lemma f64_cmp_trans:
  "a \<noteq> NaN \<Longrightarrow> b \<noteq> NaN \<Longrightarrow> d \<noteq> NaN \<Longrightarrow>
   f64_cmp a b \<noteq> Greater \<Longrightarrow> f64_cmp b d \<noteq> Greater \<Longrightarrow> f64_cmp a d \<noteq> Greater"
  by (cases a; cases b; cases d)
     (auto simp: f64_cmp_def f64_partial_cmp_def f64_eq_def split: if_splits)

lemma round_f64_not_NaN [simp]: "round_f64 r \<noteq> NaN" "NaN \<noteq> round_f64 r"
  by (simp_all add: round_f64_def Let_def)

lemma as_f64_not_NaN [simp]: "as_f64 n \<noteq> NaN"
  by (cases n) simp_all

text \<open>Null or a value of the column: what an indexed field of a valid document reads as.\<close>

definition column_carrier :: "pg_type \<Rightarrow> json set" where
  "column_carrier pg = {v. is_null v \<or> column_value pg v}"

lemma column_carrier_cases:
  assumes "v \<in> column_carrier pg"
  obtains "v = JNull"
  | s where "pg = Text" "v = JString s"
  | n where "pg = Number" "v = JNumber n"
  | b where "pg = Boolean" "v = JBool b"
  | s n where "pg = Int64" "v = JString s" "int64_of v = Some n"
  using assms
  by (cases v; cases pg) (auto simp: column_carrier_def column_value_def int64_of_def)

lemma compare_index_values_eqs:
  "compare_index_values JNull JNull pg = Equal"
  "\<not> is_null v \<Longrightarrow> compare_index_values JNull v pg = Greater"
  "\<not> is_null v \<Longrightarrow> compare_index_values v JNull pg = Less"
  "compare_index_values (JString s) (JString t) Text = cmp s t"
  "compare_index_values (JBool a) (JBool b) Boolean = cmp a b"
  "compare_index_values (JNumber a') (JNumber b') Number = f64_cmp (as_f64 a') (as_f64 b')"
  "int64_of v = Some i \<Longrightarrow> int64_of w = Some j \<Longrightarrow> compare_index_values v w Int64 = cmp i j"
  by (auto simp: compare_index_values_def f64_cmp_def int64_of_def is_null_iff)

interpretation column: three_way "\<lambda>a b. compare_index_values a b pg" "column_carrier pg"
proof unfold_locales
  fix a b assume "a \<in> column_carrier pg" "b \<in> column_carrier pg"
  then show "compare_index_values b a pg = reverse (compare_index_values a b pg)"
    by (elim column_carrier_cases; simp add: compare_index_values_eqs reverse_cmp[symmetric]
        f64_cmp_rev[OF as_f64_not_NaN as_f64_not_NaN, symmetric])
next
  fix a b d assume "a \<in> column_carrier pg" "b \<in> column_carrier pg" "d \<in> column_carrier pg"
    "compare_index_values a b pg \<noteq> Greater" "compare_index_values b d pg \<noteq> Greater"
  then show "compare_index_values a d pg \<noteq> Greater"
    by (elim column_carrier_cases; simp add: compare_index_values_eqs;
        (blast intro: order_trans dest: f64_cmp_trans[OF as_f64_not_NaN as_f64_not_NaN as_f64_not_NaN])?)
qed

end
