(* ===== verification/Validate.thy ===== *)
theory Validate
  imports Index_Values
begin

text \<open>
  \<^verbatim>\<open>rust-client/src/in_memory/validate.rs\<close>: the value and document validators, field
  constraints, the stamps of the write path that need no expression evaluation, and
  the two-phase filter (validation against the table, then evaluation per row).
\<close>

section \<open>Values\<close>

definition is_hex_digit :: "char \<Rightarrow> bool" where
  "is_hex_digit c \<longleftrightarrow> is_digit c \<or> (97 \<le> (of_char c :: nat) \<and> (of_char c :: nat) \<le> 102)"

definition is_hex_id :: "json \<Rightarrow> bool" where
  "is_hex_id v =
     (case as_str v of
        Some s \<Rightarrow> length s = 32 \<and> list_all is_hex_digit s
      | None \<Rightarrow> False)"

definition is_int64_string :: "json \<Rightarrow> bool" where
  "is_int64_string v =
     (case as_str v of
        None \<Rightarrow> False
      | Some s \<Rightarrow>
          let digits = (case s of c # cs \<Rightarrow> if c = CHR ''-'' then cs else s | [] \<Rightarrow> s)
          in digits \<noteq> [] \<and> list_all is_digit digits \<and> parse_i64 s \<noteq> None)"

definition is_base64_string :: "json \<Rightarrow> bool" where
  "is_base64_string v =
     (case as_str v of
        None \<Rightarrow> False
      | Some s \<Rightarrow>
          length s mod 4 = 0 \<and>
          (let eq_count = length (takeWhile (\<lambda>b. b = CHR ''='') (rev s))
           in eq_count \<le> 2
              \<and> list_all (\<lambda>b. is_alpha b \<or> is_digit b \<or> b = CHR ''+'' \<or> b = CHR ''/'')
                  (take (length s - eq_count) s)))"

fun validate_value :: "field_type \<Rightarrow> json \<Rightarrow> bool" where
  "validate_value TyString v = is_string v"
| "validate_value TyNumber v = is_number v"
| "validate_value TyBoolean v = is_boolean v"
| "validate_value TyNull v = is_null v"
| "validate_value (TyId table od) v = is_hex_id v"
| "validate_value (TyLiteral lit) v = (v = lit)"
| "validate_value (TyOptional inner) v = (is_null v \<or> validate_value inner v)"
| "validate_value (TyUnion variants) v = (\<exists>t\<in>set variants. validate_value t v)"
| "validate_value (TyArray element) v =
     (case as_array v of None \<Rightarrow> False | Some arr \<Rightarrow> \<forall>item\<in>set arr. validate_value element item)"
| "validate_value (TyObject fs) v =
     (case as_object v of
        None \<Rightarrow> False
      | Some m \<Rightarrow>
          (\<forall>key\<in>fst ` set m. map_of fs key \<noteq> None)
          \<and> (\<forall>p\<in>set fs.
                case map_of m (fst p) of
                  Some w \<Rightarrow> validate_value (snd p) w
                | None \<Rightarrow> is_optional (snd p)))"
| "validate_value TyInt64 v = is_int64_string v"
| "validate_value TyBytes v = is_base64_string v"
| "validate_value TyAny v = True"
| "validate_value (TyRecord t) v =
     (case as_object v of None \<Rightarrow> False | Some m \<Rightarrow> \<forall>w\<in>snd ` set m. validate_value t w)"
| "validate_value (TyVector dimensions) v =
     (case as_array v of
        None \<Rightarrow> False
      | Some arr \<Rightarrow>
          length arr = dimensions
          \<and> list_all (\<lambda>w. case json_as_f64 w of Some f \<Rightarrow> is_finite f | None \<Rightarrow> False) arr)"

section \<open>Constraints\<close>

fun strip_optional :: "field_type \<Rightarrow> field_type" where
  "strip_optional (TyOptional inner) = strip_optional inner"
| "strip_optional t = t"

definition int64_bound :: "num \<Rightarrow> int" where
  "int64_bound n = (case as_i64 n of Some i \<Rightarrow> i | None \<Rightarrow> f64_as_i64 (as_f64 n))"

definition violates :: "('a \<Rightarrow> bool) \<Rightarrow> 'a option \<Rightarrow> bool" where
  "violates bad b = (case b of None \<Rightarrow> False | Some x \<Rightarrow> bad x)"

definition check_constraints_for_field ::
  "ext \<Rightarrow> table_def \<Rightarrow> string \<Rightarrow> json \<Rightarrow> unit res" where
  "check_constraints_for_field x table field_name v =
     (case map_of (td_constraints table) field_name of
        None \<Rightarrow> Inr ()
      | Some fc \<Rightarrow>
          if is_null v then Inr ()
          else
            (case map_option strip_optional (map_of (td_fields table) field_name) of
               Some TyNumber \<Rightarrow>
                 let n = (case json_as_f64 v of Some f \<Rightarrow> f | None \<Rightarrow> NaN)
                 in if violates (\<lambda>m. f64_lt n (as_f64 m)) (fc_min fc) then Inl SchemaViolation
                    else if violates (\<lambda>m. f64_lt (as_f64 m) n) (fc_max fc) then Inl SchemaViolation
                    else Inr ()
             | Some TyInt64 \<Rightarrow>
                 (case int64_of v of
                    None \<Rightarrow> Inr ()
                  | Some n \<Rightarrow>
                      if violates (\<lambda>m. n < int64_bound m) (fc_min fc) then Inl SchemaViolation
                      else if violates (\<lambda>m. int64_bound m < n) (fc_max fc) then Inl SchemaViolation
                      else Inr ())
             | Some TyString \<Rightarrow>
                 let s = (case as_str v of Some s \<Rightarrow> s | None \<Rightarrow> []); len = chars_count s
                 in if violates (\<lambda>lo. len < lo) (fc_min_length fc) then Inl SchemaViolation
                    else if violates (\<lambda>hi. hi < len) (fc_max_length fc) then Inl SchemaViolation
                    else if violates (\<lambda>p. regex_match x p s \<noteq> Some True) (fc_pattern fc)
                    then Inl SchemaViolation
                    else Inr ()
             | _ \<Rightarrow> Inr ()))"

definition validate_field :: "ext \<Rightarrow> table_def \<Rightarrow> doc \<Rightarrow> string \<times> field_type \<Rightarrow> unit res" where
  "validate_field x table m p =
     (case map_of m (fst p) of
        Some v \<Rightarrow>
          if \<not> validate_value (snd p) v then Inl SchemaViolation
          else check_constraints_for_field x table (fst p) v
      | None \<Rightarrow> if is_optional (snd p) then Inr () else Inl SchemaViolation)"

definition validate_doc :: "ext \<Rightarrow> table_def \<Rightarrow> json \<Rightarrow> unit res" where
  "validate_doc x table doc =
     (case as_object doc of
        None \<Rightarrow> Inl SchemaViolation
      | Some m \<Rightarrow>
          bindE (eachE (\<lambda>key.
              if starts_with ''_'' key then Inl SchemaViolation
              else if map_of (td_fields table) key = None then Inl SchemaViolation
              else Inr ()) (map fst m))
            (\<lambda>_. eachE (validate_field x table m) (td_fields table)))"

definition check_bound :: "bool \<Rightarrow> bool \<Rightarrow> num option \<Rightarrow> unit res" where
  "check_bound bounds_ok int64_field b =
     (case b of
        None \<Rightarrow> Inr ()
      | Some n \<Rightarrow>
          if \<not> bounds_ok then Inl SchemaViolation
          else if int64_field \<and> is_float n then Inl SchemaViolation
          else Inr ())"

definition validate_constraints_entry :: "ext \<Rightarrow> field_type \<Rightarrow> field_constraints \<Rightarrow> unit res" where
  "validate_constraints_entry x field_type fc =
     (let base = strip_optional field_type;
          bounds_ok = (base = TyNumber \<or> base = TyInt64);
          string_ok = (base = TyString)
      in bindE (check_bound bounds_ok (base = TyInt64) (fc_min fc)) (\<lambda>_.
         bindE (check_bound bounds_ok (base = TyInt64) (fc_max fc)) (\<lambda>_.
         bindE (ensure (\<not> (fc_min_length fc \<noteq> None \<and> \<not> string_ok)) SchemaViolation) (\<lambda>_.
         bindE (ensure (\<not> (fc_max_length fc \<noteq> None \<and> \<not> string_ok)) SchemaViolation) (\<lambda>_.
         bindE (ensure (\<not> (fc_pattern fc \<noteq> None \<and> \<not> string_ok)) SchemaViolation) (\<lambda>_.
         bindE (case (fc_min fc, fc_max fc) of
                  (Some lo, Some hi) \<Rightarrow> ensure (\<not> f64_lt (as_f64 hi) (as_f64 lo)) SchemaViolation
                | _ \<Rightarrow> Inr ()) (\<lambda>_.
         bindE (case (fc_min_length fc, fc_max_length fc) of
                  (Some lo, Some hi) \<Rightarrow> ensure (\<not> hi < lo) SchemaViolation
                | _ \<Rightarrow> Inr ()) (\<lambda>_.
         case fc_pattern fc of
           Some p \<Rightarrow> ensure (regex_match x p [] \<noteq> None) SchemaViolation
         | None \<Rightarrow> Inr ()))))))))"

definition validate_constraints :: "ext \<Rightarrow> table_def \<Rightarrow> unit res" where
  "validate_constraints x table =
     eachE (\<lambda>(field, fc).
        case map_of (td_fields table) field of
          None \<Rightarrow> Inl SchemaViolation
        | Some fty \<Rightarrow> validate_constraints_entry x fty fc)
       (td_constraints table)"

section \<open>Stamps\<close>

definition unset_optional :: "table_def \<Rightarrow> string \<Rightarrow> json \<Rightarrow> bool" where
  "unset_optional table key v \<longleftrightarrow>
     is_null v
     \<and> (case map_of (td_fields table) key of
          Some (TyOptional inner) \<Rightarrow> \<not> validate_value inner v
        | _ \<Rightarrow> False)"

definition strip_unset_optionals :: "table_def \<Rightarrow> doc \<Rightarrow> doc" where
  "strip_unset_optionals table m = filter (\<lambda>(key, v). \<not> unset_optional table key v) m"

definition stamp_ttl_default :: "table_def \<Rightarrow> doc \<Rightarrow> int \<Rightarrow> doc" where
  "stamp_ttl_default table doc now =
     (case td_ttl table of
        Some ttl \<Rightarrow>
          (case ttl_default_duration_ms ttl of
             Some d \<Rightarrow>
               if map_of doc (ttl_field ttl) = None
               then bt_insert (ttl_field ttl) (json_of_int (wrap64 (now + d))) doc
               else doc
           | None \<Rightarrow> doc)
      | None \<Rightarrow> doc)"

definition stamp_updated_at :: "table_def \<Rightarrow> doc \<Rightarrow> int \<Rightarrow> doc" where
  "stamp_updated_at table doc now =
     (case td_updated_at_field table of
        Some field \<Rightarrow>
          bt_insert field
            (case map_of (td_fields table) field of
               Some TyInt64 \<Rightarrow> JString (int_to_string now)
             | _ \<Rightarrow> json_of_int now) doc
      | None \<Rightarrow> doc)"

definition apply_defaults :: "table_def \<Rightarrow> doc \<Rightarrow> doc" where
  "apply_defaults table doc =
     fold (\<lambda>(field, v) out. if map_of out field = None then bt_insert field v out else out)
       (td_defaults table) doc"

section \<open>Type changes a push accepts keep stored values valid\<close>

lemma validate_strip_on_delete [simp]: "validate_value (strip_on_delete t) v = validate_value t v"
proof (induction t v rule: validate_value.induct)
  case (10 fs v)
  then show ?case
    by (auto simp: map_of_strip_on_delete split: option.splits)
qed (auto split: option.splits)

lemma literal_set_validate: "literal_set t = Some vs \<Longrightarrow> validate_value t v \<longleftrightarrow> v \<in> set vs"
  by (drule literal_set_cases) (elim disjE conjE; auto)

lemma object_shape_widening_valid:
  assumes "bt_ok old_fs" "bt_ok new_fs"
    and old: "\<And>p. p \<in> set old_fs \<Longrightarrow> \<exists>nt. map_of new_fs (fst p) = Some nt
          \<and> (is_optional (snd p) \<longrightarrow> is_optional nt)
          \<and> (\<forall>v. validate_value (snd p) v \<longrightarrow> validate_value nt v)"
    and new: "\<And>p. p \<in> set new_fs \<Longrightarrow> map_of old_fs (fst p) \<noteq> None \<or> is_optional (snd p)"
    and v: "validate_value (TyObject old_fs) v"
  shows "validate_value (TyObject new_fs) v"
proof -
  obtain m where m: "as_object v = Some m"
    and keys: "\<And>k. k \<in> fst ` set m \<Longrightarrow> map_of old_fs k \<noteq> None"
    and vals: "\<And>p. p \<in> set old_fs \<Longrightarrow>
        (case map_of m (fst p) of Some w \<Rightarrow> validate_value (snd p) w | None \<Rightarrow> is_optional (snd p))"
    using v by (auto split: option.splits)
  have "map_of new_fs k \<noteq> None" if k: "k \<in> fst ` set m" for k
  proof -
    obtain ot where "map_of old_fs k = Some ot"
      using keys[OF k] by auto
    then show ?thesis
      using old[OF map_of_SomeD] by fastforce
  qed
  moreover have "case map_of m (fst p) of Some w \<Rightarrow> validate_value (snd p) w | None \<Rightarrow> is_optional (snd p)"
    if p: "p \<in> set new_fs" for p
  proof (cases "map_of old_fs (fst p)")
    case None
    then have "fst p \<notin> fst ` set m" "is_optional (snd p)"
      using keys[of "fst p"] new[OF p] by blast+
    then show ?thesis
      by (simp add: map_of_eq_None_iff[THEN iffD2])
  next
    case (Some ot)
    have np: "map_of new_fs (fst p) = Some (snd p)"
      using p bt_ok_distinct[OF assms(2)] by simp
    have "(fst p, ot) \<in> set old_fs"
      using Some by (rule map_of_SomeD)
    from old[OF this] vals[OF this] np show ?thesis
      by (auto split: option.splits)
  qed
  ultimately show ?thesis
    using m by (auto split: option.splits)
qed

lemma widening_valid:
  "is_widening_of old new \<Longrightarrow> ft_ok old \<Longrightarrow> ft_ok new \<Longrightarrow> validate_value old v \<Longrightarrow> validate_value new v"
  "is_object_shape_widening old new \<Longrightarrow> ft_ok old \<Longrightarrow> ft_ok new \<Longrightarrow> validate_value old v \<Longrightarrow> validate_value new v"
  "\<not> is_type_change_rejected old new \<Longrightarrow> ft_ok old \<Longrightarrow> ft_ok new \<Longrightarrow> validate_value old v \<Longrightarrow> validate_value new v"
proof (induction old new and old new and old new arbitrary: v and v and v
    rule: is_widening_of_is_object_shape_widening_is_type_change_rejected.induct)
  case (1 old new)
  show ?case
  proof (cases "literal_widening old new")
    case True
    then show ?thesis
      using 1(5) by (auto simp: literal_widening_def literal_set_validate list_all_iff split: option.splits)
  next
    case False
    then show ?thesis
      using 1 by (simp add: is_widening_of.simps)
  qed
next
  case (3 old_fs new_fs)
  show ?case
  proof (rule object_shape_widening_valid[OF _ _ _ _ 3(5)])
    fix p assume p: "p \<in> set old_fs"
    with 3(2) obtain nt where nt: "map_of new_fs (fst p) = Some nt" "\<not> is_type_change_rejected (snd p) nt"
      by (auto split: option.splits)
    have "ft_ok (snd p)" "ft_ok nt"
      using 3(3,4) p nt(1) by (auto dest!: map_of_SomeD)
    then show "\<exists>nt. map_of new_fs (fst p) = Some nt \<and> (is_optional (snd p) \<longrightarrow> is_optional nt)
        \<and> (\<forall>v. validate_value (snd p) v \<longrightarrow> validate_value nt v)"
      using nt 3(1)[OF p nt(1) nt(2)] accepted_keeps_optional[OF nt(2)] by blast
  qed (use 3 in auto)
next
  case (5 old new)
  show ?case
  proof (cases "strip_on_delete new = strip_on_delete old")
    case True
    then show ?thesis
      using 5(5) by (metis validate_strip_on_delete)
  next
    case False
    then show ?thesis
      using 5 by (simp add: is_type_change_rejected.simps)
  qed
qed (auto split: option.splits)

text \<open>
  C7: a field type change that a schema push accepts never invalidates a stored value:
  whatever validates under the old type validates under the new one, at every nesting
  depth, with literal unions widened, optional object fields added and delete actions
  changed.
\<close>

theorem accepted_type_change_sound:
  assumes "\<not> is_type_change_rejected old new" "ft_ok old" "ft_ok new" "validate_value old v"
  shows "validate_value new v"
  using assms by (rule widening_valid(3))

theorem accepted_type_change_sound_witness:
  "validate_value
     (TyArray (TyObject [(''a'', TyUnion [TyLiteral (JString ''x''), TyLiteral (JString ''y'')]),
                         (''b'', TyOptional TyNumber)]))
     (JArray [JObject [(''a'', JString ''x'')]])"
  by (rule accepted_type_change_sound[where
        old = "TyArray (TyObject [(''a'', TyUnion [TyLiteral (JString ''x'')])])"])
     (simp_all add: is_type_change_rejected.simps is_widening_of.simps literal_widening_def
        bt_ok_def List.map_filter_simps Let_def less_list_code)

end
