(* ===== verification/Filters.thy ===== *)
theory Filters
  imports Validate
begin

text \<open>
  The filter half of \<^verbatim>\<open>rust-client/src/in_memory/validate.rs\<close>: validation of a filter
  against the table it runs on, and evaluation over one document.
\<close>

section \<open>Validation\<close>

datatype filter_op = OpEq | OpNeq | OpGt | OpGte | OpLt | OpLte

datatype value_kind = KString | KNumber | KBoolean

definition MAX_FILTER_DEPTH :: nat where "MAX_FILTER_DEPTH = 32"
definition MAX_IN_VALUES :: nat where "MAX_IN_VALUES = 1000"

definition leaf_field_type :: "string \<Rightarrow> table_def \<Rightarrow> field_type res" where
  "leaf_field_type field table =
     (case map_of (td_fields table) field of None \<Rightarrow> Inl BadRequest | Some t \<Rightarrow> Inr t)"

fun is_scalar :: "json \<Rightarrow> bool" where
  "is_scalar (JString s) = True"
| "is_scalar (JNumber n) = True"
| "is_scalar (JBool b) = True"
| "is_scalar _ = False"

definition check_leaf_value :: "string \<Rightarrow> json \<Rightarrow> table_def \<Rightarrow> unit res" where
  "check_leaf_value field v table =
     bindE (leaf_field_type field table) (\<lambda>_. ensure (is_scalar v) BadRequest)"

definition strip_one_optional :: "field_type \<Rightarrow> field_type" where
  "strip_one_optional ty = (case ty of TyOptional inner \<Rightarrow> inner | _ \<Rightarrow> ty)"

definition validate_jsonb_comparison_value :: "field_type \<Rightarrow> json \<Rightarrow> unit res" where
  "validate_jsonb_comparison_value ty v =
     ensure
       (case strip_one_optional ty of
          TyString \<Rightarrow> is_string v
        | TyId t od \<Rightarrow> is_string v
        | TyBytes \<Rightarrow> is_string v
        | TyNumber \<Rightarrow> is_number v
        | TyInt64 \<Rightarrow> is_number v
        | TyBoolean \<Rightarrow> is_boolean v
        | _ \<Rightarrow> is_scalar v) BadRequest"

definition check_leaf_kind :: "string \<Rightarrow> json \<Rightarrow> table_def \<Rightarrow> unit res" where
  "check_leaf_kind field v table =
     bindE (leaf_field_type field table) (\<lambda>field_ty.
       if list_ex (\<lambda>idx. list_ex (\<lambda>f. f = field) (ix_fields idx)) (td_indexes table)
       then bindE (coerce_index_value table field v) (\<lambda>_. Inr ())
       else validate_jsonb_comparison_value field_ty v)"

definition check_leaf :: "string \<Rightarrow> json \<Rightarrow> table_def \<Rightarrow> unit res" where
  "check_leaf field v table =
     bindE (check_leaf_value field v table) (\<lambda>_. check_leaf_kind field v table)"

fun in_value_kind :: "json \<Rightarrow> value_kind" where
  "in_value_kind (JString s) = KString"
| "in_value_kind (JNumber n) = KNumber"
| "in_value_kind _ = KBoolean"

fun validate_filter_expr_fields_at ::
  "filter_expr \<Rightarrow> table_def \<Rightarrow> bool \<Rightarrow> nat \<Rightarrow> unit res" where
  "validate_filter_expr_fields_at e table allow_relative_time depth =
     (if MAX_FILTER_DEPTH < depth then Inl BadRequest
      else
        (case e of
           FAnd es \<Rightarrow>
             if es = [] then Inl BadRequest
             else eachE (\<lambda>e. validate_filter_expr_fields_at e table allow_relative_time (depth + 1)) es
         | FOr es \<Rightarrow>
             if es = [] then Inl BadRequest
             else eachE (\<lambda>e. validate_filter_expr_fields_at e table allow_relative_time (depth + 1)) es
         | FIn field values \<Rightarrow>
             if values = [] then Inl BadRequest
             else if MAX_IN_VALUES < length values then Inl BadRequest
             else
               bindE (eachE (\<lambda>v. check_leaf_value field v table) values) (\<lambda>_.
               bindE (eachE (\<lambda>v. ensure (in_value_kind v = in_value_kind (hd values)) BadRequest)
                        (tl values)) (\<lambda>_.
               eachE (\<lambda>v. check_leaf_kind field v table) values))
         | FEq field v \<Rightarrow> check_leaf field v table
         | FNeq field v \<Rightarrow> check_leaf field v table
         | FGt field v \<Rightarrow> check_leaf field v table
         | FGte field v \<Rightarrow> check_leaf field v table
         | FLt field v \<Rightarrow> check_leaf field v table
         | FLte field v \<Rightarrow> check_leaf field v table
         | FContains field v \<Rightarrow> check_leaf field v table
         | FOlderThan field ms \<Rightarrow>
             if \<not> allow_relative_time then Inl BadRequest
             else if ms < 0 then Inl BadRequest
             else bindE (leaf_field_type field table) (\<lambda>fty.
                    ensure (strip_one_optional fty = TyNumber \<or> strip_one_optional fty = TyInt64)
                      BadRequest)
         | FNot e \<Rightarrow> validate_filter_expr_fields_at e table allow_relative_time (depth + 1)
         | FExists field \<Rightarrow> bindE (leaf_field_type field table) (\<lambda>_. Inr ())))"

declare validate_filter_expr_fields_at.simps [simp del]

definition validate_filter :: "filter_expr \<Rightarrow> table_def \<Rightarrow> unit res" where
  "validate_filter e table = validate_filter_expr_fields_at e table False 1"

definition validate_by_query_filter :: "filter_expr \<Rightarrow> table_def \<Rightarrow> unit res" where
  "validate_by_query_filter e table = validate_filter_expr_fields_at e table True 1"

section \<open>Evaluation\<close>

definition is_int64_field :: "field_type option \<Rightarrow> bool" where
  "is_int64_field ty =
     (case ty of
        Some TyInt64 \<Rightarrow> True
      | Some (TyOptional inner) \<Rightarrow> inner = TyInt64
      | _ \<Rightarrow> False)"

definition SAFE_FLOAT :: rat where "SAFE_FLOAT = 9007199254740992"

text \<open>\<^verbatim>\<open>Value::to_string\<close> and \<^verbatim>\<open>Number::to_string\<close> are \<^verbatim>\<open>serde_json\<close>'s text form.\<close>

definition doc_to_text :: "ext \<Rightarrow> json \<Rightarrow> string" where
  "doc_to_text x v =
     (case v of
        JString s \<Rightarrow> s
      | JNumber n \<Rightarrow>
          (case as_i64 n of
             Some i \<Rightarrow> int_to_string i
           | None \<Rightarrow>
               (case as_u64 n of
                  Some u \<Rightarrow> nat_to_string u
                | None \<Rightarrow>
                    (case as_f64 n of
                       Fin r \<Rightarrow>
                         if of_int (trunc_rat r) = r \<and> \<bar>r\<bar> \<le> SAFE_FLOAT
                         then int_to_string (f64_as_i64 (Fin r)) else json_text x v
                     | _ \<Rightarrow> json_text x v)))
      | JBool b \<Rightarrow> if b then ''true'' else ''false''
      | _ \<Rightarrow> json_text x v)"

definition finite_opt :: "f64 option \<Rightarrow> f64 option" where
  "finite_opt r = (case r of Some f \<Rightarrow> if is_finite f then Some f else None | None \<Rightarrow> None)"

definition doc_to_number :: "json \<Rightarrow> f64 option" where
  "doc_to_number v =
     (case v of
        JNumber n \<Rightarrow> finite_opt (Some (as_f64 n))
      | JString s \<Rightarrow>
          let trimmed = trim s
          in if trimmed = [] then None else finite_opt (parse_f64 trimmed)
      | _ \<Rightarrow> None)"

text \<open>\<^verbatim>\<open>compare_values\<close> over a type with \<^verbatim>\<open>PartialOrd\<close>: its equality and strict order.\<close>

definition compare_values :: "('a \<Rightarrow> 'a \<Rightarrow> bool) \<Rightarrow> ('a \<Rightarrow> 'a \<Rightarrow> bool) \<Rightarrow> filter_op \<Rightarrow> 'a \<Rightarrow> 'a \<Rightarrow> bool" where
  "compare_values eq lt op lhs rhs =
     (case op of
        OpEq \<Rightarrow> eq lhs rhs
      | OpNeq \<Rightarrow> \<not> eq lhs rhs
      | OpGt \<Rightarrow> lt rhs lhs
      | OpGte \<Rightarrow> lt rhs lhs \<or> eq lhs rhs
      | OpLt \<Rightarrow> lt lhs rhs
      | OpLte \<Rightarrow> lt lhs rhs \<or> eq lhs rhs)"

definition compare_leaf ::
  "ext \<Rightarrow> filter_op \<Rightarrow> string \<Rightarrow> json \<Rightarrow> doc \<Rightarrow> (string \<times> field_type) list \<Rightarrow> bool" where
  "compare_leaf x op field filter_value doc fs =
     (case map_of doc field of
        None \<Rightarrow> False
      | Some doc_val \<Rightarrow>
          if is_null doc_val then False
          else if is_string filter_value \<and> is_int64_field (map_of fs field)
          then (case int64_of doc_val of
                  None \<Rightarrow> False
                | Some lhs \<Rightarrow>
                    (case int64_of filter_value of
                       None \<Rightarrow> False
                     | Some rhs \<Rightarrow> compare_values (=) (<) op lhs rhs))
          else
            (case filter_value of
               JString s \<Rightarrow> compare_values (=) (<) op (doc_to_text x doc_val) s
             | JNumber n \<Rightarrow>
                 (case doc_to_number doc_val of
                    None \<Rightarrow> False
                  | Some lhs \<Rightarrow> compare_values f64_eq f64_lt op lhs (as_f64 n))
             | JBool b \<Rightarrow>
                 (case doc_val of JBool db \<Rightarrow> compare_values (=) (<) op db b | _ \<Rightarrow> False)
             | _ \<Rightarrow> False))"

definition saturating_sub :: "int \<Rightarrow> int \<Rightarrow> int" where
  "saturating_sub a b = max (- (2 ^ 63)) (min (2 ^ 63 - 1) (a - b))"

text \<open>\<open>now\<close> is \<open>None\<close> where the operator \<^verbatim>\<open>olderThan\<close> is not admitted.\<close>

definition eval_older_than ::
  "string \<Rightarrow> int \<Rightarrow> doc \<Rightarrow> (string \<times> field_type) list \<Rightarrow> int option \<Rightarrow> bool" where
  "eval_older_than field ms doc fs now =
     (case now of
        None \<Rightarrow> False
      | Some now \<Rightarrow>
          let cutoff = saturating_sub now ms
          in case map_of doc field of
               None \<Rightarrow> False
             | Some v \<Rightarrow>
                 if is_string v \<and> is_int64_field (map_of fs field)
                 then (case int64_of v of None \<Rightarrow> False | Some lhs \<Rightarrow> lhs < cutoff)
                 else if \<not> is_null v
                 then (case doc_to_number v of
                         None \<Rightarrow> False
                       | Some lhs \<Rightarrow> f64_lt lhs (i64_as_f64 cutoff))
                 else False)"

fun eval_filter_with_clock ::
  "ext \<Rightarrow> filter_expr \<Rightarrow> doc \<Rightarrow> (string \<times> field_type) list \<Rightarrow> int option \<Rightarrow> bool" where
  "eval_filter_with_clock x (FAnd es) doc fs now =
     (\<forall>e\<in>set es. eval_filter_with_clock x e doc fs now)"
| "eval_filter_with_clock x (FOr es) doc fs now =
     (\<exists>e\<in>set es. eval_filter_with_clock x e doc fs now)"
| "eval_filter_with_clock x (FIn field values) doc fs now =
     list_ex (\<lambda>v. compare_leaf x OpEq field v doc fs) values"
| "eval_filter_with_clock x (FEq field v) doc fs now = compare_leaf x OpEq field v doc fs"
| "eval_filter_with_clock x (FNeq field v) doc fs now = compare_leaf x OpNeq field v doc fs"
| "eval_filter_with_clock x (FGt field v) doc fs now = compare_leaf x OpGt field v doc fs"
| "eval_filter_with_clock x (FGte field v) doc fs now = compare_leaf x OpGte field v doc fs"
| "eval_filter_with_clock x (FLt field v) doc fs now = compare_leaf x OpLt field v doc fs"
| "eval_filter_with_clock x (FLte field v) doc fs now = compare_leaf x OpLte field v doc fs"
| "eval_filter_with_clock x (FNot e) doc fs now = (\<not> eval_filter_with_clock x e doc fs now)"
| "eval_filter_with_clock x (FContains field v) doc fs now =
     (case map_of doc field of Some (JArray arr) \<Rightarrow> v \<in> set arr | _ \<Rightarrow> False)"
| "eval_filter_with_clock x (FExists field) doc fs now =
     (case map_of doc field of Some v \<Rightarrow> \<not> is_null v | None \<Rightarrow> False)"
| "eval_filter_with_clock x (FOlderThan field ms) doc fs now = eval_older_than field ms doc fs now"

definition eval_filter_expr :: "ext \<Rightarrow> filter_expr \<Rightarrow> doc \<Rightarrow> (string \<times> field_type) list \<Rightarrow> bool" where
  "eval_filter_expr x e doc fs = eval_filter_with_clock x e doc fs None"

definition eval_filter_expr_at ::
  "ext \<Rightarrow> filter_expr \<Rightarrow> doc \<Rightarrow> (string \<times> field_type) list \<Rightarrow> int \<Rightarrow> bool" where
  "eval_filter_expr_at x e doc fs now = eval_filter_with_clock x e doc fs (Some now)"

definition matches_filter :: "ext \<Rightarrow> filter_expr \<Rightarrow> doc \<Rightarrow> (string \<times> field_type) list \<Rightarrow> bool" where
  "matches_filter x e doc fs = eval_filter_expr x e doc fs"

section \<open>Facts\<close>

text \<open>A filter reads a document and the declared types through the fields it names only.\<close>

lemma compare_leaf_cong:
  "map_of doc f = map_of doc' f' \<Longrightarrow> map_of fs f = map_of fs' f' \<Longrightarrow>
   compare_leaf x op f v doc fs = compare_leaf x op f' v doc' fs'"
  unfolding compare_leaf_def by (simp only:)

lemma eval_older_than_cong:
  "map_of doc f = map_of doc' f' \<Longrightarrow> map_of fs f = map_of fs' f' \<Longrightarrow>
   eval_older_than f ms doc fs now = eval_older_than f' ms doc' fs' now"
  unfolding eval_older_than_def by (simp only:)

lemma eval_filter_rename:
  assumes "\<And>f. f \<in> set (walk_filter_expr_fields e) \<Longrightarrow> map_of doc' (rename_name a b f) = map_of doc f"
    and "\<And>f. f \<in> set (walk_filter_expr_fields e) \<Longrightarrow> map_of fs' (rename_name a b f) = map_of fs f"
  shows "eval_filter_with_clock x (rename_filter_fields a b e) doc' fs' now
     = eval_filter_with_clock x e doc fs now"
  using assms
proof (induction x e doc fs now rule: eval_filter_with_clock.induct)
  case (1 x es doc fs now)
  have "eval_filter_with_clock x (rename_filter_fields a b e) doc' fs' now
      = eval_filter_with_clock x e doc fs now" if "e \<in> set es" for e
    using 1 that by auto
  then show ?case by simp
next
  case (2 x es doc fs now)
  have "eval_filter_with_clock x (rename_filter_fields a b e) doc' fs' now
      = eval_filter_with_clock x e doc fs now" if "e \<in> set es" for e
    using 2 that by auto
  then show ?case by simp
next
  case (3 x field vs doc fs now)
  then show ?case
    using compare_leaf_cong[of doc' "rename_name a b field" doc field fs' fs] by simp
next
  case (13 x field ms doc fs now)
  then show ?case
    using eval_older_than_cong[of doc' "rename_name a b field" doc field fs' fs] by simp
qed (auto intro: compare_leaf_cong[THEN iffD1] compare_leaf_cong[THEN iffD2])

lemma eval_filter_cong:
  assumes "\<And>f. f \<in> set (walk_filter_expr_fields e) \<Longrightarrow> map_of doc' f = map_of doc f"
    and "\<And>f. f \<in> set (walk_filter_expr_fields e) \<Longrightarrow> map_of fs' f = map_of fs f"
  shows "eval_filter_with_clock x e doc' fs' now = eval_filter_with_clock x e doc fs now"
proof -
  have id: "rename_name [] [] = (\<lambda>f. f)"
    by (simp add: rename_name_def fun_eq_iff)
  have "rename_filter_fields [] [] e = e"
    by (induction "[] :: string" "[] :: string" e rule: rename_filter_fields.induct)
       (auto simp: id intro: map_idI)
  then show ?thesis
    using eval_filter_rename[of e doc' "[]" "[]" doc fs' fs x now] assms by (simp add: id)
qed

lemma validated_no_clock:
  "validate_filter_expr_fields_at e table False d = Inr () \<Longrightarrow>
   eval_filter_with_clock x e doc fs now = eval_filter_with_clock x e doc fs None"
proof (induction e table False d rule: validate_filter_expr_fields_at.induct)
  case (1 e table depth)
  show ?case
    using 1(4) 1(1-3)
    by (subst (asm) validate_filter_expr_fields_at.simps)
       (cases e; fastforce split: if_splits)
qed

end
