(* ===== verification/Value_Expr.thy ===== *)
theory Value_Expr
  imports Filters
begin

text \<open>
  The value expression interpreter of \<^verbatim>\<open>rust-client/src/in_memory/value_expr.rs\<close>, the
  stamping of computed fields, and \<^verbatim>\<open>apply_patch\<close> of \<^verbatim>\<open>validate.rs\<close>, through which every
  patch-shaped write goes.
\<close>

section \<open>Conversions\<close>

definition to_text :: "ext \<Rightarrow> json \<Rightarrow> string option" where
  "to_text x v =
     (case v of
        JNull \<Rightarrow> None
      | JString s \<Rightarrow> Some s
      | JNumber n \<Rightarrow> Some (json_text x (JNumber n))
      | JBool b \<Rightarrow> Some (if b then ''true'' else ''false'')
      | other \<Rightarrow> Some (json_text x other))"

definition to_numeric :: "json \<Rightarrow> f64 option res" where
  "to_numeric v =
     (case v of
        JNull \<Rightarrow> Inr None
      | JNumber n \<Rightarrow> Inr (Some (as_f64 n))
      | JString s \<Rightarrow>
          (case parse_f64 (trim s) of None \<Rightarrow> Inl BadRequest | Some f \<Rightarrow> Inr (Some f))
      | _ \<Rightarrow> Inl BadRequest)"

definition finite_number :: "f64 \<Rightarrow> json res" where
  "finite_number f =
     (case number_from_f64 f of None \<Rightarrow> Inl BadRequest | Some n \<Rightarrow> Inr (JNumber n))"

definition cast_to_int64 :: "json \<Rightarrow> json res" where
  "cast_to_int64 v =
     (case v of
        JNull \<Rightarrow> Inr JNull
      | JNumber n \<Rightarrow> (case as_i64 n of None \<Rightarrow> Inl BadRequest | Some i \<Rightarrow> Inr (json_of_int i))
      | JString s \<Rightarrow> (case parse_i64 (trim s) of None \<Rightarrow> Inl BadRequest | Some i \<Rightarrow> Inr (json_of_int i))
      | _ \<Rightarrow> Inl BadRequest)"

definition TRUE_WORDS :: "string list" where
  "TRUE_WORDS = [''true'', ''t'', ''yes'', ''on'', ''1'']"

definition FALSE_WORDS :: "string list" where
  "FALSE_WORDS = [''false'', ''f'', ''no'', ''off'', ''0'']"

definition cast_to_boolean :: "json \<Rightarrow> json res" where
  "cast_to_boolean v =
     (case v of
        JNull \<Rightarrow> Inr JNull
      | JBool b \<Rightarrow> Inr (JBool b)
      | JNumber n \<Rightarrow>
          if f64_eq (as_f64 n) (Fin 1) then Inr (JBool True)
          else if f64_eq (as_f64 n) (Fin 0) then Inr (JBool False)
          else Inl BadRequest
      | JString s \<Rightarrow>
          if list_ex (eq_ignore_ascii_case s) TRUE_WORDS then Inr (JBool True)
          else if list_ex (eq_ignore_ascii_case s) FALSE_WORDS then Inr (JBool False)
          else Inl BadRequest
      | _ \<Rightarrow> Inl BadRequest)"

section \<open>The interpreter\<close>

definition eval_field :: "ext \<Rightarrow> string \<Rightarrow> doc \<Rightarrow> json" where
  "eval_field x field doc =
     (case map_of doc field of
        None \<Rightarrow> JNull
      | Some v \<Rightarrow> (case to_text x v of Some text \<Rightarrow> JString text | None \<Rightarrow> JNull))"

datatype arith_op = AAdd | ASub | AMul | ADiv

definition eval_arithmetic :: "arith_op \<Rightarrow> json \<Rightarrow> (unit \<Rightarrow> json res) \<Rightarrow> json res" where
  "eval_arithmetic op lv rv =
     bindE (to_numeric lv) (\<lambda>l.
     bindE (bindE (rv ()) to_numeric) (\<lambda>r.
       case (l, r) of
         (Some l, Some r) \<Rightarrow>
           if op = ADiv \<and> f64_eq r (Fin 0) then Inl BadRequest
           else finite_number
             (case op of
                AAdd \<Rightarrow> f64_add l r
              | ASub \<Rightarrow> f64_sub l r
              | AMul \<Rightarrow> f64_mul l r
              | ADiv \<Rightarrow> f64_div l r)
       | _ \<Rightarrow> Inr JNull))"

definition text_transform :: "ext \<Rightarrow> (string \<Rightarrow> string) \<Rightarrow> json \<Rightarrow> json" where
  "text_transform x f v = (case to_text x v of Some text \<Rightarrow> JString (f text) | None \<Rightarrow> JNull)"

definition eval_cast :: "ext \<Rightarrow> cast \<Rightarrow> json \<Rightarrow> json res" where
  "eval_cast x to v =
     (case to of
        ToString \<Rightarrow> Inr (text_transform x (\<lambda>t. t) v)
      | ToNumber \<Rightarrow>
          bindE (to_numeric v) (\<lambda>n. case n of Some f \<Rightarrow> finite_number f | None \<Rightarrow> Inr JNull)
      | ToInt64 \<Rightarrow> cast_to_int64 v
      | ToBoolean \<Rightarrow> cast_to_boolean v)"

text \<open>
  One equation per grammar node.  The left operand of an arithmetic node is
  converted before the right one is evaluated, so that the first error is the one
  reported.
\<close>

function (sequential) eval_node ::
  "ext \<Rightarrow> doc \<Rightarrow> int \<Rightarrow> (string \<times> field_type) list \<Rightarrow> value_expr \<Rightarrow> json res"
  and eval_concat ::
  "ext \<Rightarrow> doc \<Rightarrow> int \<Rightarrow> (string \<times> field_type) list \<Rightarrow> value_expr list \<Rightarrow> string res"
  and eval_coalesce ::
  "ext \<Rightarrow> doc \<Rightarrow> int \<Rightarrow> (string \<times> field_type) list \<Rightarrow> value_expr list \<Rightarrow> json res"
  and eval_case ::
  "ext \<Rightarrow> doc \<Rightarrow> int \<Rightarrow> (string \<times> field_type) list \<Rightarrow> case_when list \<Rightarrow> value_expr \<Rightarrow> json res" where
  "eval_node x doc now fs (VField field) = Inr (eval_field x field doc)"
| "eval_node x doc now fs (VLiteral v) = Inr v"
| "eval_node x doc now fs (VConcat parts) =
     bindE (eval_concat x doc now fs parts) (\<lambda>s. Inr (JString s))"
| "eval_node x doc now fs (VAdd l r) =
     bindE (eval_node x doc now fs l) (\<lambda>lv. eval_arithmetic AAdd lv (\<lambda>_. eval_node x doc now fs r))"
| "eval_node x doc now fs (VSub l r) =
     bindE (eval_node x doc now fs l) (\<lambda>lv. eval_arithmetic ASub lv (\<lambda>_. eval_node x doc now fs r))"
| "eval_node x doc now fs (VMul l r) =
     bindE (eval_node x doc now fs l) (\<lambda>lv. eval_arithmetic AMul lv (\<lambda>_. eval_node x doc now fs r))"
| "eval_node x doc now fs (VDiv l r) =
     bindE (eval_node x doc now fs l) (\<lambda>lv. eval_arithmetic ADiv lv (\<lambda>_. eval_node x doc now fs r))"
| "eval_node x doc now fs (VCoalesce parts) = eval_coalesce x doc now fs parts"
| "eval_node x doc now fs (VLower v) =
     bindE (eval_node x doc now fs v) (\<lambda>v. Inr (text_transform x (to_lowercase x) v))"
| "eval_node x doc now fs (VUpper v) =
     bindE (eval_node x doc now fs v) (\<lambda>v. Inr (text_transform x (to_uppercase x) v))"
| "eval_node x doc now fs (VTrim v) =
     bindE (eval_node x doc now fs v) (\<lambda>v. Inr (text_transform x trim_spaces v))"
| "eval_node x doc now fs (VCast v to) = bindE (eval_node x doc now fs v) (eval_cast x to)"
| "eval_node x doc now fs VNow = Inr (json_of_int now)"
| "eval_node x doc now fs (VCase whens otherwise) = eval_case x doc now fs whens otherwise"
| "eval_concat x doc now fs [] = Inr []"
| "eval_concat x doc now fs (p # parts) =
     bindE (eval_node x doc now fs p) (\<lambda>v.
     bindE (eval_concat x doc now fs parts) (\<lambda>rest.
       Inr (case to_text x v of Some text \<Rightarrow> text @ rest | None \<Rightarrow> rest)))"
| "eval_coalesce x doc now fs [] = Inr JNull"
| "eval_coalesce x doc now fs (p # parts) =
     bindE (eval_node x doc now fs p) (\<lambda>v.
       if is_null v then eval_coalesce x doc now fs parts else Inr v)"
| "eval_case x doc now fs [] otherwise = eval_node x doc now fs otherwise"
| "eval_case x doc now fs (CaseWhen w t # whens) otherwise =
     (if eval_filter_expr x w doc fs then eval_node x doc now fs t
      else eval_case x doc now fs whens otherwise)"
  by pat_completeness auto
termination
  by (relation "measure (\<lambda>a. case a of
        Inl (Inl (x, d, n, fs, ve)) \<Rightarrow> 2 * size ve
      | Inl (Inr (x, d, n, fs, ps)) \<Rightarrow> 2 * size_list size ps
      | Inr (Inl (x, d, n, fs, ps)) \<Rightarrow> 2 * size_list size ps
      | Inr (Inr (x, d, n, fs, ws, ve)) \<Rightarrow> 2 * (size_list size ws + size ve) + 1)") auto

definition eval_value_expr ::
  "ext \<Rightarrow> value_expr \<Rightarrow> doc \<Rightarrow> int \<Rightarrow> (string \<times> field_type) list \<Rightarrow> json res" where
  "eval_value_expr x ve doc now fs = eval_node x doc now fs ve"

section \<open>Computed fields\<close>

definition stamp_computed_entry ::
  "ext \<Rightarrow> table_def \<Rightarrow> int \<Rightarrow> string \<times> value_expr \<Rightarrow> doc \<Rightarrow> doc res" where
  "stamp_computed_entry x table now entry doc =
     (case eval_value_expr x (snd entry) doc now (td_fields table) of
        Inl e \<Rightarrow> Inl BadRequest
      | Inr v \<Rightarrow> Inr (if is_null v then bt_remove (fst entry) doc else bt_insert (fst entry) v doc))"

definition stamp_computed :: "ext \<Rightarrow> table_def \<Rightarrow> doc \<Rightarrow> int \<Rightarrow> doc res" where
  "stamp_computed x table doc now = foldE (stamp_computed_entry x table now) (td_computed table) doc"

section \<open>Patches\<close>

definition merge_field :: "table_def \<Rightarrow> string \<times> json \<Rightarrow> doc \<Rightarrow> doc res" where
  "merge_field table entry merged =
     (let field = fst entry; v = snd entry
      in if map_of (td_computed table) field \<noteq> None then Inr merged
         else (case map_of (td_fields table) field of
                 None \<Rightarrow> Inl SchemaViolation
               | Some field_ty \<Rightarrow>
                   if (case field_ty of
                         TyOptional inner \<Rightarrow> is_null v \<and> \<not> validate_value inner v
                       | _ \<Rightarrow> False)
                   then Inr (bt_remove field merged)
                   else if \<not> validate_value field_ty v then Inl SchemaViolation
                   else Inr (bt_insert field v merged)))"

definition auto_increment_changed :: "table_def \<Rightarrow> doc \<Rightarrow> doc \<Rightarrow> bool" where
  "auto_increment_changed table doc patch =
     (case td_auto_increment_field table of
        None \<Rightarrow> False
      | Some auto \<Rightarrow>
          (case map_of patch auto of
             None \<Rightarrow> False
           | Some v \<Rightarrow> map_of doc auto \<noteq> Some v))"

definition apply_patch :: "ext \<Rightarrow> table_def \<Rightarrow> doc \<Rightarrow> doc \<Rightarrow> int \<Rightarrow> doc res" where
  "apply_patch x table doc patch now =
     (if auto_increment_changed table doc patch then Inl BadRequest
      else
        bindE (foldE (merge_field table) patch doc) (\<lambda>merged.
        bindE (stamp_computed x table merged now) (\<lambda>merged.
        bindE (validate_doc x table (JObject merged)) (\<lambda>_. Inr merged))))"

section \<open>Facts\<close>

subsection \<open>Renaming\<close>

text \<open>The renamed fields read the same in the renamed document and types.\<close>

definition agree ::
  "(string \<Rightarrow> string) \<Rightarrow> doc \<Rightarrow> (string \<times> field_type) list \<Rightarrow> doc \<Rightarrow> (string \<times> field_type) list
   \<Rightarrow> string list \<Rightarrow> bool" where
  "agree r doc' fs' doc fs F \<longleftrightarrow>
     (\<forall>f\<in>set F. map_of doc' (r f) = map_of doc f \<and> map_of fs' (r f) = map_of fs f)"

lemma agree_simps [simp]:
  "agree r doc' fs' doc fs []"
  "agree r doc' fs' doc fs (f # F) \<longleftrightarrow>
     map_of doc' (r f) = map_of doc f \<and> map_of fs' (r f) = map_of fs f \<and> agree r doc' fs' doc fs F"
  "agree r doc' fs' doc fs (F @ G) \<longleftrightarrow> agree r doc' fs' doc fs F \<and> agree r doc' fs' doc fs G"
  by (auto simp: agree_def)

lemma eval_filter_agree:
  "agree (rename_name a b) doc' fs' doc fs (walk_filter_expr_fields e) \<Longrightarrow>
   eval_filter_expr x (rename_filter_fields a b e) doc' fs' = eval_filter_expr x e doc fs"
  unfolding eval_filter_expr_def by (intro eval_filter_rename) (auto simp: agree_def)

lemma agree_concat:
  "agree r doc' fs' doc fs (concat (map w ps)) \<longleftrightarrow> (\<forall>p\<in>set ps. agree r doc' fs' doc fs (w p))"
  by (auto simp: agree_def)

lemma eval_lists_map:
  "(\<And>p. p \<in> set ps \<Longrightarrow> eval_node x doc' now fs' (g p) = eval_node x doc now fs p) \<Longrightarrow>
   eval_concat x doc' now fs' (map g ps) = eval_concat x doc now fs ps
   \<and> eval_coalesce x doc' now fs' (map g ps) = eval_coalesce x doc now fs ps"
  by (induction ps) (simp_all cong: if_cong)

lemma eval_case_map:
  "(\<And>cw. cw \<in> set ws \<Longrightarrow>
      eval_filter_expr x (cw_when (g cw)) doc' fs' = eval_filter_expr x (cw_when cw) doc fs
      \<and> eval_node x doc' now fs' (cw_then (g cw)) = eval_node x doc now fs (cw_then cw)) \<Longrightarrow>
   eval_node x doc' now fs' ow' = eval_node x doc now fs ow \<Longrightarrow>
   eval_case x doc' now fs' (map g ws) ow' = eval_case x doc now fs ws ow"
proof (induction ws)
  case (Cons cw ws)
  have "eval_case x d now fs (cw # ws) o' =
      (if eval_filter_expr x (cw_when cw) d fs then eval_node x d now fs (cw_then cw)
       else eval_case x d now fs ws o')" for d fs cw ws o'
    by (cases cw) simp
  then show ?case
    using Cons by simp
qed simp

lemma eval_node_rename:
  "agree (rename_name a b) doc' fs' doc fs (walk_value_expr_fields ve) \<Longrightarrow>
   eval_node x doc' now fs' (rename_value_expr_fields a b ve) = eval_node x doc now fs ve"
  "agree (rename_name a b) doc' fs' doc fs (walk_case_when_fields cw) \<Longrightarrow>
   eval_filter_expr x (cw_when (rename_case_when_fields a b cw)) doc' fs' = eval_filter_expr x (cw_when cw) doc fs
   \<and> eval_node x doc' now fs' (cw_then (rename_case_when_fields a b cw)) = eval_node x doc now fs (cw_then cw)"
proof (induction ve and cw)
  case (VConcat ps)
  then show ?case
    using eval_lists_map[of ps x doc' now fs' "rename_value_expr_fields a b" doc fs] by (simp add: agree_concat)
next
  case (VCoalesce ps)
  then show ?case
    using eval_lists_map[of ps x doc' now fs' "rename_value_expr_fields a b" doc fs] by (simp add: agree_concat)
next
  case (VCase ws ow)
  then show ?case
    using eval_case_map[of ws x "rename_case_when_fields a b" doc' fs' doc fs now] by (simp add: agree_concat)
next
  case (CaseWhen w t)
  then show ?case
    using eval_filter_agree[of a b doc' fs' doc fs w x] by simp
qed (simp_all add: eval_field_def)
subsection \<open>Merging a patch\<close>

lemma merge_field_frame:
  "merge_field table e d = Inr d' \<Longrightarrow> f \<noteq> fst e \<Longrightarrow> map_of d' f = map_of d f"
  by (auto simp: merge_field_def Let_def split: if_splits option.splits)

lemma merge_field_ok: "merge_field table e d = Inr d' \<Longrightarrow> bt_ok d \<Longrightarrow> bt_ok d'"
  by (auto simp: merge_field_def Let_def split: if_splits option.splits)

text \<open>What a patch entry makes of its field: unset an optional, or overwrite.\<close>

definition patched :: "table_def \<Rightarrow> string \<Rightarrow> json \<Rightarrow> json option" where
  "patched table f v = (if unset_optional table f v then None else Some v)"

lemma merge_field_hit:
  "merge_field table (f, v) d = Inr d' \<Longrightarrow> map_of (td_computed table) f = None \<Longrightarrow>
   map_of d' f = patched table f v"
  by (auto simp: merge_field_def Let_def patched_def unset_optional_def
      split: if_splits option.splits field_type.splits)

lemma merge_fields_spec:
  assumes "foldE (merge_field table) patch d = Inr d'" "distinct (map fst patch)"
  shows "map_of d' f =
     (case map_of patch f of
        Some v \<Rightarrow> if map_of (td_computed table) f = None then patched table f v else map_of d f
      | None \<Rightarrow> map_of d f)"
  using assms
proof (induction patch arbitrary: d)
  case (Cons e patch)
  obtain d1 where d1: "merge_field table e d = Inr d1" "foldE (merge_field table) patch d1 = Inr d'"
    using Cons.prems by auto
  have ih: "map_of d' f =
     (case map_of patch f of
        Some v \<Rightarrow> if map_of (td_computed table) f = None then patched table f v else map_of d1 f
      | None \<Rightarrow> map_of d1 f)"
    using Cons.IH[OF d1(2)] Cons.prems(2) by simp
  obtain k v where e: "e = (k, v)" by (cases e)
  have skip: "map_of (td_computed table) k \<noteq> None \<Longrightarrow> d1 = d"
    using d1(1) by (auto simp: merge_field_def e)
  show ?case
  proof (cases "f = k")
    case True
    then have "map_of patch f = None"
      using Cons.prems(2) by (auto simp: e map_of_eq_None_iff)
    then show ?thesis
      using ih True skip merge_field_hit[of table k v d d1] d1(1) by (auto simp: e)
  next
    case False
    then show ?thesis
      using ih merge_field_frame[OF d1(1), of f] by (auto simp: e split: option.splits if_splits)
  qed
qed simp

lemma merge_fields_ok: "foldE (merge_field table) patch d = Inr d' \<Longrightarrow> bt_ok d \<Longrightarrow> bt_ok d'"
  by (induction patch arbitrary: d) (auto dest: merge_field_ok)

subsection \<open>Computed fields\<close>

lemma stamp_entries_frame:
  "foldE (stamp_computed_entry x table now) es d = Inr d' \<Longrightarrow> f \<notin> fst ` set es \<Longrightarrow>
   map_of d' f = map_of d f"
  by (induction es arbitrary: d)
     (auto simp: stamp_computed_entry_def split: sum.splits if_splits)

lemma stamp_entries_ok:
  "foldE (stamp_computed_entry x table now) es d = Inr d' \<Longrightarrow> bt_ok d \<Longrightarrow> bt_ok d'"
  by (induction es arbitrary: d)
     (auto simp: stamp_computed_entry_def split: sum.splits if_splits)

lemma stamp_computed_frame:
  "stamp_computed x table d now = Inr d' \<Longrightarrow> map_of (td_computed table) f = None \<Longrightarrow>
   map_of d' f = map_of d f"
  unfolding stamp_computed_def by (erule stamp_entries_frame) (simp add: map_of_eq_None_iff)

lemma stamp_computed_ok: "stamp_computed x table d now = Inr d' \<Longrightarrow> bt_ok d \<Longrightarrow> bt_ok d'"
  unfolding stamp_computed_def by (rule stamp_entries_ok)

lemma stamp_computed_err: "stamp_computed x table d now = Inl e \<Longrightarrow> e = BadRequest"
proof -
  have "foldE (stamp_computed_entry x table now) es d = Inl e \<Longrightarrow> e = BadRequest" for es d
    by (induction es arbitrary: d)
       (auto simp: stamp_computed_entry_def bindE_eq_Inl split: sum.splits)
  then show "stamp_computed x table d now = Inl e \<Longrightarrow> e = BadRequest"
    by (simp add: stamp_computed_def)
qed

lemma apply_patch_ok: "apply_patch x table d patch now = Inr d' \<Longrightarrow> bt_ok d \<Longrightarrow> bt_ok d'"
  by (auto simp: apply_patch_def split: if_splits dest: merge_fields_ok stamp_computed_ok)

lemma apply_patch_valid:
  "apply_patch x table d patch now = Inr d' \<Longrightarrow> validate_doc x table (JObject d') = Inr ()"
  by (auto simp: apply_patch_def split: if_splits)

lemma apply_patch_lookup:
  assumes "apply_patch x table d patch now = Inr d'" "bt_ok patch" "map_of (td_computed table) f = None"
  shows "map_of d' f = (case map_of patch f of Some v \<Rightarrow> patched table f v | None \<Rightarrow> map_of d f)"
proof -
  obtain m where m: "foldE (merge_field table) patch d = Inr m" "stamp_computed x table m now = Inr d'"
    using assms(1) by (auto simp: apply_patch_def split: if_splits)
  show ?thesis
    using merge_fields_spec[OF m(1) bt_ok_distinct[OF assms(2)], of f] stamp_computed_frame[OF m(2) assms(3)] assms(3)
    by (auto split: option.splits)
qed

lemma apply_patch_auto:
  assumes "apply_patch x table d patch now = Inr d'" "bt_ok patch"
    and "td_auto_increment_field table = Some f" "map_of (td_computed table) f = None"
    and "map_of (td_fields table) f = Some TyInt64"
  shows "map_of d' f = map_of d f"
  using apply_patch_lookup[OF assms(1,2,4)] assms(1,3,5)
  by (auto simp: apply_patch_def auto_increment_changed_def patched_def unset_optional_def
      split: option.splits if_splits)

text \<open>
  C8: a patch that succeeds yields a document that validates against the table; every
  field that is not computed holds the patch's value where the patch has one (an
  optional field patched with null is removed) and is unchanged elsewhere; and the
  auto-increment field keeps the number it was given at insert.
\<close>

theorem apply_patch_spec:
  assumes "apply_patch x table d patch now = Inr d'" "bt_ok patch"
  shows "validate_doc x table (JObject d') = Inr ()
    \<and> (\<forall>f. map_of (td_computed table) f = None \<longrightarrow>
          map_of d' f = (case map_of patch f of Some v \<Rightarrow> patched table f v | None \<Rightarrow> map_of d f))
    \<and> (\<forall>f. td_auto_increment_field table = Some f \<and> map_of (td_computed table) f = None
          \<and> map_of (td_fields table) f = Some TyInt64 \<longrightarrow> map_of d' f = map_of d f)"
  using apply_patch_valid[OF assms(1)] apply_patch_lookup[OF assms] apply_patch_auto[OF assms] by blast

definition sample_table :: table_def where
  "sample_table = empty_table\<lparr>td_fields := [(''n'', TyInt64), (''t'', TyOptional TyString)],
     td_auto_increment_field := Some ''n''\<rparr>"

lemma sample_patch_run:
  "apply_patch sample_ext sample_table
     [(''n'', JString ''7''), (''t'', JString ''x'')] [(''n'', JString ''7''), (''t'', JNull)] 0
   = Inr [(''n'', JString ''7'')]"
  by code_simp

theorem apply_patch_spec_witness:
  "apply_patch sample_ext sample_table
     [(''n'', JString ''7''), (''t'', JString ''x'')] [(''n'', JString ''7''), (''t'', JNull)] 0
     = Inr [(''n'', JString ''7'')]
   \<and> map_of [(''n'', JString ''7'')] ''t'' = patched sample_table ''t'' JNull
   \<and> map_of [(''n'', JString ''7'')] ''n'' = map_of [(''n'', JString ''7''), (''t'', JString ''x'')] ''n''"
  using sample_patch_run
    apply_patch_spec[OF sample_patch_run, THEN conjunct2, THEN conjunct1, rule_format, of "''t''"]
    apply_patch_spec[OF sample_patch_run, THEN conjunct2, THEN conjunct2, rule_format, of "''n''"]
  by (simp add: sample_table_def empty_table_def bt_ok_def less_list_code)

end
