(* ===== verification/Mutation.thy ===== *)
theory Mutation
  imports Schema
begin

text \<open>
  The transaction grammar of \<^verbatim>\<open>core/src/mutation.rs\<close> and the pure functions over it in
  \<^verbatim>\<open>core/src/engine.rs\<close>: the deadline of a transaction, the recursive step count and
  the affected-document estimate.
\<close>

section \<open>Transactions\<close>

datatype field_expectation = FieldExpectation (fe_path: "string list") (fe_value: json)

datatype schedule_when =
    AfterMs int
  | RunAt int
  | Cron string "string option"
  | Interval int

datatype schedule_kind = KOneshot | KCron | KInterval

datatype schedule_status = SPending | SRunning | SPaused | SError

datatype workflow_status = WPending | WRunning | WWaiting | WSuccess | WFailed | WCancelled

record step_retry =
  sr_max_attempts :: nat
  sr_initial_retry_ms :: nat
  sr_max_retry_ms :: nat

definition default_step_retry :: step_retry where
  "default_step_retry = \<lparr>sr_max_attempts = 3, sr_initial_retry_ms = 1000, sr_max_retry_ms = 60000\<rparr>"

record await_signal_spec =
  as_name :: string
  as_timeout_ms :: "nat option"

datatype step =
    Insert string doc
  | InsertMany string "doc list"
  | UpsertMany string string "doc list"
  | Patch string string doc
  | AdjustCounter string string string int "int option" "int option" "doc option"
  | Replace string string doc
  | Delete string string
  | ExpectVersion string string int
  | ExpectFields string string "field_expectation list"
  | ExpectBefore int
  | ExpectAbsent string string "json list"
  | ExpectNoMatch string filter_expr
  | Upsert string string "json list" doc doc
  | PatchByQuery string filter_expr doc "nat option"
  | DeleteByQuery string filter_expr "nat option"
  | Schedule schedule_when transaction "bool option"
  | CancelSchedule string
  | StartWorkflow workflow_spec
  | CancelWorkflow string
  | Undelete string string
and transaction = Transaction (txn_steps: "step list")
and workflow_spec = WorkflowSpec (wf_name: string) (wf_steps: "workflow_step_spec list")
and workflow_step_spec =
  WorkflowStepSpec (ws_txn: "transaction option") (ws_await_signal: "await_signal_spec option")
    (ws_retry: "step_retry option") (ws_sleep_before_ms: "nat option")

subsection \<open>Wire names of the closed enumerations\<close>

fun kind_as_wire_str :: "schedule_kind \<Rightarrow> string" where
  "kind_as_wire_str KOneshot = ''oneshot''"
| "kind_as_wire_str KCron = ''cron''"
| "kind_as_wire_str KInterval = ''interval''"

definition kind_from_str :: "string \<Rightarrow> schedule_kind option" where
  "kind_from_str s =
     (if s = ''oneshot'' then Some KOneshot
      else if s = ''cron'' then Some KCron
      else if s = ''interval'' then Some KInterval else None)"

fun status_as_wire_str :: "schedule_status \<Rightarrow> string" where
  "status_as_wire_str SPending = ''pending''"
| "status_as_wire_str SRunning = ''running''"
| "status_as_wire_str SPaused = ''paused''"
| "status_as_wire_str SError = ''error''"

definition status_from_str :: "string \<Rightarrow> schedule_status option" where
  "status_from_str s =
     (if s = ''pending'' then Some SPending
      else if s = ''running'' then Some SRunning
      else if s = ''paused'' then Some SPaused
      else if s = ''error'' then Some SError else None)"

fun workflow_as_wire_str :: "workflow_status \<Rightarrow> string" where
  "workflow_as_wire_str WPending = ''pending''"
| "workflow_as_wire_str WRunning = ''running''"
| "workflow_as_wire_str WWaiting = ''waiting''"
| "workflow_as_wire_str WSuccess = ''success''"
| "workflow_as_wire_str WFailed = ''failed''"
| "workflow_as_wire_str WCancelled = ''cancelled''"

definition workflow_from_str :: "string \<Rightarrow> workflow_status option" where
  "workflow_from_str s =
     (if s = ''pending'' then Some WPending
      else if s = ''running'' then Some WRunning
      else if s = ''waiting'' then Some WWaiting
      else if s = ''success'' then Some WSuccess
      else if s = ''failed'' then Some WFailed
      else if s = ''cancelled'' then Some WCancelled else None)"

text \<open>A closed enumeration and its wire names: decoding inverts encoding, and only
  encodings decode.\<close>

locale wire_enum =
  fixes enc :: "'a \<Rightarrow> string" and dec :: "string \<Rightarrow> 'a option"
  assumes dec_enc: "dec (enc x) = Some x"
    and enc_dec: "dec s = Some x \<Longrightarrow> s = enc x"
begin

lemma enc_inj: "enc x = enc y \<longleftrightarrow> x = y"
  using dec_enc by (metis option.inject)

lemma dec_iff: "dec s = Some x \<longleftrightarrow> s = enc x"
  using dec_enc enc_dec by blast

end

interpretation kind_wire: wire_enum kind_as_wire_str kind_from_str
proof unfold_locales
  show "kind_from_str (kind_as_wire_str x) = Some x" for x
    by (cases x) (simp_all add: kind_from_str_def)
qed (auto simp: kind_from_str_def split: if_splits)

interpretation status_wire: wire_enum status_as_wire_str status_from_str
proof unfold_locales
  show "status_from_str (status_as_wire_str x) = Some x" for x
    by (cases x) (simp_all add: status_from_str_def)
qed (auto simp: status_from_str_def split: if_splits)

interpretation workflow_wire: wire_enum workflow_as_wire_str workflow_from_str
proof unfold_locales
  show "workflow_from_str (workflow_as_wire_str x) = Some x" for x
    by (cases x) (simp_all add: workflow_from_str_def)
qed (auto simp: workflow_from_str_def split: if_splits)

section \<open>Deadlines\<close>

definition MAX_SAFE_INTEGER :: int where
  "MAX_SAFE_INTEGER = 9007199254740991"

fun transaction_deadline_from :: "int option \<Rightarrow> step list \<Rightarrow> unit + int option" where
  "transaction_deadline_from earliest [] = Inr earliest"
| "transaction_deadline_from earliest (ExpectBefore d # steps) =
     (if 0 \<le> d \<and> d \<le> MAX_SAFE_INTEGER
      then transaction_deadline_from
             (Some (case earliest of None \<Rightarrow> d | Some value \<Rightarrow> min value d)) steps
      else Inl ())"
| "transaction_deadline_from earliest (_ # steps) = transaction_deadline_from earliest steps"

definition transaction_deadline :: "transaction \<Rightarrow> unit + int option" where
  "transaction_deadline txn = transaction_deadline_from None (txn_steps txn)"

fun deadline_of :: "step \<Rightarrow> int option" where
  "deadline_of (ExpectBefore d) = Some d"
| "deadline_of _ = None"

abbreviation deadlines :: "step list \<Rightarrow> int list" where
  "deadlines steps \<equiv> List.map_filter deadline_of steps"

definition min_opt :: "int option \<Rightarrow> int list \<Rightarrow> int option" where
  "min_opt e ds = fold (\<lambda>d e. Some (case e of None \<Rightarrow> d | Some v \<Rightarrow> min v d)) ds e"

lemma min_opt_simps [simp]:
  "min_opt e [] = e"
  "min_opt e (d # ds) = min_opt (Some (case e of None \<Rightarrow> d | Some v \<Rightarrow> min v d)) ds"
  by (simp_all add: min_opt_def)

lemma min_opt_Some: "min_opt (Some a) ds = Some (Min (insert a (set ds)))"
proof (induction ds arbitrary: a)
  case (Cons d ds)
  then show ?case
    by (cases "ds = []") (simp_all add: min.assoc)
qed simp

lemma min_opt_None: "min_opt None ds = (if ds = [] then None else Some (Min (set ds)))"
  by (cases ds) (simp_all add: min_opt_Some)

lemma transaction_deadline_from_eq:
  "transaction_deadline_from e steps =
     (if \<forall>d\<in>set (deadlines steps). 0 \<le> d \<and> d \<le> MAX_SAFE_INTEGER
      then Inr (min_opt e (deadlines steps)) else Inl ())"
  by (induction e steps rule: transaction_deadline_from.induct) (auto simp: List.map_filter_simps)

section \<open>Step counts\<close>

fun count_steps :: "transaction \<Rightarrow> nat"
  and count_step :: "step \<Rightarrow> nat"
  and count_wf_step :: "workflow_step_spec \<Rightarrow> nat" where
  "count_steps (Transaction steps) = sum_list (map count_step steps)"
| "count_step (Schedule w txn e) = 1 + count_steps txn"
| "count_step (StartWorkflow (WorkflowSpec n steps)) = 1 + sum_list (map count_wf_step steps)"
| "count_step _ = 1"
| "count_wf_step (WorkflowStepSpec (Some txn) a r s) = count_steps txn"
| "count_wf_step (WorkflowStepSpec None a r s) = 0"

text \<open>Every step the request carries, nested ones included.\<close>

fun all_steps :: "transaction \<Rightarrow> step list"
  and step_tree :: "step \<Rightarrow> step list"
  and wf_tree :: "workflow_step_spec \<Rightarrow> step list" where
  "all_steps (Transaction steps) = concat (map step_tree steps)"
| "step_tree (Schedule w txn e) = Schedule w txn e # all_steps txn"
| "step_tree (StartWorkflow (WorkflowSpec n steps)) =
     StartWorkflow (WorkflowSpec n steps) # concat (map wf_tree steps)"
| "step_tree s = [s]"
| "wf_tree (WorkflowStepSpec (Some txn) a r s) = all_steps txn"
| "wf_tree (WorkflowStepSpec None a r s) = []"

lemma count_steps_all:
  "count_steps txn = length (all_steps txn)"
  "count_step st = length (step_tree st)"
  "count_wf_step w = length (wf_tree w)"
  by (induction txn and st and w rule: count_steps_count_step_count_wf_step.induct)
     (auto simp: length_concat comp_def intro!: arg_cong[of _ _ sum_list])

fun affected_of :: "nat \<Rightarrow> step \<Rightarrow> nat" where
  "affected_of m (PatchByQuery t f p limit) = min (case limit of None \<Rightarrow> m | Some l \<Rightarrow> l) m"
| "affected_of m (DeleteByQuery t f limit) = min (case limit of None \<Rightarrow> m | Some l \<Rightarrow> l) m"
| "affected_of m (InsertMany t docs) = length docs"
| "affected_of m (UpsertMany t i docs) = length docs"
| "affected_of m (ExpectBefore d) = 0"
| "affected_of m (ExpectNoMatch t f) = 0"
| "affected_of m (Schedule w txn e) = 0"
| "affected_of m (CancelSchedule i) = 0"
| "affected_of m (StartWorkflow spec) = 0"
| "affected_of m (CancelWorkflow i) = 0"
| "affected_of m _ = 1"

definition worst_case_affected :: "transaction \<Rightarrow> nat \<Rightarrow> nat" where
  "worst_case_affected txn max_by_query_rows =
     sum_list (map (affected_of max_by_query_rows) (txn_steps txn))"

end
