(* ===== verification/Field_Guard.thy ===== *)
theory Field_Guard
  imports Mutation
begin

text \<open>
  The bounded field assertions of \<^verbatim>\<open>core/src/field_guard.rs\<close>: validation of an
  assertion list against its budgets and the table's declared paths, matching
  against a document, and JSON equality with numeric equivalence.
\<close>

datatype field_guard_error = InvalidRequest | UnknownPath

section \<open>Budgets\<close>

text \<open>
  The two counters are the state; \<open>validate_value_budget v d (n, b)\<close> returns the
  counters after the call.
\<close>

fun validate_value_budget :: "json \<Rightarrow> nat \<Rightarrow> nat \<times> nat \<Rightarrow> field_guard_error + nat \<times> nat"
  and budget_array :: "json list \<Rightarrow> nat \<Rightarrow> nat \<times> nat \<Rightarrow> field_guard_error + nat \<times> nat"
  and budget_object :: "(string \<times> json) list \<Rightarrow> nat \<Rightarrow> nat \<times> nat \<Rightarrow> field_guard_error + nat \<times> nat"
  where
  "validate_value_budget v depth (nodes, bytes) =
     (if 32 < depth \<or> 8192 < nodes + 1 \<or> 65536 < bytes then Inl InvalidRequest
      else
        bindE
          (case v of
             JString text \<Rightarrow> Inr (nodes + 1, bytes + length text)
           | JArray values \<Rightarrow> budget_array values (depth + 1) (nodes + 1, bytes)
           | JObject values \<Rightarrow> budget_object values (depth + 1) (nodes + 1, bytes)
           | _ \<Rightarrow> Inr (nodes + 1, bytes))
          (\<lambda>(n, b). if 65536 < b then Inl InvalidRequest else Inr (n, b)))"
| "budget_array [] depth c = Inr c"
| "budget_array (v # vs) depth c =
     bindE (validate_value_budget v depth c) (\<lambda>c. budget_array vs depth c)"
| "budget_object [] depth c = Inr c"
| "budget_object ((k, v) # kvs) depth c =
     bindE (validate_value_budget v depth (fst c, snd c + length k)) (\<lambda>c. budget_object kvs depth c)"

section \<open>Declared paths\<close>

text \<open>\<^verbatim>\<open>declared_path\<close> indexes \<open>path[0]\<close>; every caller has checked that the path is not
  empty.\<close>

function (sequential) declared_path :: "(string \<times> field_type) list \<Rightarrow> string list \<Rightarrow> bool"
  and declared_child :: "field_type \<Rightarrow> string list \<Rightarrow> bool" where
  "declared_path fs [] = False"
| "declared_path fs (p # ps) =
     (case map_of fs p of None \<Rightarrow> False | Some field \<Rightarrow> declared_child field ps)"
| "declared_child field [] = True"
| "declared_child TyAny (p # ps) = True"
| "declared_child (TyOptional inner) (p # ps) = declared_child inner (p # ps)"
| "declared_child (TyObject fs) (p # ps) = declared_path fs (p # ps)"
| "declared_child (TyRecord v) (p # ps) = declared_child v ps"
| "declared_child (TyUnion variants) (p # ps) =
     (\<exists>field\<in>set variants. declared_child field (p # ps))"
| "declared_child _ (p # ps) = False"
  by pat_completeness auto
termination
proof (relation "measure (\<lambda>x. case x of
        Inl (fs, ps) \<Rightarrow> size_list (size_prod (\<lambda>x. 0) size) fs + length ps
      | Inr (f, ps) \<Rightarrow> size f + length ps)", goal_cases)
  case (2 fs p ps field)
  then show ?case
    using size_snd_pair[of "(p, field)" fs] by (auto dest!: map_of_SomeD)
qed (auto simp: termination_simp less_Suc_eq_le)

definition path_shape_ok :: "string list \<Rightarrow> bool" where
  "path_shape_ok path \<longleftrightarrow>
     path \<noteq> [] \<and> length path \<le> 16 \<and> list_all (\<lambda>key. key \<noteq> [] \<and> length key \<le> 256) path"

fun validate_items ::
  "table_def \<Rightarrow> string list set \<Rightarrow> nat \<times> nat \<Rightarrow> field_expectation list
   \<Rightarrow> field_guard_error + unit" where
  "validate_items table paths c [] = Inr ()"
| "validate_items table paths c (item # rest) =
     (if \<not> path_shape_ok (fe_path item) then Inl InvalidRequest
      else if fe_path item \<in> paths then Inl InvalidRequest
      else
        bindE (validate_value_budget (fe_value item) 0
                 (fst c, snd c + sum_list (map length (fe_path item))))
          (\<lambda>c'. if \<not> declared_path (td_fields table) (fe_path item) then Inl UnknownPath
                else validate_items table (insert (fe_path item) paths) c' rest))"

definition validate_expectations ::
  "table_def \<Rightarrow> field_expectation list \<Rightarrow> field_guard_error + unit" where
  "validate_expectations table expected =
     (if expected = [] \<or> 64 < length expected then Inl InvalidRequest
      else validate_items table {} (0, 0) expected)"

section \<open>Equality\<close>

text \<open>
  The integer a number denotes, when it is one: exact for the integer forms, and
  for a float with no fractional part below \<open>2^127\<close> (where \<^verbatim>\<open>as i128\<close> is exact).
\<close>

definition integer_of :: "num \<Rightarrow> int option" where
  "integer_of n =
     (case as_i64 n of
        Some i \<Rightarrow> Some i
      | None \<Rightarrow>
          (case as_u64 n of
             Some u \<Rightarrow> Some (int u)
           | None \<Rightarrow>
               (case as_f64 n of
                  Fin r \<Rightarrow> if of_int (trunc_rat r) = r \<and> \<bar>r\<bar> < 2 ^ 127 then Some (trunc_rat r) else None
                | _ \<Rightarrow> None)))"

definition num_eq :: "num \<Rightarrow> num \<Rightarrow> bool" where
  "num_eq a b =
     (case (integer_of a, integer_of b) of
        (Some x, Some y) \<Rightarrow> x = y
      | _ \<Rightarrow> f64_eq (as_f64 a) (as_f64 b))"

function (sequential) json_eq :: "json \<Rightarrow> json \<Rightarrow> bool" where
  "json_eq (JNumber a) (JNumber b) = num_eq a b"
| "json_eq (JArray a) (JArray b) =
     (length a = length b \<and> (\<forall>p\<in>set (zip a b). json_eq (fst p) (snd p)))"
| "json_eq (JObject a) (JObject b) =
     (length a = length b
      \<and> (\<forall>p\<in>set a. case map_of b (fst p) of None \<Rightarrow> False | Some other \<Rightarrow> json_eq (snd p) other))"
| "json_eq left right = (left = right)"
  by pat_completeness auto

termination json_eq
  by (relation "measure (\<lambda>(a, b). size a)")
     (auto simp: size_snd_pair less_Suc_eq_le dest!: set_zip_leftD intro: size_list_estimation')

section \<open>Matching\<close>

fun follow_path :: "json \<Rightarrow> string list \<Rightarrow> json option" where
  "follow_path v [] = Some v"
| "follow_path v (key # tail) =
     (case as_object v of
        None \<Rightarrow> None
      | Some m \<Rightarrow> (case map_of m key of None \<Rightarrow> None | Some w \<Rightarrow> follow_path w tail))"

definition expectation_matches :: "doc \<Rightarrow> field_expectation \<Rightarrow> bool" where
  "expectation_matches doc item =
     (case fe_path item of
        [] \<Rightarrow> False
      | key # tail \<Rightarrow>
          (case map_of doc key of
             None \<Rightarrow> False
           | Some v \<Rightarrow>
               (case follow_path v tail of
                  None \<Rightarrow> False
                | Some actual \<Rightarrow> json_eq actual (fe_value item))))"

definition expectations_match :: "doc \<Rightarrow> field_expectation list \<Rightarrow> bool" where
  "expectations_match doc expected = list_all (expectation_matches doc) expected"

section \<open>What the budgets count\<close>

fun json_nodes :: "json \<Rightarrow> nat" where
  "json_nodes (JArray vs) = Suc (sum_list (map json_nodes vs))"
| "json_nodes (JObject kvs) = Suc (sum_list (map (\<lambda>p. json_nodes (snd p)) kvs))"
| "json_nodes _ = 1"

fun json_bytes :: "json \<Rightarrow> nat" where
  "json_bytes (JString s) = length s"
| "json_bytes (JArray vs) = sum_list (map json_bytes vs)"
| "json_bytes (JObject kvs) = sum_list (map (\<lambda>p. length (fst p) + json_bytes (snd p)) kvs)"
| "json_bytes _ = 0"

fun depth_within :: "nat \<Rightarrow> json \<Rightarrow> bool" where
  "depth_within d (JArray vs) = (d \<le> 32 \<and> (\<forall>v\<in>set vs. depth_within (Suc d) v))"
| "depth_within d (JObject kvs) = (d \<le> 32 \<and> (\<forall>p\<in>set kvs. depth_within (Suc d) (snd p)))"
| "depth_within d _ = (d \<le> 32)"

lemma json_nodes_pos: "0 < json_nodes v"
  by (cases v) simp_all

lemma budget_exact:
  "validate_value_budget v d c =
     (if depth_within d v \<and> fst c + json_nodes v \<le> 8192 \<and> snd c + json_bytes v \<le> 65536
      then Inr (fst c + json_nodes v, snd c + json_bytes v) else Inl InvalidRequest)"
  "budget_array vs d c =
     (if vs = [] then Inr c
      else if (\<forall>v\<in>set vs. depth_within d v) \<and> fst c + sum_list (map json_nodes vs) \<le> 8192
         \<and> snd c + sum_list (map json_bytes vs) \<le> 65536
      then Inr (fst c + sum_list (map json_nodes vs), snd c + sum_list (map json_bytes vs))
      else Inl InvalidRequest)"
  "budget_object kvs d c =
     (if kvs = [] then Inr c
      else if (\<forall>p\<in>set kvs. depth_within d (snd p))
         \<and> fst c + sum_list (map (\<lambda>p. json_nodes (snd p)) kvs) \<le> 8192
         \<and> snd c + sum_list (map (\<lambda>p. length (fst p) + json_bytes (snd p)) kvs) \<le> 65536
      then Inr (fst c + sum_list (map (\<lambda>p. json_nodes (snd p)) kvs),
                snd c + sum_list (map (\<lambda>p. length (fst p) + json_bytes (snd p)) kvs))
      else Inl InvalidRequest)"
proof (induction v d c and vs d c and kvs d c rule: validate_value_budget_budget_array_budget_object.induct)
  case (1 v depth nodes bytes)
  then show ?case
    by (cases v) auto
next
  case (3 v vs depth c)
  then show ?case
    by (cases c) (auto simp: bindE_def)
next
  case (5 k v kvs depth c)
  then show ?case
    by (cases c) (auto simp: bindE_def)
qed simp_all

definition item_nodes :: "field_expectation list \<Rightarrow> nat" where
  "item_nodes items = sum_list (map (json_nodes \<circ> fe_value) items)"

definition item_bytes :: "field_expectation list \<Rightarrow> nat" where
  "item_bytes items =
     sum_list (map (\<lambda>i. sum_list (map length (fe_path i)) + json_bytes (fe_value i)) items)"

definition item_ok :: "table_def \<Rightarrow> field_expectation \<Rightarrow> bool" where
  "item_ok table i \<longleftrightarrow>
     path_shape_ok (fe_path i) \<and> declared_path (td_fields table) (fe_path i)
     \<and> depth_within 0 (fe_value i)"

lemma validate_items_iff:
  "items \<noteq> [] \<Longrightarrow>
   validate_items table paths c items = Inr () \<longleftrightarrow>
     (\<forall>i\<in>set items. item_ok table i) \<and> distinct (map fe_path items)
     \<and> fe_path ` set items \<inter> paths = {}
     \<and> fst c + item_nodes items \<le> 8192 \<and> snd c + item_bytes items \<le> 65536"
proof (induction items arbitrary: paths c)
  case (Cons i items)
  show ?case
  proof (cases "items = []")
    case True
    then show ?thesis
      by (auto simp: budget_exact(1) item_ok_def item_nodes_def item_bytes_def)
  next
    case False
    then show ?thesis
      by (auto simp: budget_exact(1) item_ok_def item_nodes_def item_bytes_def Cons.IH)
  qed
qed simp

text \<open>
  C24: a list of field assertions is accepted exactly when it has 1 to 64 entries
  with pairwise distinct, well-shaped, declared paths, no value nests deeper than 32
  levels, and all values and paths together stay within 8192 nodes and 65536 bytes.
\<close>

theorem validate_expectations_exact:
  "validate_expectations table expected = Inr () \<longleftrightarrow>
     0 < length expected \<and> length expected \<le> 64
     \<and> list_all (item_ok table) expected
     \<and> distinct (map fe_path expected)
     \<and> item_nodes expected \<le> 8192 \<and> item_bytes expected \<le> 65536"
  using validate_items_iff[of expected table "{}" "(0, 0)"]
  by (auto simp: validate_expectations_def list_all_iff)

section \<open>Equality up to the representation of numbers\<close>

fun num_val :: "num \<Rightarrow> rat" where
  "num_val (PosInt n) = of_nat n"
| "num_val (NegInt i) = of_int i"
| "num_val (Float r) = r"

lemma integer_of_Some: "num_ok n \<Longrightarrow> integer_of n = Some i \<Longrightarrow> num_val n = of_int i"
  by (cases n) (auto simp: integer_of_def split: if_splits)

lemma integer_of_None:
  "num_ok n \<Longrightarrow> integer_of n = None \<longleftrightarrow>
     (\<exists>r. n = Float r \<and> (of_int (trunc_rat r) \<noteq> r \<or> 2 ^ 127 \<le> \<bar>r\<bar>))"
  by (cases n) (auto simp: integer_of_def)

lemma trunc_rat_int [simp]: "trunc_rat (of_int k) = k"
  by (simp add: trunc_rat_def)

lemma num_val_int_bound:
  assumes "num_ok n" "\<not> is_float n"
  shows "\<exists>i. num_val n = of_int i \<and> \<bar>i\<bar> < 2 ^ 64 \<and> as_f64 n = round_f64 (of_int i)"
  using assms
  by (cases n) (auto simp: num_ok_def of_nat_less_iff[of _ "2 ^ 64", symmetric, where 'a = int]
      intro: exI[of _ "int _"])

lemma integer_of_bound:
  assumes "num_ok n" "integer_of n = Some i"
  shows "\<bar>rat_of_int i\<bar> < 2 ^ 127"
proof (cases "is_float n")
  case True
  then show ?thesis
    using assms by (cases n) (auto simp: integer_of_def split: if_splits)
next
  case False
  then obtain j where j: "num_val n = of_int j" "\<bar>j\<bar> < 2 ^ 64"
    using num_val_int_bound[OF assms(1)] by blast
  then have "rat_of_int \<bar>j\<bar> < rat_of_int (2 ^ 64)"
    by (simp only: of_int_less_iff)
  then show ?thesis
    using integer_of_Some[OF assms] j(1) by simp
qed

lemma f64_eq_mixed:
  assumes "num_ok a" "integer_of a = Some i" "integer_of b = None" "num_ok b"
  shows "\<not> f64_eq (as_f64 a) (as_f64 b)" "\<not> f64_eq (as_f64 b) (as_f64 a)"
    "num_val a \<noteq> num_val b"
proof -
  obtain r where b: "b = Float r" and r: "of_int (trunc_rat r) \<noteq> r \<or> 2 ^ 127 \<le> \<bar>r\<bar>"
    using assms integer_of_None[of b] by auto
  have "\<exists>k. as_f64 a = Fin (of_int k) \<and> \<bar>k\<bar> < 2 ^ 127"
  proof (cases "is_float a")
    case True
    then obtain q where a: "a = Float q"
      by (cases a) simp_all
    with assms(2) have q: "q = of_int i"
      by (auto simp: integer_of_def split: if_splits)
    have "rat_of_int \<bar>i\<bar> < rat_of_int (2 ^ 127)"
      using integer_of_bound[OF assms(1,2)] by simp
    then have "\<bar>i\<bar> < 2 ^ 127"
      by (simp only: of_int_less_iff)
    then show ?thesis
      using a q by auto
  next
    case False
    then obtain j where j: "\<bar>j\<bar> < 2 ^ 64" "as_f64 a = round_f64 (of_int j)"
      using num_val_int_bound assms by blast
    obtain k where "round_f64 (of_int j) = Fin (of_int k)" "\<bar>k\<bar> < 2 ^ 66"
      using round_f64_int[OF j(1)] .
    then show ?thesis
      using j(2) by (intro exI[of _ k]) simp
  qed
  then obtain k where k: "as_f64 a = Fin (of_int k)" "\<bar>k\<bar> < 2 ^ 127" by blast
  have "rat_of_int \<bar>k\<bar> < rat_of_int (2 ^ 127)"
    using k(2) by (simp only: of_int_less_iff)
  then have "of_int k \<noteq> r"
    using r by auto
  then show "\<not> f64_eq (as_f64 a) (as_f64 b)" "\<not> f64_eq (as_f64 b) (as_f64 a)"
    using k by (auto simp: b f64_eq_def)
  show "num_val a \<noteq> num_val b"
    using integer_of_Some[OF assms(1,2)] integer_of_bound[OF assms(1,2)] r by (auto simp: b)
qed

lemma num_eq_exact:
  assumes "num_ok a" "num_ok b"
  shows "num_eq a b \<longleftrightarrow> num_val a = num_val b"
proof (cases "integer_of a"; cases "integer_of b")
  assume n: "integer_of a = None" "integer_of b = None"
  then obtain r q where "a = Float r" "b = Float q"
    using assms by (auto simp: integer_of_None)
  with n show ?thesis
    by (auto simp: num_eq_def f64_eq_def)
next
  fix i assume "integer_of a = None" "integer_of b = Some i"
  then show ?thesis
    using f64_eq_mixed[of b i a] assms by (simp add: num_eq_def)
next
  fix i assume "integer_of a = Some i" "integer_of b = None"
  then show ?thesis
    using f64_eq_mixed[of a i b] assms by (simp add: num_eq_def)
next
  fix i j assume "integer_of a = Some i" "integer_of b = Some j"
  then show ?thesis
    using integer_of_Some[of a i] integer_of_Some[of b j] assms by (simp add: num_eq_def)
qed

text \<open>The value with every number replaced by the rational it denotes.\<close>

fun json_norm :: "json \<Rightarrow> json" where
  "json_norm (JNumber n) = JNumber (Float (num_val n))"
| "json_norm (JArray vs) = JArray (map json_norm vs)"
| "json_norm (JObject kvs) = JObject (map (\<lambda>p. (fst p, json_norm (snd p))) kvs)"
| "json_norm v = v"

lemma json_norm_atoms [simp]:
  "json_norm v = JNull \<longleftrightarrow> v = JNull" "JNull = json_norm v \<longleftrightarrow> v = JNull"
  "json_norm v = JBool b \<longleftrightarrow> v = JBool b" "JBool b = json_norm v \<longleftrightarrow> v = JBool b"
  "json_norm v = JString t \<longleftrightarrow> v = JString t" "JString t = json_norm v \<longleftrightarrow> v = JString t"
  by (cases v; auto)+

lemma map_eq_zip:
  "map f a = map f b \<longleftrightarrow> length a = length b \<and> (\<forall>p\<in>set (zip a b). f (fst p) = f (snd p))"
  by (induction a b rule: list_induct2') auto

lemma map_of_norm:
  "map_of (map (\<lambda>p. (fst p, json_norm (snd p))) m) k = map_option json_norm (map_of m k)"
  by (induction m) auto

lemma bt_ok_map_snd: "bt_ok m \<Longrightarrow> bt_ok (map (\<lambda>p. (fst p, f (snd p))) m)"
  by (simp add: bt_ok_def comp_def)

lemma norm_object_eq:
  assumes "bt_ok a" "bt_ok b"
  shows "map (\<lambda>p. (fst p, json_norm (snd p))) a = map (\<lambda>p. (fst p, json_norm (snd p))) b \<longleftrightarrow>
     length a = length b
     \<and> (\<forall>p\<in>set a. case map_of b (fst p) of None \<Rightarrow> False | Some w \<Rightarrow> json_norm (snd p) = json_norm w)"
    (is "?l \<longleftrightarrow> ?r")
proof
  assume l: ?l
  then have len: "length a = length b"
    by (metis length_map)
  have "map_option json_norm (map_of b (fst p)) = Some (json_norm (snd p))" if "p \<in> set a" for p
  proof -
    have "map_of a (fst p) = Some (snd p)"
      using that bt_ok_distinct[OF assms(1)] by simp
    then show ?thesis
      using arg_cong[OF l, of "\<lambda>m. map_of m (fst p)"] by (simp add: map_of_norm)
  qed
  then show ?r
    using len by (fastforce split: option.splits)
next
  assume r: ?r
  have "map_of b (fst p) \<noteq> None" if "p \<in> set a" for p
    using bspec[OF conjunct2[OF r] that] by (auto split: option.splits)
  then have sub: "fst ` set a \<subseteq> fst ` set b"
    by (auto simp: map_of_eq_None_iff)
  have "card (fst ` set a) = length a" "card (fst ` set b) = length b"
    using bt_ok_distinct[OF assms(1)] bt_ok_distinct[OF assms(2)]
    by (metis distinct_card length_map list.set_map)+
  then have keys: "fst ` set a = fst ` set b"
    using sub r by (intro card_subset_eq) auto
  have "map_option json_norm (map_of a k) = map_option json_norm (map_of b k)" for k
  proof (cases "map_of a k")
    case None
    then have "k \<notin> fst ` set b"
      using keys by (simp add: map_of_eq_None_iff)
    then show ?thesis
      using None by (simp add: map_of_eq_None_iff[THEN iffD2])
  next
    case (Some v)
    then have "(k, v) \<in> set a"
      by (rule map_of_SomeD)
    then show ?thesis
      using bspec[OF conjunct2[OF r]] Some by (fastforce split: option.splits)
  qed
  then show ?l
    using assms by (intro bt_ext bt_ok_map_snd) (auto simp: map_of_norm)
qed

text \<open>
  C25: JSON equality of field assertions is equality of the values up to how their
  numbers are represented: two values are equal exactly when replacing every number by
  the rational it denotes makes them the same value.  In particular it is an
  equivalence, distinguishes booleans from numbers, and compares integers beyond the
  53 bits of a double exactly.
\<close>

theorem json_eq_exact:
  "json_ok a \<Longrightarrow> json_ok b \<Longrightarrow> json_eq a b \<longleftrightarrow> json_norm a = json_norm b"
proof (induction a b rule: json_eq.induct)
  case (1 a b)
  then show ?case
    by (simp add: num_eq_exact)
next
  case (2 a b)
  have "json_eq (fst p) (snd p) \<longleftrightarrow> json_norm (fst p) = json_norm (snd p)"
    if "p \<in> set (zip a b)" for p
    using 2(1)[OF that] 2(2,3) that by (cases p) (auto dest: set_zip_leftD set_zip_rightD)
  then show ?case
    by (simp add: map_eq_zip)
next
  case (3 a b)
  have "json_eq (snd p) w \<longleftrightarrow> json_norm (snd p) = json_norm w"
    if "p \<in> set a" "map_of b (fst p) = Some w" for p w
    using 3(1)[OF that] 3(2,3) that by (auto dest!: map_of_SomeD)
  then have "(\<forall>p\<in>set a. case map_of b (fst p) of None \<Rightarrow> False | Some w \<Rightarrow> json_eq (snd p) w)
      \<longleftrightarrow> (\<forall>p\<in>set a. case map_of b (fst p) of None \<Rightarrow> False | Some w \<Rightarrow> json_norm (snd p) = json_norm w)"
    by (intro ball_cong) (auto split: option.splits)
  then show ?case
    using 3(2,3) by (simp add: norm_object_eq)
qed auto

theorem json_eq_exact_witness:
  "json_eq (JObject [(''a'', JNumber (PosInt 9007199254740993))])
           (JObject [(''a'', JNumber (Float 9007199254740992))])
   \<longleftrightarrow> json_norm (JObject [(''a'', JNumber (PosInt 9007199254740993))])
       = json_norm (JObject [(''a'', JNumber (Float 9007199254740992))])"
  by (rule json_eq_exact)
     (simp_all add: num_ok_def bt_ok_def round_f64_exact is_f64_int[of 9007199254740992, simplified])

end
