(* ===== verification/Engine.thy ===== *)
theory Engine
  imports Schema
begin

text \<open>
  The schema comparison of a push (\<^verbatim>\<open>detect_destructive_changes\<close>) and the carry-over of
  the trigram flag (\<^verbatim>\<open>grandfather_trgm\<close>) of \<^verbatim>\<open>core/src/engine.rs\<close>.  The error string is
  the datatype of the reasons it names.
\<close>

datatype destructive =
    RemovedTable string
  | RemovedField string string
  | ChangedFieldType string string
  | RemovedIndex string
  | ChangedIndexFields string
  | ChangedIndexKind string
  | ChangedIndexVector string
  | ChangedIndexUnique string
  | ChangedIndexWhere string
  | ChangedIndexLanguage string

definition check_field_change ::
  "string \<Rightarrow> table_def \<Rightarrow> string \<times> field_type \<Rightarrow> destructive + unit" where
  "check_field_change table_name new_table p =
     (case map_of (td_fields new_table) (fst p) of
        None \<Rightarrow> Inl (RemovedField table_name (fst p))
      | Some new_ty \<Rightarrow>
          if is_type_change_rejected (snd p) new_ty
          then Inl (ChangedFieldType table_name (fst p)) else Inr ())"

definition check_index_change :: "table_def \<Rightarrow> index_def \<Rightarrow> destructive + unit" where
  "check_index_change new_table old_index =
     (case find (\<lambda>ix. ix_name ix = ix_name old_index) (td_indexes new_table) of
        None \<Rightarrow> Inl (RemovedIndex (ix_name old_index))
      | Some new_index \<Rightarrow>
          if ix_fields new_index \<noteq> ix_fields old_index
          then Inl (ChangedIndexFields (ix_name old_index))
          else if ix_search new_index \<noteq> ix_search old_index
          then Inl (ChangedIndexKind (ix_name old_index))
          else if ix_vector new_index \<noteq> ix_vector old_index
          then Inl (ChangedIndexVector (ix_name old_index))
          else if ix_unique new_index \<noteq> ix_unique old_index
          then Inl (ChangedIndexUnique (ix_name old_index))
          else if ix_where new_index \<noteq> ix_where old_index
          then Inl (ChangedIndexWhere (ix_name old_index))
          else if ix_language new_index \<noteq> ix_language old_index
          then Inl (ChangedIndexLanguage (ix_name old_index))
          else Inr ())"

definition detect_destructive_changes :: "schema_def \<Rightarrow> schema_def \<Rightarrow> destructive + unit" where
  "detect_destructive_changes old new =
     eachE (\<lambda>(table_name, old_table).
       case map_of (sd_tables new) table_name of
         None \<Rightarrow> Inl (RemovedTable table_name)
       | Some new_table \<Rightarrow>
           bindE (eachE (check_field_change table_name new_table) (td_fields old_table))
             (\<lambda>_. eachE (check_index_change new_table) (td_indexes old_table)))
       (sd_tables old)"

definition grandfather_index :: "table_def \<Rightarrow> index_def \<Rightarrow> index_def" where
  "grandfather_index old_table new_index =
     (if ix_search new_index \<and> \<not> ix_trgm new_index
         \<and> list_ex (\<lambda>old_index. ix_name old_index = ix_name new_index \<and> ix_search old_index)
             (td_indexes old_table)
      then new_index\<lparr>ix_trgm := True\<rparr> else new_index)"

definition grandfather_table :: "schema_def \<Rightarrow> string \<times> table_def \<Rightarrow> string \<times> table_def" where
  "grandfather_table old p =
     (case map_of (sd_tables old) (fst p) of
        None \<Rightarrow> p
      | Some old_table \<Rightarrow>
          (fst p, (snd p)\<lparr>td_indexes := map (grandfather_index old_table) (td_indexes (snd p))\<rparr>))"

definition grandfather_trgm :: "schema_def option \<Rightarrow> schema_def \<Rightarrow> schema_def" where
  "grandfather_trgm old new =
     (case old of
        None \<Rightarrow> new
      | Some old \<Rightarrow> new\<lparr>sd_tables := map (grandfather_table old) (sd_tables new)\<rparr>)"

section \<open>Facts\<close>

lemma is_type_change_rejected_refl [simp]: "\<not> is_type_change_rejected t t"
  by (simp add: is_type_change_rejected.simps)

lemma check_index_change_ok_iff:
  "check_index_change nt oi = Inr () \<longleftrightarrow>
   (\<exists>ni. find (\<lambda>ix. ix_name ix = ix_name oi) (td_indexes nt) = Some ni
         \<and> ni\<lparr>ix_trgm := ix_trgm oi\<rparr> = oi)"
proof (cases "find (\<lambda>ix. ix_name ix = ix_name oi) (td_indexes nt)")
  case (Some ni)
  then have "ix_name ni = ix_name oi"
    by (auto simp: find_Some_iff)
  then have "ni\<lparr>ix_trgm := ix_trgm oi\<rparr> = oi \<longleftrightarrow>
      ix_fields ni = ix_fields oi \<and> ix_search ni = ix_search oi \<and> ix_vector ni = ix_vector oi
      \<and> ix_unique ni = ix_unique oi \<and> ix_where ni = ix_where oi \<and> ix_language ni = ix_language oi"
    by (cases ni, cases oi) auto
  then show ?thesis
    by (simp add: check_index_change_def Some)
qed (simp add: check_index_change_def)

lemma detect_ok_iff:
  "detect_destructive_changes old new = Inr () \<longleftrightarrow>
   (\<forall>(t, ot)\<in>set (sd_tables old). \<exists>nt. map_of (sd_tables new) t = Some nt
      \<and> (\<forall>(f, oty)\<in>set (td_fields ot).
            \<exists>nty. map_of (td_fields nt) f = Some nty \<and> \<not> is_type_change_rejected oty nty)
      \<and> (\<forall>oi\<in>set (td_indexes ot). check_index_change nt oi = Inr ()))"
  by (fastforce simp: detect_destructive_changes_def check_field_change_def
      split: option.splits if_splits)

lemma grandfather_index_simps [simp]:
  "ix_name (grandfather_index ot ix) = ix_name ix"
  "ix_fields (grandfather_index ot ix) = ix_fields ix"
  "ix_search (grandfather_index ot ix) = ix_search ix"
  "ix_vector (grandfather_index ot ix) = ix_vector ix"
  "ix_unique (grandfather_index ot ix) = ix_unique ix"
  "ix_where (grandfather_index ot ix) = ix_where ix"
  "ix_language (grandfather_index ot ix) = ix_language ix"
  by (simp_all add: grandfather_index_def)

lemma grandfather_index_idem: "grandfather_index ot (grandfather_index ot ix) = grandfather_index ot ix"
  by (simp add: grandfather_index_def)

lemma find_map: "find P (map f xs) = map_option f (find (P \<circ> f) xs)"
  by (induction xs) auto

lemma fst_grandfather_table [simp]: "fst (grandfather_table old p) = fst p"
  by (simp add: grandfather_table_def split: option.splits)

lemma grandfather_table_idem: "grandfather_table old (grandfather_table old p) = grandfather_table old p"
  by (auto simp: grandfather_table_def comp_def grandfather_index_idem split: option.splits)

lemma map_of_grandfather:
  "map_of (map (grandfather_table old) ts) k
   = map_option (\<lambda>t. snd (grandfather_table old (k, t))) (map_of ts k)"
  by (induction ts) (auto simp: grandfather_table_def split: option.splits)

lemma check_grandfathered:
  "check_field_change n (snd (grandfather_table old (k, t))) = check_field_change n t"
  "check_index_change (snd (grandfather_table old (k, t))) = check_index_change t"
  by (auto simp: grandfather_table_def check_field_change_def check_index_change_def find_map
      comp_def fun_eq_iff split: option.splits)

lemma detect_grandfathered:
  "detect_destructive_changes s (grandfather_trgm old new) = detect_destructive_changes s new"
proof -
  have "detect_destructive_changes s (grandfather_trgm (Some o') new) = detect_destructive_changes s new"
    for o'
    unfolding detect_destructive_changes_def grandfather_trgm_def
    by (rule eachE_cong[OF refl])
       (auto simp: map_of_grandfather check_grandfathered split: option.splits)
  then show ?thesis
    by (cases old) (simp_all add: grandfather_trgm_def)
qed


end
