(* ===== verification/Store.thy ===== *)
theory Store
  imports Value_Expr Mutation Field_Guard Engine
begin

text \<open>
  The state of \<^verbatim>\<open>InMemoryRtDbClient\<close> (\<^verbatim>\<open>rust-client/src/in_memory/mod.rs\<close>) and its write
  primitives: id minting, stamping, unique indexes, insert, patch, replace, delete,
  soft delete and undelete of one row, the index lookup and the filter scan.  The
  injected clock and random source are streams; the state counts the reads, so that
  two reads in one method are two elements of the stream.
\<close>

section \<open>State\<close>

record stored_row =
  row_id :: string
  row_doc :: doc
  row_version :: int
  row_created_at :: int
  row_deleted_at :: "int option"

text \<open>\<^verbatim>\<open>last_error\<close> holds the error's code in place of its message.\<close>

record scheduled_job =
  job_id :: string
  job_kind :: schedule_kind
  job_txn :: transaction
  job_due_at :: int
  job_cron :: "string option"
  job_tz :: "string option"
  job_every_ms :: "int option"
  job_status :: schedule_status
  job_created_at :: int
  job_fired_count :: int
  job_last_error :: "error_code option"
  job_external :: bool
  job_missed_count :: int
  job_last_missed_at :: "int option"

datatype step_result =
    RUpsert string bool
  | RUpsertMany "string list" "bool list"
  | RInsertMany "string list"
  | RInsert string
  | RPatchByQuery nat bool
  | RDeleteByQuery nat bool
  | RSchedule string
  | RCancelled bool
  | RWorkflowId string
  | RNull

type_synonym row_key = "string \<times> string"

record client =
  c_now :: "nat \<Rightarrow> int"
  c_now_reads :: nat
  c_random :: "nat \<Rightarrow> f64"
  c_random_reads :: nat
  c_schema :: "schema_def option"
  c_read_only :: bool
  c_tables :: "(string \<times> table_def) list"
  c_docs :: "(row_key \<times> stored_row) list"
  c_auto_increment_counters :: "(string \<times> int) list"
  c_idempotency :: "(string \<times> step_result list) list"
  c_schedules :: "scheduled_job list"

type_synonym 'a m = "(client, error_code, 'a) meth"

definition new_client :: "(nat \<Rightarrow> int) \<Rightarrow> (nat \<Rightarrow> f64) \<Rightarrow> client" where
  "new_client now random =
     \<lparr>c_now = now, c_now_reads = 0, c_random = random, c_random_reads = 0, c_schema = None,
      c_read_only = False, c_tables = [], c_docs = [], c_auto_increment_counters = [],
      c_idempotency = [], c_schedules = []\<rparr>"

definition MAX_STEPS :: nat where "MAX_STEPS = 1024"
definition MAX_TAKE :: nat where "MAX_TAKE = 4096"
definition MAX_BY_QUERY_ROWS :: nat where "MAX_BY_QUERY_ROWS = 1000"
definition MAX_BY_QUERY_STEPS_PER_TXN :: nat where "MAX_BY_QUERY_STEPS_PER_TXN = 16"
definition MAX_AFFECTED_ROWS_PER_TXN :: nat where "MAX_AFFECTED_ROWS_PER_TXN = 10000"
definition MAX_CASCADE_ROWS :: nat where "MAX_CASCADE_ROWS = 10000"
definition CRON_STEP_MS :: int where "CRON_STEP_MS = 60000"
definition MAX_EVERY_MS :: int where "MAX_EVERY_MS = 365 * 24 * 60 * 60 * 1000"

definition check_bulk_len :: "nat \<Rightarrow> unit res" where
  "check_bulk_len len = (if MAX_BY_QUERY_ROWS < len then Inl BadRequest else Inr ())"

section \<open>Clock, random source and ids\<close>

definition read_now :: "int m" where
  "read_now s = (Inr (c_now s (c_now_reads s)), s\<lparr>c_now_reads := Suc (c_now_reads s)\<rparr>)"

definition read_random :: "f64 m" where
  "read_random s = (Inr (c_random s (c_random_reads s)), s\<lparr>c_random_reads := Suc (c_random_reads s)\<rparr>)"

text \<open>\<^verbatim>\<open>f.floor() as u32 & 0xF\<close>: saturating, then the low four bits.\<close>

fun low_nibble :: "f64 \<Rightarrow> nat" where
  "low_nibble (Fin r) = (if r < 0 then 0 else nat (min (2 ^ 32 - 1) \<lfloor>r\<rfloor>) mod 16)"
| "low_nibble PInf = 15"
| "low_nibble NInf = 0"
| "low_nibble NaN = 0"

definition hex_char :: "nat \<Rightarrow> char" where
  "hex_char d = (if d < 10 then char_of (48 + d) else char_of (87 + d))"

definition hex_of_random :: "f64 \<Rightarrow> char m" where
  "hex_of_random r = returnM (hex_char (low_nibble (f64_mul r (Fin 16))))"

definition random_hex :: "nat \<Rightarrow> string m" where
  "random_hex count = mapM (\<lambda>_. bindM read_random hex_of_random) [0..<count]"

text \<open>\<open>w\<close> hexadecimal digits of \<open>n\<close>, most significant first.\<close>

fun hex_digits :: "nat \<Rightarrow> nat \<Rightarrow> string" where
  "hex_digits 0 n = []"
| "hex_digits (Suc w) n = hex_digits w (n div 16) @ [hex_char (n mod 16)]"

definition mint_id :: "int \<Rightarrow> string \<Rightarrow> string m" where
  "mint_id now rand = returnM (hex_digits 12 (nat (now mod 2 ^ 48)) @ ''7'' @ rand)"

definition new_id :: "string m" where
  "new_id = bindM read_now (\<lambda>now. bindM (random_hex 19) (mint_id now))"

lemma id_runs [code]:
  "hex_of_random r s = (Inr (hex_char (low_nibble (f64_mul r (Fin 16)))), s)"
  "mint_id now rand s = (Inr (hex_digits 12 (nat (now mod 2 ^ 48)) @ ''7'' @ rand), s)"
  by (simp_all add: hex_of_random_def mint_id_def run_simps)

section \<open>Lookups\<close>

definition require_table :: "client \<Rightarrow> string \<Rightarrow> table_def res" where
  "require_table s name =
     (case map_of (c_tables s) name of None \<Rightarrow> Inl NotFound | Some td \<Rightarrow> Inr td)"

definition is_live :: "stored_row \<Rightarrow> bool" where
  "is_live row \<longleftrightarrow> row_deleted_at row = None"

definition live_row :: "client \<Rightarrow> string \<Rightarrow> string \<Rightarrow> stored_row option" where
  "live_row s table i =
     (case map_of (c_docs s) (table, i) of
        None \<Rightarrow> None
      | Some row \<Rightarrow> if is_live row then Some row else None)"

definition require_live :: "client \<Rightarrow> string \<Rightarrow> string \<Rightarrow> stored_row res" where
  "require_live s table i =
     (case live_row s table i of None \<Rightarrow> Inl NotFound | Some row \<Rightarrow> Inr row)"

definition require_index :: "table_def \<Rightarrow> string \<Rightarrow> index_def res" where
  "require_index td name =
     (case find (\<lambda>ix. ix_name ix = name) (td_indexes td) of
        None \<Rightarrow> Inl BadRequest
      | Some ix \<Rightarrow> Inr ix)"

definition eq_matches :: "string list \<Rightarrow> json list \<Rightarrow> doc \<Rightarrow> bool" where
  "eq_matches fs typed d =
     list_all (\<lambda>(field, tv).
        case map_of d field of Some v \<Rightarrow> \<not> is_null v \<and> v = tv | None \<Rightarrow> False) (zip fs typed)"

definition eq_lookup ::
  "client \<Rightarrow> table_def \<Rightarrow> string \<Rightarrow> string \<Rightarrow> json list \<Rightarrow> stored_row list res" where
  "eq_lookup s td table index_name eq =
     bindE (require_index td index_name) (\<lambda>index.
       if length eq \<noteq> length (ix_fields index) then Inl BadRequest
       else bindE (mapE (\<lambda>(field, v). coerce_index_value td field v) (zip (ix_fields index) eq))
              (\<lambda>typed.
                 Inr (map snd (filter (\<lambda>((t, i), row).
                        t = table \<and> is_live row \<and> eq_matches (ix_fields index) typed (row_doc row))
                      (c_docs s)))))"

section \<open>Unique indexes\<close>

text \<open>The index's predicate, and the key it assigns to a document; \<open>None\<close> where the
  index does not constrain it.\<close>

definition unique_key :: "ext \<Rightarrow> table_def \<Rightarrow> index_def \<Rightarrow> doc \<Rightarrow> json list option" where
  "unique_key x td index d =
     (if (case ix_where index of Some p \<Rightarrow> eval_filter_expr x p d (td_fields td) | None \<Rightarrow> True)
      then collect_index_key (ix_fields index) (JObject d) else None)"

definition collides ::
  "ext \<Rightarrow> table_def \<Rightarrow> string \<Rightarrow> index_def \<Rightarrow> json list \<Rightarrow> string option \<Rightarrow> row_key \<times> stored_row \<Rightarrow> bool" where
  "collides x td table index key exclude_id e =
     (fst (fst e) = table \<and> exclude_id \<noteq> Some (row_id (snd e)) \<and> is_live (snd e)
      \<and> unique_key x td index (row_doc (snd e)) = Some key)"

definition check_unique_indexes ::
  "ext \<Rightarrow> client \<Rightarrow> table_def \<Rightarrow> string \<Rightarrow> doc \<Rightarrow> string option \<Rightarrow> unit res" where
  "check_unique_indexes x s td table d exclude_id =
     eachE (\<lambda>index.
        case unique_key x td index d of
          None \<Rightarrow> Inr ()
        | Some key \<Rightarrow>
            if list_ex (collides x td table index key exclude_id) (c_docs s)
            then Inl Conflict else Inr ())
       (filter ix_unique (td_indexes td))"

section \<open>Writing one row\<close>

definition put_row :: "row_key \<Rightarrow> stored_row \<Rightarrow> client \<Rightarrow> client" where
  "put_row k row s = s\<lparr>c_docs := hm_insert k row (c_docs s)\<rparr>"

definition drop_row :: "row_key \<Rightarrow> client \<Rightarrow> client" where
  "drop_row k s = s\<lparr>c_docs := hm_remove k (c_docs s)\<rparr>"

text \<open>\<^verbatim>\<open>if let Some(row) = self.docs.get_mut(&key) { .. }\<close>\<close>

definition update_row :: "row_key \<Rightarrow> (stored_row \<Rightarrow> stored_row) \<Rightarrow> client \<Rightarrow> client" where
  "update_row k f s =
     (case map_of (c_docs s) k of None \<Rightarrow> s | Some row \<Rightarrow> put_row k (f row) s)"

definition bump :: "stored_row \<Rightarrow> stored_row" where
  "bump row = row\<lparr>row_version := wrap64 (row_version row + 1)\<rparr>"

definition do_update :: "ext \<Rightarrow> table_def \<Rightarrow> string \<Rightarrow> string \<Rightarrow> doc \<Rightarrow> unit m" where
  "do_update x td table i merged =
     bindM (askM (\<lambda>s. check_unique_indexes x s td table merged (Some i))) (\<lambda>_.
     modifyM (update_row (table, i) (\<lambda>row. bump (row\<lparr>row_doc := merged\<rparr>))))"

definition stored_counters :: "client \<Rightarrow> string \<Rightarrow> string \<Rightarrow> int list" where
  "stored_counters s table field =
     List.map_filter (\<lambda>((t, i), row).
        if t = table then (case map_of (row_doc row) field of Some v \<Rightarrow> int64_of v | None \<Rightarrow> None)
        else None) (c_docs s)"

definition stamp_auto_increment :: "string \<Rightarrow> table_def \<Rightarrow> doc \<Rightarrow> doc m" where
  "stamp_auto_increment table td d =
     (case td_auto_increment_field td of
        None \<Rightarrow> returnM d
      | Some field \<Rightarrow>
          bindM (getM (\<lambda>s.
             case map_of (c_auto_increment_counters s) table of
               Some counter \<Rightarrow> wrap64 (counter + 1)
             | None \<Rightarrow>
                 let vs = stored_counters s table field
                 in wrap64 ((if vs = [] then 0 else Max (set vs)) + 1))) (\<lambda>next.
          bindM (modifyM (\<lambda>s. s\<lparr>c_auto_increment_counters :=
                    hm_insert table next (c_auto_increment_counters s)\<rparr>)) (\<lambda>_.
          returnM (bt_insert field (JString (int_to_string next)) d))))"

definition do_insert :: "ext \<Rightarrow> string \<Rightarrow> table_def \<Rightarrow> doc \<Rightarrow> string m" where
  "do_insert x table td d =
     bindM read_now (\<lambda>now.
     let stamped = apply_defaults td (stamp_updated_at td (stamp_ttl_default td d now) now)
     in bindM (stamp_auto_increment table td stamped) (\<lambda>stamped.
        bindM (liftM (stamp_computed x td stamped now)) (\<lambda>stamped.
        bindM (liftM (validate_doc x td (JObject stamped))) (\<lambda>_.
        let stored = strip_unset_optionals td stamped
        in bindM (askM (\<lambda>s. check_unique_indexes x s td table stored None)) (\<lambda>_.
           bindM new_id (\<lambda>i.
           bindM read_now (\<lambda>created.
           bindM (modifyM (put_row (table, i)
                    \<lparr>row_id = i, row_doc = stored, row_version = 1, row_created_at = created,
                     row_deleted_at = None\<rparr>)) (\<lambda>_.
           returnM i))))))))"

definition do_patch :: "ext \<Rightarrow> table_def \<Rightarrow> string \<Rightarrow> string \<Rightarrow> doc \<Rightarrow> unit m" where
  "do_patch x td table i patch =
     bindM (askM (\<lambda>s. require_live s table i)) (\<lambda>row.
     bindM read_now (\<lambda>now.
     bindM (liftM (apply_patch x td (row_doc row) (stamp_updated_at td patch now) now)) (\<lambda>merged.
     do_update x td table i merged)))"

text \<open>The auto-increment field of a replacement: filled from the stored row, or equal to it.\<close>

definition keep_auto_increment :: "table_def \<Rightarrow> doc \<Rightarrow> doc \<Rightarrow> doc res" where
  "keep_auto_increment td prev_doc stamped =
     (case td_auto_increment_field td of
        None \<Rightarrow> Inr stamped
      | Some auto \<Rightarrow>
          (case map_of prev_doc auto of
             None \<Rightarrow> Inr stamped
           | Some prev \<Rightarrow>
               (case map_of stamped auto of
                  None \<Rightarrow> Inr (bt_insert auto prev stamped)
                | Some v \<Rightarrow>
                    if is_null v then Inr (bt_insert auto prev stamped)
                    else if v \<noteq> prev then Inl BadRequest
                    else Inr stamped)))"

definition drop_computed :: "table_def \<Rightarrow> doc \<Rightarrow> doc" where
  "drop_computed td d = fold (\<lambda>(name, e). bt_remove name) (td_computed td) d"

definition do_replace :: "ext \<Rightarrow> table_def \<Rightarrow> string \<Rightarrow> string \<Rightarrow> doc \<Rightarrow> unit m" where
  "do_replace x td table i d =
     bindM (askM (\<lambda>s. require_live s table i)) (\<lambda>row.
     bindM read_now (\<lambda>now.
     bindM (liftM (keep_auto_increment td (row_doc row) (stamp_updated_at td (apply_defaults td d) now)))
       (\<lambda>stamped.
     bindM read_now (\<lambda>now'.
     bindM (liftM (stamp_computed x td (drop_computed td stamped) now')) (\<lambda>stamped.
     bindM (liftM (validate_doc x td (JObject stamped))) (\<lambda>_.
     let stored = strip_unset_optionals td stamped
     in bindM (askM (\<lambda>s. check_unique_indexes x s td table stored (Some i))) (\<lambda>_.
        modifyM (update_row (table, i) (\<lambda>row. bump (row\<lparr>row_doc := stored\<rparr>)))))))))) "

definition do_delete :: "string \<Rightarrow> string \<Rightarrow> unit m" where
  "do_delete table i =
     bindM (askM (\<lambda>s. case map_of (c_docs s) (table, i) of None \<Rightarrow> Inl NotFound | Some row \<Rightarrow> Inr row))
       (\<lambda>_. modifyM (drop_row (table, i)))"

definition do_soft_delete :: "string \<Rightarrow> string \<Rightarrow> unit m" where
  "do_soft_delete table i =
     bindM (askM (\<lambda>s. require_live s table i)) (\<lambda>_.
     bindM read_now (\<lambda>now.
     modifyM (update_row (table, i) (\<lambda>row. bump (row\<lparr>row_deleted_at := Some now\<rparr>)))))"

definition do_undelete :: "ext \<Rightarrow> table_def \<Rightarrow> string \<Rightarrow> string \<Rightarrow> unit m" where
  "do_undelete x td table i =
     (if \<not> td_soft_delete td then throwM BadRequest
      else
        bindM (askM (\<lambda>s. case map_of (c_docs s) (table, i) of None \<Rightarrow> Inl NotFound | Some row \<Rightarrow> Inr row))
          (\<lambda>row.
             if is_live row then returnM ()
             else
               bindM (askM (\<lambda>s. check_unique_indexes x s td table (row_doc row) (Some i))) (\<lambda>_.
               modifyM (update_row (table, i) (\<lambda>row. bump (row\<lparr>row_deleted_at := None\<rparr>))))))"

definition do_expect_version :: "client \<Rightarrow> string \<Rightarrow> string \<Rightarrow> int \<Rightarrow> unit res" where
  "do_expect_version s table i expected =
     bindE (require_live s table i) (\<lambda>row.
       ensure (row_version row = expected) PreconditionFailed)"

section \<open>Filter scans\<close>

text \<open>\<^verbatim>\<open>sort_by\<close> on \<open>(created_at, id)\<close>.\<close>

definition scan_key :: "stored_row \<Rightarrow> int \<times> string" where
  "scan_key row = (row_created_at row, row_id row)"

fun insert_by_scan_key :: "stored_row \<Rightarrow> stored_row list \<Rightarrow> stored_row list" where
  "insert_by_scan_key r [] = [r]"
| "insert_by_scan_key r (q # qs) =
     (if row_created_at r < row_created_at q
         \<or> (row_created_at r = row_created_at q \<and> row_id r \<le> row_id q)
      then r # q # qs else q # insert_by_scan_key r qs)"

definition sort_by_scan_key :: "stored_row list \<Rightarrow> stored_row list" where
  "sort_by_scan_key rows = foldr insert_by_scan_key rows []"

definition scan_ids_by_filter ::
  "ext \<Rightarrow> table_def \<Rightarrow> string \<Rightarrow> filter_expr \<Rightarrow> nat option \<Rightarrow> (string list \<times> bool) m" where
  "scan_ids_by_filter x td table f limit_opt =
     bindM (liftM (validate_by_query_filter f td)) (\<lambda>_.
     bindM read_now (\<lambda>now.
     getM (\<lambda>s.
       let limit = min (case limit_opt of None \<Rightarrow> MAX_BY_QUERY_ROWS | Some l \<Rightarrow> l) MAX_BY_QUERY_ROWS;
           matching = sort_by_scan_key (map snd (filter (\<lambda>((t, i), row).
             t = table \<and> is_live row \<and> eval_filter_expr_at x f (row_doc row) (td_fields td) now)
             (c_docs s)))
       in (map row_id (take limit matching), limit < length matching))))"

end
