(* ===== verification/Query.thy ===== *)
theory Query
  imports Store
begin

text \<open>
  The read query of \<^verbatim>\<open>core/src/query.rs\<close> with its terminals' parameters, the rules on which
  clauses may be combined (\<^verbatim>\<open>core/src/query_combinations.rs\<close> with the table
  \<^verbatim>\<open>core/wire-corpus/query-combinations.json\<close> embedded in it) and the pagination cursor
  (\<^verbatim>\<open>rust-client/src/cursor.rs\<close>).  A rule's message is not modelled, its code is
  \<^verbatim>\<open>BAD_REQUEST\<close> throughout the table.
\<close>

section \<open>The query\<close>

record paginate =
  pg_cursor :: "string option"
  pg_num_items :: nat

datatype search_rank_mode = TsRank | TsRankCd

datatype search_mode = Tsquery | Trgm

record search_query =
  sq_index :: string
  sq_query :: string
  sq_filter :: "filter_expr option"
  sq_mode :: "search_mode option"
  sq_snippet :: "bool option"
  sq_rank_mode :: "search_rank_mode option"
  sq_min_similarity :: "f64 option"

record vector_search_query =
  vq_index :: string
  vq_vector :: "f64 list"
  vq_limit :: nat
  vq_filter :: "filter_expr option"

record hybrid_search_query =
  hq_query :: string
  hq_vector :: "f64 list"
  hq_limit :: nat
  hq_search_index :: "string option"
  hq_vector_index :: "string option"
  hq_k :: "nat option"

datatype group_by = GroupBool bool | GroupFields "string list"

record having_cmp =
  hv_eq :: "f64 option"
  hv_ne :: "f64 option"
  hv_gt :: "f64 option"
  hv_gte :: "f64 option"
  hv_lt :: "f64 option"
  hv_lte :: "f64 option"

record aggregate_spec =
  ag_op :: "aggregate_op option"
  ag_aggregates :: "(string \<times> aggregate_op) list option"
  ag_group_by :: group_by
  ag_having :: "(string \<times> having_cmp) list option"

record lookup_spec =
  lk_field :: string
  lk_table :: string
  lk_as :: string
  lk_cap :: "nat option"

record query =
  q_table :: string
  q_get :: "string option"
  q_index :: "string option"
  q_eq :: "json list"
  q_gt :: "json option"
  q_gte :: "json option"
  q_lt :: "json option"
  q_lte :: "json option"
  q_order :: "order option"
  q_take :: "nat option"
  q_unique :: bool
  q_first :: bool
  q_count :: bool
  q_distinct :: bool
  q_aggregate :: "aggregate_spec option"
  q_paginate :: "paginate option"
  q_filter :: "filter_expr option"
  q_search :: "search_query option"
  q_vector_search :: "vector_search_query option"
  q_hybrid_search :: "hybrid_search_query option"
  q_fields :: "string list option"
  q_lookups :: "lookup_spec list"

definition table_query :: "string \<Rightarrow> query" where
  "table_query t =
     \<lparr>q_table = t, q_get = None, q_index = None, q_eq = [], q_gt = None, q_gte = None, q_lt = None,
      q_lte = None, q_order = None, q_take = None, q_unique = False, q_first = False,
      q_count = False, q_distinct = False, q_aggregate = None, q_paginate = None, q_filter = None,
      q_search = None, q_vector_search = None, q_hybrid_search = None, q_fields = None,
      q_lookups = []\<rparr>"

datatype bound_op = OpEq | OpNe | OpGt | OpGte | OpLt | OpLte

definition having_bounds :: "having_cmp \<Rightarrow> (bound_op \<times> f64) list" where
  "having_bounds h =
     List.map_filter (\<lambda>(p, v). map_option (Pair p) v)
       [(OpEq, hv_eq h), (OpNe, hv_ne h), (OpGt, hv_gt h), (OpGte, hv_gte h), (OpLt, hv_lt h),
        (OpLte, hv_lte h)]"

fun bound_holds :: "f64 \<Rightarrow> bound_op \<times> f64 \<Rightarrow> bool" where
  "bound_holds v (OpEq, b) = f64_eq v b"
| "bound_holds v (OpNe, b) = (\<not> f64_eq v b)"
| "bound_holds v (OpGt, b) = f64_lt b v"
| "bound_holds v (OpGte, b) = f64_le b v"
| "bound_holds v (OpLt, b) = f64_lt v b"
| "bound_holds v (OpLte, b) = f64_le v b"

definition having_matches :: "having_cmp \<Rightarrow> f64 \<Rightarrow> bool" where
  "having_matches h v = list_all (bound_holds v) (having_bounds h)"

section \<open>Clause combinations\<close>

definition query_clauses :: "query \<Rightarrow> string list" where
  "query_clauses q =
     map fst (filter snd
       [(''get'', q_get q \<noteq> None), (''index'', q_index q \<noteq> None), (''eq'', q_eq q \<noteq> []),
        (''gt'', q_gt q \<noteq> None), (''gte'', q_gte q \<noteq> None), (''lt'', q_lt q \<noteq> None),
        (''lte'', q_lte q \<noteq> None), (''order'', q_order q \<noteq> None), (''take'', q_take q \<noteq> None),
        (''unique'', q_unique q), (''first'', q_first q), (''count'', q_count q),
        (''distinct'', q_distinct q), (''aggregate'', q_aggregate q \<noteq> None),
        (''paginate'', q_paginate q \<noteq> None), (''filter'', q_filter q \<noteq> None),
        (''search'', q_search q \<noteq> None), (''vectorSearch'', q_vector_search q \<noteq> None),
        (''hybridSearch'', q_hybrid_search q \<noteq> None), (''lookups'', q_lookups q \<noteq> [])])"

datatype rule = Forbid "string list" | AtMostOne "string list"

definition RULES :: "rule list" where
  "RULES =
     [
      AtMostOne [''aggregate'', ''count'', ''distinct'', ''first'', ''get'', ''paginate'', ''take'', ''unique''],
      AtMostOne [''hybridSearch'', ''search'', ''vectorSearch''], Forbid [''get'', ''index''],
      Forbid [''eq'', ''get''], Forbid [''get'', ''gt''], Forbid [''get'', ''gte''], Forbid [''get'', ''lt''],
      Forbid [''get'', ''lte''], Forbid [''get'', ''order''], Forbid [''filter'', ''get''],
      Forbid [''get'', ''search''], Forbid [''get'', ''vectorSearch''], Forbid [''get'', ''hybridSearch''],
      Forbid [''order'', ''unique''], Forbid [''count'', ''order''], Forbid [''distinct'', ''order''],
      Forbid [''distinct'', ''search''], Forbid [''distinct'', ''vectorSearch''],
      Forbid [''distinct'', ''hybridSearch''], Forbid [''aggregate'', ''order''],
      Forbid [''aggregate'', ''search''], Forbid [''aggregate'', ''vectorSearch''],
      Forbid [''aggregate'', ''hybridSearch''], Forbid [''gt'', ''gte''], Forbid [''lt'', ''lte''],
      Forbid [''index'', ''vectorSearch''], Forbid [''eq'', ''vectorSearch''],
      Forbid [''gt'', ''vectorSearch''], Forbid [''gte'', ''vectorSearch''],
      Forbid [''lt'', ''vectorSearch''], Forbid [''lte'', ''vectorSearch''],
      Forbid [''order'', ''vectorSearch''], Forbid [''unique'', ''vectorSearch''],
      Forbid [''first'', ''vectorSearch''], Forbid [''count'', ''vectorSearch''],
      Forbid [''filter'', ''vectorSearch''], Forbid [''take'', ''vectorSearch''],
      Forbid [''hybridSearch'', ''index''], Forbid [''eq'', ''hybridSearch''],
      Forbid [''gt'', ''hybridSearch''], Forbid [''gte'', ''hybridSearch''],
      Forbid [''hybridSearch'', ''lt''], Forbid [''hybridSearch'', ''lte''],
      Forbid [''hybridSearch'', ''order''], Forbid [''hybridSearch'', ''take''],
      Forbid [''hybridSearch'', ''unique''], Forbid [''first'', ''hybridSearch''],
      Forbid [''count'', ''hybridSearch''], Forbid [''filter'', ''hybridSearch''],
      Forbid [''index'', ''search''], Forbid [''eq'', ''search''], Forbid [''gt'', ''search''],
      Forbid [''gte'', ''search''], Forbid [''lt'', ''search''], Forbid [''lte'', ''search''],
      Forbid [''order'', ''search''], Forbid [''search'', ''unique''], Forbid [''first'', ''search''],
      Forbid [''count'', ''search''], Forbid [''filter'', ''search''], Forbid [''lookups'', ''count''],
      Forbid [''lookups'', ''distinct''], Forbid [''lookups'', ''aggregate'']]"

fun forbid_violated :: "string list \<Rightarrow> rule \<Rightarrow> bool" where
  "forbid_violated present (Forbid clauses) = list_all (\<lambda>c. c \<in> set present) clauses"
| "forbid_violated present (AtMostOne clauses) = False"

fun at_most_one_violated :: "string list \<Rightarrow> rule \<Rightarrow> bool" where
  "at_most_one_violated present (Forbid clauses) = False"
| "at_most_one_violated present (AtMostOne clauses) = (1 < length (filter (\<lambda>c. c \<in> set present) clauses))"

text \<open>The first violated rule: every \<open>Forbid\<close> before any \<open>AtMostOne\<close>.\<close>

definition rule_violation :: "string list \<Rightarrow> rule option" where
  "rule_violation present =
     (case find (forbid_violated present) RULES of
        Some r \<Rightarrow> Some r
      | None \<Rightarrow> find (at_most_one_violated present) RULES)"

definition check_query_combinations :: "query \<Rightarrow> unit res" where
  "check_query_combinations q =
     (case rule_violation (query_clauses q) of None \<Rightarrow> Inr () | Some r \<Rightarrow> Inl BadRequest)"

section \<open>Cursors\<close>

definition encode_cursor :: "ext \<Rightarrow> json list \<Rightarrow> string" where
  "encode_cursor x vs = b64_encode x (json_text x (JArray vs))"

definition decode_cursor :: "ext \<Rightarrow> string \<Rightarrow> json list res" where
  "decode_cursor x s =
     (case b64_decode x s of
        None \<Rightarrow> Inl Internal
      | Some bytes \<Rightarrow>
          (case json_parse x bytes of
             Some (JArray vs) \<Rightarrow> Inr vs
           | _ \<Rightarrow> Inl Internal))"

end
