(* ===== verification/Scan.thy ===== *)
theory Scan
  imports Query
begin

text \<open>
  The scan behind every indexed read of \<^verbatim>\<open>rust-client/src/in_memory/query.rs\<close>: resolving the
  index and its bounds, fetching the rows, sorting them, and the terminals that need
  nothing else: count, distinct, collect and keyset pagination.
\<close>

section \<open>Documents\<close>

definition merge_doc :: "stored_row \<Rightarrow> doc" where
  "merge_doc row =
     bt_insert ''_version'' (json_of_int (row_version row))
       (bt_insert ''_creationTime'' (json_of_int (row_created_at row))
         (bt_insert ''_id'' (JString (row_id row)) (row_doc row)))"

definition get_doc :: "client \<Rightarrow> string \<Rightarrow> string \<Rightarrow> doc option" where
  "get_doc s table i = map_option merge_doc (live_row s table i)"

definition live_rows :: "client \<Rightarrow> string \<Rightarrow> stored_row list" where
  "live_rows s table = map snd (filter (\<lambda>((t, i), row). t = table \<and> is_live row) (c_docs s))"

definition collect_all :: "client \<Rightarrow> string \<Rightarrow> doc list" where
  "collect_all s table = map merge_doc (live_rows s table)"

section \<open>Planning\<close>

definition column_pg :: "table_def \<Rightarrow> string \<Rightarrow> pg_type" where
  "column_pg td field =
     (case map_of (td_fields td) field of
        None \<Rightarrow> Text
      | Some ty \<Rightarrow> (case index_column_type ty of Inl _ \<Rightarrow> Text | Inr it \<Rightarrow> it_pg it))"

record scan_plan =
  sp_index :: "index_def option"
  sp_typed_eq :: "json list"
  sp_range_field :: "string option"
  sp_range_pg :: pg_type
  sp_gt :: "json option"
  sp_gte :: "json option"
  sp_lt :: "json option"
  sp_lte :: "json option"

definition has_range :: "query \<Rightarrow> bool" where
  "has_range q \<longleftrightarrow> q_gt q \<noteq> None \<or> q_gte q \<noteq> None \<or> q_lt q \<noteq> None \<or> q_lte q \<noteq> None"

definition coerce_bound :: "table_def \<Rightarrow> string option \<Rightarrow> json option \<Rightarrow> json option res" where
  "coerce_bound td rf v =
     (case (v, rf) of
        (Some v, Some f) \<Rightarrow> bindE (coerce_index_value td f v) (\<lambda>v. Inr (Some v))
      | _ \<Rightarrow> Inr None)"

definition prepare_scan :: "query \<Rightarrow> table_def \<Rightarrow> scan_plan res" where
  "prepare_scan q td =
     bindE (case q_index q of
              Some name \<Rightarrow> bindE (require_index td name) (\<lambda>ix. Inr (Some ix))
            | None \<Rightarrow> if q_eq q \<noteq> [] then Inl BadRequest else Inr None) (\<lambda>index.
     bindE (case index of
              Some ix \<Rightarrow> ensure (length (q_eq q) \<le> length (ix_fields ix)) BadRequest
            | None \<Rightarrow> Inr ()) (\<lambda>_.
     bindE (case index of
              Some ix \<Rightarrow> mapE (\<lambda>(field, v). coerce_index_value td field v) (zip (ix_fields ix) (q_eq q))
            | None \<Rightarrow> Inr []) (\<lambda>typed_eq.
     bindE (if \<not> has_range q then Inr None
            else (case index of
                    None \<Rightarrow> Inl BadRequest
                  | Some ix \<Rightarrow>
                      if length (ix_fields ix) \<le> length (q_eq q) then Inl BadRequest
                      else Inr (Some (ix_fields ix ! length (q_eq q))))) (\<lambda>range_field.
     bindE (coerce_bound td range_field (q_gt q)) (\<lambda>gt.
     bindE (coerce_bound td range_field (q_gte q)) (\<lambda>gte.
     bindE (coerce_bound td range_field (q_lt q)) (\<lambda>lt.
     bindE (coerce_bound td range_field (q_lte q)) (\<lambda>lte.
     bindE (case q_filter q of Some f \<Rightarrow> validate_filter f td | None \<Rightarrow> Inr ()) (\<lambda>_.
     Inr \<lparr>sp_index = index, sp_typed_eq = typed_eq, sp_range_field = range_field,
          sp_range_pg = (case range_field of Some f \<Rightarrow> column_pg td f | None \<Rightarrow> Text),
          sp_gt = gt, sp_gte = gte, sp_lt = lt, sp_lte = lte\<rparr>)))))))))"

section \<open>Fetching\<close>

definition in_bounds :: "scan_plan \<Rightarrow> json \<Rightarrow> bool" where
  "in_bounds plan v \<longleftrightarrow>
     (case sp_gt plan of Some b \<Rightarrow> compare_index_values v b (sp_range_pg plan) = Greater | None \<Rightarrow> True)
     \<and> (case sp_gte plan of Some b \<Rightarrow> compare_index_values v b (sp_range_pg plan) \<noteq> Less | None \<Rightarrow> True)
     \<and> (case sp_lt plan of Some b \<Rightarrow> compare_index_values v b (sp_range_pg plan) = Less | None \<Rightarrow> True)
     \<and> (case sp_lte plan of Some b \<Rightarrow> compare_index_values v b (sp_range_pg plan) \<noteq> Greater | None \<Rightarrow> True)"

definition row_selected :: "ext \<Rightarrow> query \<Rightarrow> scan_plan \<Rightarrow> table_def \<Rightarrow> doc \<Rightarrow> bool" where
  "row_selected x q plan td d \<longleftrightarrow>
     (case sp_index plan of Some ix \<Rightarrow> eq_matches (ix_fields ix) (sp_typed_eq plan) d | None \<Rightarrow> True)
     \<and> (case sp_range_field plan of
          None \<Rightarrow> True
        | Some f \<Rightarrow> (case map_of d f of Some v \<Rightarrow> \<not> is_null v \<and> in_bounds plan v | None \<Rightarrow> False))
     \<and> (case q_filter q of None \<Rightarrow> True | Some e \<Rightarrow> matches_filter x e d (td_fields td))"

definition fetch_filtered_rows ::
  "ext \<Rightarrow> client \<Rightarrow> query \<Rightarrow> scan_plan \<Rightarrow> table_def \<Rightarrow> stored_row list" where
  "fetch_filtered_rows x s q plan td =
     filter (\<lambda>row. row_selected x q plan td (row_doc row)) (live_rows s (q_table q))"

section \<open>Sorting\<close>

text \<open>A stable sort by a three-way comparison.\<close>

fun insert_by :: "('a \<Rightarrow> 'a \<Rightarrow> ordering) \<Rightarrow> 'a \<Rightarrow> 'a list \<Rightarrow> 'a list" where
  "insert_by c a [] = [a]"
| "insert_by c a (b # bs) = (if c a b = Greater then b # insert_by c a bs else a # b # bs)"

definition sort_by :: "('a \<Rightarrow> 'a \<Rightarrow> ordering) \<Rightarrow> 'a list \<Rightarrow> 'a list" where
  "sort_by c xs = foldr (insert_by c) xs []"

fun first_diff :: "ordering list \<Rightarrow> ordering" where
  "first_diff [] = Equal"
| "first_diff (r # rs) = (if r = Equal then first_diff rs else r)"

definition unbound_fields :: "scan_plan \<Rightarrow> string list" where
  "unbound_fields plan =
     (case sp_index plan of Some ix \<Rightarrow> drop (length (sp_typed_eq plan)) (ix_fields ix) | None \<Rightarrow> [])"

definition field_or_null :: "doc \<Rightarrow> string \<Rightarrow> json" where
  "field_or_null d f = (case map_of d f of Some v \<Rightarrow> v | None \<Rightarrow> JNull)"

definition compare_rows :: "table_def \<Rightarrow> scan_plan \<Rightarrow> order \<Rightarrow> stored_row \<Rightarrow> stored_row \<Rightarrow> ordering" where
  "compare_rows td plan dir a b =
     dir_order (first_diff
       (map (\<lambda>f. compare_index_values (field_or_null (row_doc a) f) (field_or_null (row_doc b) f) (column_pg td f))
          (unbound_fields plan)
        @ [cmp (row_created_at a) (row_created_at b), cmp (row_id a) (row_id b)])) dir"

definition sort_filtered_rows :: "table_def \<Rightarrow> scan_plan \<Rightarrow> order \<Rightarrow> stored_row list \<Rightarrow> stored_row list" where
  "sort_filtered_rows td plan dir rows = sort_by (compare_rows td plan dir) rows"

section \<open>Pagination\<close>

datatype sort_col = ColIndex string | ColCreatedAt | ColId

fun sort_value :: "stored_row \<Rightarrow> sort_col \<Rightarrow> json" where
  "sort_value row ColCreatedAt = json_of_int (row_created_at row)"
| "sort_value row ColId = JString (row_id row)"
| "sort_value row (ColIndex field) = field_or_null (row_doc row) field"

fun col_type :: "table_def \<Rightarrow> sort_col \<Rightarrow> pg_type" where
  "col_type td (ColIndex field) = column_pg td field"
| "col_type td ColCreatedAt = Number"
| "col_type td ColId = Text"

fun validate_cursor_value :: "table_def \<Rightarrow> sort_col \<Rightarrow> json \<Rightarrow> unit res" where
  "validate_cursor_value td (ColIndex field) v =
     (if is_null v then Inr () else bindE (coerce_index_value td field v) (\<lambda>_. Inr ()))"
| "validate_cursor_value td ColCreatedAt v = ensure (is_number v) BadRequest"
| "validate_cursor_value td ColId v = ensure (is_string v) BadRequest"

definition validate_cursor_values :: "json list \<Rightarrow> sort_col list \<Rightarrow> table_def \<Rightarrow> unit res" where
  "validate_cursor_values vs cols td = eachE (\<lambda>(col, v). validate_cursor_value td col v) (zip cols vs)"

definition keyset_is_after :: "json list \<Rightarrow> json list \<Rightarrow> pg_type list \<Rightarrow> order \<Rightarrow> bool" where
  "keyset_is_after row_values cursor_values col_types dir =
     list_ex (\<lambda>i.
        list_all (\<lambda>j. compare_index_values (row_values ! j) (cursor_values ! j) (col_types ! j) = Equal) [0..<i]
        \<and> compare_index_values (row_values ! i) (cursor_values ! i) (col_types ! i)
            = (case dir of Asc \<Rightarrow> Greater | Desc \<Rightarrow> Less))
       [0..<length row_values]"

definition is_after_cursor ::
  "stored_row \<Rightarrow> json list \<Rightarrow> sort_col list \<Rightarrow> pg_type list \<Rightarrow> order \<Rightarrow> bool" where
  "is_after_cursor row cursor_values cols col_types dir =
     keyset_is_after (map (sort_value row) cols) cursor_values col_types dir"

definition cursor_values :: "ext \<Rightarrow> string option \<Rightarrow> nat \<Rightarrow> (json list \<Rightarrow> unit res) \<Rightarrow> json list option res" where
  "cursor_values x cursor n validate =
     (case cursor of
        None \<Rightarrow> Inr None
      | Some c \<Rightarrow>
          (case decode_cursor x c of
             Inl _ \<Rightarrow> Inl BadRequest
           | Inr decoded \<Rightarrow>
               if length decoded \<noteq> n then Inl BadRequest
               else bindE (validate decoded) (\<lambda>_. Inr (Some decoded))))"

definition page_envelope :: "doc list \<Rightarrow> string option \<Rightarrow> json" where
  "page_envelope docs next =
     JObject (case next of
                None \<Rightarrow> [(''docs'', JArray (map JObject docs))]
              | Some c \<Rightarrow> [(''docs'', JArray (map JObject docs)), (''nextCursor'', JString c)])"

definition paginate_result ::
  "ext \<Rightarrow> paginate \<Rightarrow> table_def \<Rightarrow> stored_row list \<Rightarrow> sort_col list \<Rightarrow> pg_type list \<Rightarrow> order \<Rightarrow> json res" where
  "paginate_result x pag td ordered cols col_types dir =
     bindE (cursor_values x (pg_cursor pag) (length cols) (\<lambda>vs. validate_cursor_values vs cols td)) (\<lambda>cv.
       let num_items = min (pg_num_items pag) MAX_TAKE;
           rows = (case cv of
                     Some vs \<Rightarrow> filter (\<lambda>row. is_after_cursor row vs cols col_types dir) ordered
                   | None \<Rightarrow> ordered);
           page = take num_items rows;
           next = (if num_items < length rows \<and> page \<noteq> []
                   then Some (encode_cursor x (map (sort_value (last page)) cols)) else None)
       in Inr (page_envelope (map merge_doc page) next))"

definition sort_cols :: "scan_plan \<Rightarrow> sort_col list" where
  "sort_cols plan = map ColIndex (unbound_fields plan) @ [ColCreatedAt, ColId]"

definition execute_paginate_terminal ::
  "ext \<Rightarrow> paginate \<Rightarrow> table_def \<Rightarrow> stored_row list \<Rightarrow> scan_plan \<Rightarrow> order \<Rightarrow> json res" where
  "execute_paginate_terminal x pag td rows plan dir =
     paginate_result x pag td rows (sort_cols plan) (map (col_type td) (sort_cols plan)) dir"

section \<open>Count, distinct and collect\<close>

definition execute_count_terminal :: "stored_row list \<Rightarrow> json res" where
  "execute_count_terminal rows = Inr (json_of_int (int (length rows)))"

text \<open>The first of the values with each text form, in the order of the rows.\<close>

fun dedup_by :: "('a \<Rightarrow> 'b) \<Rightarrow> 'b list \<Rightarrow> 'a list \<Rightarrow> 'a list" where
  "dedup_by key seen [] = []"
| "dedup_by key seen (v # vs) =
     (if key v \<in> set seen then dedup_by key seen vs else v # dedup_by key (key v # seen) vs)"

definition execute_distinct_terminal ::
  "ext \<Rightarrow> table_def \<Rightarrow> index_def option \<Rightarrow> json list \<Rightarrow> stored_row list \<Rightarrow> json res" where
  "execute_distinct_terminal x td index typed_eq rows =
     (case index of
        None \<Rightarrow> Inl BadRequest
      | Some ix \<Rightarrow>
          if length (ix_fields ix) \<le> length typed_eq then Inl BadRequest
          else
            let field = ix_fields ix ! length typed_eq;
                pg = column_pg td field;
                values = dedup_by (json_text x) [] (map (\<lambda>row. field_or_null (row_doc row) field) rows)
            in Inr (JArray (take MAX_TAKE (sort_by (\<lambda>a b. compare_index_values a b pg) values))))"

definition first_or_null :: "stored_row list \<Rightarrow> json" where
  "first_or_null rows = (case rows of [] \<Rightarrow> JNull | row # _ \<Rightarrow> JObject (merge_doc row))"

definition execute_collect_terminal :: "query \<Rightarrow> stored_row list \<Rightarrow> json res" where
  "execute_collect_terminal q rows =
     (if q_unique q
      then if 1 < length rows then Inl PreconditionFailed else Inr (first_or_null rows)
      else if q_first q then Inr (first_or_null rows)
      else
        let limit = (case q_take q of Some t \<Rightarrow> t | None \<Rightarrow> MAX_TAKE)
        in Inr (JArray (map (JObject \<circ> merge_doc) (take limit rows))))"

end
