(* ===== verification/Aggregates.thy ===== *)
theory Aggregates
  imports Scan
begin

text \<open>
  The aggregate terminal of \<^verbatim>\<open>rust-client/src/in_memory/query.rs\<close>: the scalar and grouped
  forms of one operation, the map of operations over a list of group fields, and the
  \<^verbatim>\<open>having\<close> filter with the cap on the number of groups.
\<close>

section \<open>Definitions\<close>

fun op_name :: "aggregate_op \<Rightarrow> string" where
  "op_name Sum = ''sum''"
| "op_name Avg = ''avg''"
| "op_name MinOp = ''min''"
| "op_name MaxOp = ''max''"
| "op_name CountOp = ''count''"

text \<open>The operation on values of which there is at least one, null otherwise.\<close>

definition aggregate_or_null :: "aggregate_op \<Rightarrow> json list \<Rightarrow> pg_type \<Rightarrow> json" where
  "aggregate_or_null op vs pg =
     (if vs = [] then JNull
      else (case apply_aggregate op vs pg of Some v \<Rightarrow> v | None \<Rightarrow> JNull))"

definition non_null_values :: "stored_row list \<Rightarrow> string \<Rightarrow> json list" where
  "non_null_values rows field =
     filter (\<lambda>v. \<not> is_null v) (List.map_filter (\<lambda>row. map_of (row_doc row) field) rows)"

text \<open>Grouping rows by a key, in the order in which the keys appear.\<close>

fun add_to_group :: "'k \<Rightarrow> 'a \<Rightarrow> ('k \<times> 'a list) list \<Rightarrow> ('k \<times> 'a list) list" where
  "add_to_group k a [] = [(k, [a])]"
| "add_to_group k a ((k', as) # gs) =
     (if k = k' then (k', as @ [a]) # gs else (k', as) # add_to_group k a gs)"

definition group_rows :: "('a \<Rightarrow> 'k) \<Rightarrow> 'a list \<Rightarrow> ('k \<times> 'a list) list" where
  "group_rows key rows = foldl (\<lambda>gs r. add_to_group (key r) r gs) [] rows"

fun having_op :: "aggregate_spec \<Rightarrow> string \<Rightarrow> aggregate_op option" where
  "having_op agg name =
     (case ag_aggregates agg of
        Some m \<Rightarrow> map_of m name
      | None \<Rightarrow> (case ag_op agg of Some p \<Rightarrow> if op_name p = name then Some p else None | None \<Rightarrow> None))"

definition check_having_entry :: "aggregate_spec \<Rightarrow> bool \<Rightarrow> string \<times> having_cmp \<Rightarrow> unit res" where
  "check_having_entry agg numeric_agg e =
     (case having_op agg (fst e) of
        None \<Rightarrow> Inl BadRequest
      | Some p \<Rightarrow>
          if having_bounds (snd e) = [] then Inl BadRequest
          else ensure (p = CountOp \<or> numeric_agg) BadRequest)"

definition having_cell :: "json \<Rightarrow> string \<Rightarrow> f64 option" where
  "having_cell row name =
     (case (case (case json_get row ''values'' of Some vs \<Rightarrow> json_get vs name | None \<Rightarrow> None) of
              Some v \<Rightarrow> Some v
            | None \<Rightarrow> json_get row ''value'') of
        Some (JNumber n) \<Rightarrow> Some (as_f64 n)
      | Some (JString s) \<Rightarrow> parse_f64 s
      | _ \<Rightarrow> None)"

definition having_row :: "(string \<times> having_cmp) list \<Rightarrow> json \<Rightarrow> bool" where
  "having_row having row =
     list_all (\<lambda>(name, h). case having_cell row name of Some v \<Rightarrow> having_matches h v | None \<Rightarrow> False) having"

definition finish_groups :: "aggregate_spec \<Rightarrow> json list \<Rightarrow> bool \<Rightarrow> bool \<Rightarrow> json res" where
  "finish_groups agg rows numeric_agg grouped =
     bindE (case ag_having agg of
              None \<Rightarrow> Inr rows
            | Some having \<Rightarrow>
                if \<not> grouped then Inl BadRequest
                else if having = [] then Inl BadRequest
                else bindE (eachE (check_having_entry agg numeric_agg) having) (\<lambda>_.
                       Inr (filter (having_row having) rows))) (\<lambda>rows.
       Inr (if MAX_TAKE < length rows
            then JObject [(''groups'', JArray (take MAX_TAKE rows)), (''truncated'', JBool True)]
            else JArray rows))"

subsection \<open>Several operations\<close>

definition multi_ops :: "aggregate_spec \<Rightarrow> (string \<times> aggregate_op) list res" where
  "multi_ops agg =
     (case ag_aggregates agg of
        Some m \<Rightarrow> Inr m
      | None \<Rightarrow> (case ag_op agg of None \<Rightarrow> Inl BadRequest | Some p \<Rightarrow> Inr [(op_name p, p)]))"

definition multi_group_fields :: "aggregate_spec \<Rightarrow> index_def \<Rightarrow> nat \<Rightarrow> string list" where
  "multi_group_fields agg ix eq_len =
     (case ag_group_by agg of
        GroupBool False \<Rightarrow> []
      | GroupBool True \<Rightarrow> take 1 (drop eq_len (ix_fields ix))
      | GroupFields fs \<Rightarrow> fs)"

text \<open>\<^verbatim>\<open>position(..)\<close>: the first index.\<close>

definition position_of :: "'a list \<Rightarrow> 'a \<Rightarrow> nat option" where
  "position_of xs a =
     (let n = length (takeWhile (\<lambda>b. b \<noteq> a) xs) in if n < length xs then Some n else None)"

definition check_group_field :: "index_def \<Rightarrow> nat \<Rightarrow> string \<Rightarrow> unit res" where
  "check_group_field ix eq_len field =
     (case position_of (ix_fields ix) field of
        None \<Rightarrow> Inl BadRequest
      | Some p \<Rightarrow> ensure (eq_len \<le> p) BadRequest)"

definition eval_op :: "pg_type \<Rightarrow> aggregate_op \<Rightarrow> json list \<Rightarrow> json" where
  "eval_op pg op vs =
     (if op = CountOp then json_of_int (int (length vs)) else aggregate_or_null op vs pg)"

definition group_key_text :: "ext \<Rightarrow> string list \<Rightarrow> stored_row \<Rightarrow> string" where
  "group_key_text x fs row =
     str_join (CHR 0x5C # ''u{1f}'') (map (\<lambda>f. json_text x (field_or_null (row_doc row) f)) fs)"

definition group_output ::
  "(string \<times> aggregate_op) list \<Rightarrow> string list \<Rightarrow> string option \<Rightarrow> pg_type \<Rightarrow> stored_row list \<Rightarrow> json" where
  "group_output ops fs agg_field pg rows =
     JObject [(''keys'', JArray (map (\<lambda>f. field_or_null (row_doc (hd rows)) f) fs)),
       (''values'', JObject (fold (\<lambda>(alias, op).
          bt_insert alias
            (if op = CountOp then json_of_int (int (length rows))
             else eval_op pg op (case agg_field of Some f \<Rightarrow> non_null_values rows f | None \<Rightarrow> [])))
          ops []))]"

definition output_keys :: "json \<Rightarrow> json list" where
  "output_keys row = (case json_get row ''keys'' of Some (JArray ks) \<Rightarrow> ks | _ \<Rightarrow> [])"

definition compare_keys :: "json list \<Rightarrow> json list \<Rightarrow> ordering" where
  "compare_keys ks ls = first_diff (map (\<lambda>(k, l). compare_index_values k l Text) (zip ks ls))"

definition aggregate_multi_op ::
  "ext \<Rightarrow> aggregate_spec \<Rightarrow> index_def \<Rightarrow> nat \<Rightarrow> table_def \<Rightarrow> stored_row list \<Rightarrow> json res" where
  "aggregate_multi_op x agg ix eq_len td rows =
     bindE (multi_ops agg) (\<lambda>ops.
     let fs = multi_group_fields agg ix eq_len;
         needs_field = list_ex (\<lambda>(alias, op). op \<noteq> CountOp) ops;
         agg_field = (if needs_field then find (\<lambda>f. f \<notin> set fs) (drop eq_len (ix_fields ix)) else None);
         pg = (case agg_field of Some f \<Rightarrow> column_pg td f | None \<Rightarrow> Text);
         numeric_agg = (pg = Number \<or> pg = Int64)
     in bindE (ensure (\<not> (ag_group_by agg = GroupFields [])) BadRequest) (\<lambda>_.
        bindE (eachE (check_group_field ix eq_len) fs) (\<lambda>_.
        bindE (ensure (needs_field \<longrightarrow> agg_field \<noteq> None) BadRequest) (\<lambda>_.
          if fs = []
          then bindE (finish_groups agg [] True False) (\<lambda>_.
                 let vs = (case agg_field of Some f \<Rightarrow> non_null_values rows f | None \<Rightarrow> [])
                 in Inr (JObject (fold (\<lambda>(alias, op). bt_insert alias (eval_op pg op vs)) ops [])))
          else
            let groups = map snd (group_rows (group_key_text x fs) rows);
                output = sort_by (\<lambda>a b. compare_keys (output_keys a) (output_keys b))
                           (map (group_output ops fs agg_field pg) groups)
            in finish_groups agg output numeric_agg True))))"

subsection \<open>One operation\<close>

definition key_value :: "json \<Rightarrow> json \<Rightarrow> json" where
  "key_value k v = JObject [(''key'', k), (''value'', v)]"

definition sort_key_values :: "pg_type \<Rightarrow> (json \<times> json) list \<Rightarrow> json list" where
  "sort_key_values pg kvs =
     map (\<lambda>(k, v). key_value k v) (sort_by (\<lambda>a b. compare_index_values (fst a) (fst b) pg) kvs)"

definition group_value :: "string \<Rightarrow> stored_row list \<Rightarrow> json" where
  "group_value field rows = field_or_null (row_doc (hd rows)) field"

definition group_by_field :: "ext \<Rightarrow> string \<Rightarrow> stored_row list \<Rightarrow> stored_row list list" where
  "group_by_field x field rows =
     map snd (group_rows (\<lambda>row. json_text x (field_or_null (row_doc row) field)) rows)"

definition legacy_count ::
  "ext \<Rightarrow> aggregate_spec \<Rightarrow> bool \<Rightarrow> index_def \<Rightarrow> nat \<Rightarrow> table_def \<Rightarrow> stored_row list \<Rightarrow> json res" where
  "legacy_count x agg group_by ix eq_len td rows =
     (if \<not> group_by
      then bindE (finish_groups agg [] True False) (\<lambda>_. Inr (json_of_int (int (length rows))))
      else if length (ix_fields ix) \<le> eq_len then Inl BadRequest
      else
        let field = ix_fields ix ! eq_len
        in finish_groups agg
             (sort_key_values (column_pg td field)
                (map (\<lambda>g. (group_value field g, json_of_int (int (length g)))) (group_by_field x field rows)))
             True True)"

definition aggregate_legacy ::
  "ext \<Rightarrow> aggregate_spec \<Rightarrow> index_def \<Rightarrow> nat \<Rightarrow> table_def \<Rightarrow> stored_row list \<Rightarrow> json res" where
  "aggregate_legacy x agg ix eq_len td rows =
     (case (ag_op agg, ag_group_by agg) of
        (Some op, GroupBool group_by) \<Rightarrow>
          if op = CountOp then legacy_count x agg group_by ix eq_len td rows
          else if length (ix_fields ix) \<le> (if group_by then eq_len + 1 else eq_len) then Inl BadRequest
          else
            let agg_field = ix_fields ix ! (if group_by then eq_len + 1 else eq_len);
                pg = column_pg td agg_field
            in if (op = Sum \<or> op = Avg) \<and> pg \<noteq> Number \<and> pg \<noteq> Int64 then Inl BadRequest
               else if group_by
               then
                 let field = ix_fields ix ! eq_len
                 in finish_groups agg
                      (sort_key_values (column_pg td field)
                         (map (\<lambda>g. (group_value field g, aggregate_or_null op (non_null_values g agg_field) pg))
                            (group_by_field x field rows)))
                      (pg = Number \<or> pg = Int64) True
               else bindE (finish_groups agg [] True False) (\<lambda>_.
                      Inr (aggregate_or_null op (non_null_values rows agg_field) pg))
      | _ \<Rightarrow> Inl BadRequest)"

definition execute_aggregate_terminal ::
  "ext \<Rightarrow> aggregate_spec \<Rightarrow> table_def \<Rightarrow> index_def option \<Rightarrow> json list \<Rightarrow> stored_row list \<Rightarrow> json res" where
  "execute_aggregate_terminal x agg td index typed_eq rows =
     (case index of
        None \<Rightarrow> Inl BadRequest
      | Some ix \<Rightarrow>
          if ag_op agg \<noteq> None \<and> ag_aggregates agg \<noteq> None then Inl BadRequest
          else if ag_aggregates agg \<noteq> None \<or> (case ag_group_by agg of GroupFields _ \<Rightarrow> True | _ \<Rightarrow> False)
          then aggregate_multi_op x agg ix (length typed_eq) td rows
          else aggregate_legacy x agg ix (length typed_eq) td rows)"

end
