(* ===== verification/Search.thy ===== *)
theory Search
  imports Scan
begin

text \<open>
  The ranked terminals of \<^verbatim>\<open>rust-client/src/in_memory/query.rs\<close>: the web-search query
  language with its matching, scoring and snippets, substring search, and the keyset
  pagination over a ranking.  Lower-casing is a parameter.
\<close>

section \<open>The web-search language\<close>

datatype search_operand = Term string | Phrase "string list"

record websearch_query =
  ws_groups :: "search_operand list list"
  ws_excluded :: "search_operand list"

text \<open>The state of the parser: what it returns, the group being built, a pending \<^verbatim>\<open>or\<close>.\<close>

record parse_state =
  ps_out :: websearch_query
  ps_current :: "search_operand list"
  ps_or_pending :: bool

text \<open>
  One operand at a position that is not white space: whether it is negated, the operand if
  there is one, and the characters after it.
\<close>

definition next_operand :: "ext \<Rightarrow> string list \<Rightarrow> (bool \<times> search_operand option) \<times> string list" where
  "next_operand x cs =
     (let negated = (case cs of c # _ \<Rightarrow> c = ''-'' | [] \<Rightarrow> False);
          rest = (if negated then tl cs else cs)
      in if negated \<and> (case rest of [] \<Rightarrow> True | c # _ \<Rightarrow> is_whitespace c) then ((True, None), rest)
         else
           (case rest of
              [] \<Rightarrow> ((negated, None), [])
            | c # cs' \<Rightarrow>
                if c = [CHR 0x22]
                then
                  let phrase = concat (takeWhile (\<lambda>d. d \<noteq> [CHR 0x22]) cs');
                      words = map (to_lowercase x) (split_whitespace phrase)
                  in ((negated, if words = [] then None else Some (Phrase words)),
                      drop 1 (dropWhile (\<lambda>d. d \<noteq> [CHR 0x22]) cs'))
                else
                  let ends = (\<lambda>d. is_whitespace d \<or> d = [CHR 0x22]);
                      word = concat (takeWhile (\<lambda>d. \<not> ends d) rest)
                  in ((negated, if word = [] then None else Some (Term (to_lowercase x word))),
                      dropWhile (\<lambda>d. \<not> ends d) rest)))"

definition add_operand :: "bool \<Rightarrow> search_operand \<Rightarrow> parse_state \<Rightarrow> parse_state" where
  "add_operand negated operand st =
     (if \<not> negated \<and> operand = Term ''or''
      then st\<lparr>ps_or_pending := (ps_current st \<noteq> [])\<rparr>
      else if negated
      then st\<lparr>ps_out := (ps_out st)\<lparr>ws_excluded := ws_excluded (ps_out st) @ [operand]\<rparr>\<rparr>
      else if ps_or_pending st
      then st\<lparr>ps_current := ps_current st @ [operand], ps_or_pending := False\<rparr>
      else if ps_current st \<noteq> []
      then st\<lparr>ps_out := (ps_out st)\<lparr>ws_groups := ws_groups (ps_out st) @ [ps_current st]\<rparr>,
              ps_current := [operand]\<rparr>
      else st\<lparr>ps_current := [operand]\<rparr>)"

lemma next_operand_shorter:
  assumes "next_operand x (c # cs) = (r, rest)" "\<not> is_whitespace c"
  shows "length rest < length (c # cs)"
proof -
  have d: "length (dropWhile P ds) \<le> length ds" for P and ds :: "string list"
    by (rule length_dropWhile_le)
  have "length rest \<le> length cs"
    using assms d[of "\<lambda>d. d \<noteq> [CHR 0x22]" cs] d[of "\<lambda>d. d \<noteq> [CHR 0x22]" "tl cs"]
      d[of "\<lambda>d. \<not> (is_whitespace d \<or> d = [CHR 0x22])" cs]
    by (auto simp: next_operand_def Let_def split: if_splits list.splits)
  then show ?thesis
    by simp
qed

function parse_operands :: "ext \<Rightarrow> string list \<Rightarrow> parse_state \<Rightarrow> parse_state" where
  "parse_operands x [] st = st"
| "parse_operands x (c # cs) st =
     (if is_whitespace c then parse_operands x cs st
      else
        (case next_operand x (c # cs) of
           ((negated, None), rest) \<Rightarrow> parse_operands x rest st
         | ((negated, Some operand), rest) \<Rightarrow> parse_operands x rest (add_operand negated operand st)))"
  by pat_completeness auto
termination
  by (relation "measure (\<lambda>(x, cs, st). length cs)") (auto dest!: next_operand_shorter[OF sym])

definition parse_websearch_query :: "ext \<Rightarrow> string \<Rightarrow> websearch_query" where
  "parse_websearch_query x s =
     (let st = parse_operands x (str_chars s)
            \<lparr>ps_out = \<lparr>ws_groups = [], ws_excluded = []\<rparr>, ps_current = [], ps_or_pending = False\<rparr>
      in if ps_current st \<noteq> []
         then (ps_out st)\<lparr>ws_groups := ws_groups (ps_out st) @ [ps_current st]\<rparr>
         else ps_out st)"

section \<open>Matching and scoring\<close>

fun search_operand_matches :: "string list \<Rightarrow> search_operand \<Rightarrow> bool" where
  "search_operand_matches texts (Term t) = list_ex (\<lambda>f. str_contains f t) texts"
| "search_operand_matches texts (Phrase ws) = list_ex (\<lambda>f. str_contains f (str_join '' '' ws)) texts"

definition positive_lexemes :: "websearch_query \<Rightarrow> string list" where
  "positive_lexemes parsed =
     concat (map (\<lambda>p. case p of Term t \<Rightarrow> [t] | Phrase ws \<Rightarrow> ws) (concat (ws_groups parsed)))"

fun fts_stringify :: "ext \<Rightarrow> json option \<Rightarrow> string" where
  "fts_stringify x None = []"
| "fts_stringify x (Some JNull) = []"
| "fts_stringify x (Some (JString s)) = s"
| "fts_stringify x (Some (JBool b)) = (if b then ''true'' else ''false'')"
| "fts_stringify x (Some v) = json_text x v"

definition is_ascii_alphanumeric :: "char \<Rightarrow> bool" where
  "is_ascii_alphanumeric c \<longleftrightarrow> is_digit c \<or> is_alpha c"

definition fts_tokens :: "ext \<Rightarrow> string \<Rightarrow> string list" where
  "fts_tokens x s =
     split_chars (\<lambda>c. \<not> list_all is_ascii_alphanumeric c) [] (map (\<lambda>c. [c]) (to_lowercase x s))"

definition tsquery_score :: "ext \<Rightarrow> doc \<Rightarrow> string list \<Rightarrow> string list \<Rightarrow> int" where
  "tsquery_score x d fs positives =
     int (length (filter (\<lambda>t. t \<in> set positives)
       (fts_tokens x (str_join '' '' (map (\<lambda>f. fts_stringify x (map_of d f)) fs)))))"

definition string_fields :: "doc \<Rightarrow> string list \<Rightarrow> string list" where
  "string_fields d fs = List.map_filter (\<lambda>f. case map_of d f of Some v \<Rightarrow> as_str v | None \<Rightarrow> None) fs"

definition search_field_texts :: "ext \<Rightarrow> doc \<Rightarrow> string list \<Rightarrow> string list" where
  "search_field_texts x d fs = map (to_lowercase x) (string_fields d fs)"

definition websearch_matches :: "websearch_query \<Rightarrow> string list \<Rightarrow> bool" where
  "websearch_matches parsed texts \<longleftrightarrow>
     \<not> list_ex (search_operand_matches texts) (ws_excluded parsed)
     \<and> list_all (list_ex (search_operand_matches texts)) (ws_groups parsed)"

definition snippet_of :: "ext \<Rightarrow> string list \<Rightarrow> string \<Rightarrow> string" where
  "snippet_of x terms text =
     (let marked = (\<lambda>w. list_ex (str_contains (to_lowercase x w)) terms);
          words = split_whitespace text;
          first = (case find (\<lambda>i. marked (words ! i)) [0..<length words] of Some i \<Rightarrow> i | None \<Rightarrow> 0);
          start = first - 15;
          stop = min (start + 35) (length words)
      in str_join '' '' (map (\<lambda>w. if marked w then ''<mark>'' @ w @ ''</mark>'' else w)
           (take (stop - start) (drop start words))))"

definition attach_search_snippets :: "ext \<Rightarrow> string list \<Rightarrow> websearch_query \<Rightarrow> doc list \<Rightarrow> doc list" where
  "attach_search_snippets x fs parsed docs =
     map (\<lambda>d. bt_insert ''_searchSnippet''
        (JString (snippet_of x (positive_lexemes parsed) (str_join '' '' (string_fields d fs)))) d) docs"

section \<open>Ranked rows\<close>

record ranked_row =
  rr_rank :: "json option"
  rr_created_at :: int
  rr_id :: string
  rr_doc :: doc

definition created_at_of :: "doc \<Rightarrow> int" where
  "created_at_of d =
     (case map_of d ''_creationTime'' of
        Some (JNumber n) \<Rightarrow> (case as_i64 n of Some i \<Rightarrow> i | None \<Rightarrow> I64_MIN)
      | _ \<Rightarrow> I64_MIN)"

definition id_of :: "doc \<Rightarrow> string" where
  "id_of d = (case map_of d ''_id'' of Some (JString i) \<Rightarrow> i | _ \<Rightarrow> [])"

definition new_ranked :: "json option \<Rightarrow> doc \<Rightarrow> ranked_row" where
  "new_ranked rank d = \<lparr>rr_rank = rank, rr_created_at = created_at_of d, rr_id = id_of d, rr_doc = d\<rparr>"

definition rank_or_null :: "ranked_row \<Rightarrow> json" where
  "rank_or_null r = (case rr_rank r of Some v \<Rightarrow> v | None \<Rightarrow> JNull)"

definition ranked_keyset :: "bool \<Rightarrow> ranked_row \<Rightarrow> json list" where
  "ranked_keyset has_rank r =
     (if has_rank then [rank_or_null r] else []) @ [json_of_int (rr_created_at r), JString (rr_id r)]"

definition rank_value :: "f64 \<Rightarrow> json res" where
  "rank_value score = (case number_from_f64 score of Some n \<Rightarrow> Inr (JNumber n) | None \<Rightarrow> Inl Internal)"

definition compare_ranked :: "ranked_row \<Rightarrow> ranked_row \<Rightarrow> ordering" where
  "compare_ranked a b =
     first_diff [reverse (compare_index_values (rank_or_null a) (rank_or_null b) Number),
       cmp (rr_created_at b) (rr_created_at a), cmp (rr_id b) (rr_id a)]"

definition sort_ranked_rows :: "ranked_row list \<Rightarrow> ranked_row list" where
  "sort_ranked_rows rows = sort_by compare_ranked rows"

definition ranked_types :: "bool \<Rightarrow> pg_type list" where
  "ranked_types has_rank = (if has_rank then [Number, Number, Text] else [Number, Text])"

definition validate_ranked_cursor_values :: "bool \<Rightarrow> json list \<Rightarrow> unit res" where
  "validate_ranked_cursor_values has_rank vs =
     (let tail = (if has_rank then 1 else 0 :: nat)
      in bindE (ensure (has_rank \<longrightarrow> is_number (vs ! 0)) BadRequest) (\<lambda>_.
         bindE (ensure (is_number (vs ! tail)) BadRequest) (\<lambda>_.
         ensure (is_string (vs ! (tail + 1))) BadRequest)))"

definition paginate_ranked :: "ext \<Rightarrow> paginate \<Rightarrow> ranked_row list \<Rightarrow> bool \<Rightarrow> json res" where
  "paginate_ranked x pag rows has_rank =
     bindE (cursor_values x (pg_cursor pag) (length (ranked_types has_rank)) (validate_ranked_cursor_values has_rank))
       (\<lambda>cv.
       let num_items = min (pg_num_items pag) MAX_TAKE;
           after = (case cv of
                      Some vs \<Rightarrow> filter (\<lambda>r. keyset_is_after (ranked_keyset has_rank r) vs (ranked_types has_rank) Desc) rows
                    | None \<Rightarrow> rows);
           probe = take (num_items + 1) after;
           page = take num_items probe;
           next = (if num_items < length probe \<and> page \<noteq> []
                   then Some (encode_cursor x (ranked_keyset has_rank (last page))) else None)
       in Inr (page_envelope (map rr_doc page) next))"

section \<open>The terminals\<close>

definition MAX_SEARCH_QUERY_BYTES :: nat where "MAX_SEARCH_QUERY_BYTES = 4096"

definition keep_matching :: "ext \<Rightarrow> filter_expr option \<Rightarrow> table_def \<Rightarrow> doc list \<Rightarrow> doc list" where
  "keep_matching x f td docs =
     (case f of Some e \<Rightarrow> filter (\<lambda>d. matches_filter x e d (td_fields td)) docs | None \<Rightarrow> docs)"

definition check_filter :: "filter_expr option \<Rightarrow> table_def \<Rightarrow> unit res" where
  "check_filter f td = (case f of Some e \<Rightarrow> validate_filter e td | None \<Rightarrow> Inr ())"

definition docs_array :: "doc list \<Rightarrow> json" where
  "docs_array docs = JArray (map JObject docs)"

definition execute_vector_search_terminal ::
  "ext \<Rightarrow> client \<Rightarrow> query \<Rightarrow> vector_search_query \<Rightarrow> table_def \<Rightarrow> json res" where
  "execute_vector_search_terminal x s q vector td =
     bindE (check_filter (vq_filter vector) td) (\<lambda>_.
     let rows = keep_matching x (vq_filter vector) td (collect_all s (q_table q))
     in case q_paginate q of
          Some pag \<Rightarrow>
            paginate_ranked x pag (take (vq_limit vector) (sort_ranked_rows (map (new_ranked None) rows))) False
        | None \<Rightarrow> Inr (docs_array (take (vq_limit vector) rows)))"

definition execute_hybrid_search_terminal ::
  "ext \<Rightarrow> client \<Rightarrow> query \<Rightarrow> hybrid_search_query \<Rightarrow> json res" where
  "execute_hybrid_search_terminal x s q hybrid =
     (case q_paginate q of
        Some pag \<Rightarrow> paginate_ranked x pag [] True
      | None \<Rightarrow> Inr (docs_array (take (hq_limit hybrid) (collect_all s (q_table q)))))"

definition check_search :: "search_query \<Rightarrow> table_def \<Rightarrow> index_def res" where
  "check_search search td =
     bindE (ensure (trim (sq_query search) \<noteq> []) BadRequest) (\<lambda>_.
     bindE (ensure (length (sq_query search) \<le> MAX_SEARCH_QUERY_BYTES) BadRequest) (\<lambda>_.
     bindE (case find (\<lambda>ix. ix_name ix = sq_index search \<and> ix_search ix) (td_indexes td) of
              None \<Rightarrow> Inl BadRequest | Some ix \<Rightarrow> Inr ix) (\<lambda>ix.
     bindE (ensure (sq_mode search = Some Trgm \<longrightarrow> ix_trgm ix) BadRequest) (\<lambda>_.
     bindE (ensure (sq_snippet search = Some True \<longrightarrow> sq_mode search \<noteq> Some Trgm) BadRequest) (\<lambda>_.
     bindE (ensure (sq_rank_mode search \<noteq> None \<longrightarrow> sq_mode search \<noteq> Some Trgm) BadRequest) (\<lambda>_.
     bindE (case sq_min_similarity search of
              None \<Rightarrow> Inr ()
            | Some m \<Rightarrow>
                bindE (ensure (sq_mode search = Some Trgm) BadRequest) (\<lambda>_.
                ensure (f64_le (Fin 0) m \<and> f64_le m (Fin 1)) BadRequest)) (\<lambda>_.
     bindE (check_filter (sq_filter search) td) (\<lambda>_.
     Inr ix))))))))"

text \<open>The best similarity of a document's fields; \<open>None\<close> when no field contains the query.\<close>

definition trgm_score :: "ext \<Rightarrow> string \<Rightarrow> string list \<Rightarrow> doc \<Rightarrow> f64 option" where
  "trgm_score x query fs d =
     foldl (\<lambda>best text.
        if str_contains (to_lowercase x text) (to_lowercase x query)
        then let score = (if text = [] then Fin 0
               else f64_div (i64_as_f64 (int (length query))) (i64_as_f64 (int (length text))))
             in Some (case best of None \<Rightarrow> score | Some b \<Rightarrow> if f64_lt b score then score else b)
        else best) None (string_fields d fs)"

definition trgm_hits :: "ext \<Rightarrow> search_query \<Rightarrow> string list \<Rightarrow> doc list \<Rightarrow> (f64 \<times> doc) list" where
  "trgm_hits x search fs docs =
     List.map_filter (\<lambda>d.
        case trgm_score x (sq_query search) fs d of
          Some score \<Rightarrow>
            if (case sq_min_similarity search of None \<Rightarrow> True | Some m \<Rightarrow> f64_le m score)
            then Some (score, d) else None
        | None \<Rightarrow> None) docs"

definition compare_hits :: "f64 \<times> doc \<Rightarrow> f64 \<times> doc \<Rightarrow> ordering" where
  "compare_hits a b =
     first_diff [f64_cmp (fst b) (fst a), cmp (created_at_of (snd b)) (created_at_of (snd a)),
       cmp (id_of (snd b)) (id_of (snd a))]"

definition execute_search_terminal ::
  "ext \<Rightarrow> client \<Rightarrow> query \<Rightarrow> search_query \<Rightarrow> table_def \<Rightarrow> json res" where
  "execute_search_terminal x s q search td =
     bindE (check_search search td) (\<lambda>ix.
     let rows = collect_all s (q_table q); fs = ix_fields ix
     in if sq_mode search = Some Trgm
        then
          let hits = sort_by compare_hits (trgm_hits x search fs (keep_matching x (sq_filter search) td rows))
          in case q_paginate q of
               Some pag \<Rightarrow>
                 bindE (mapE (\<lambda>(score, d). bindE (rank_value score) (\<lambda>v. Inr (new_ranked (Some v) d))) hits)
                   (\<lambda>ranked. paginate_ranked x pag ranked True)
             | None \<Rightarrow>
                 Inr (docs_array (map snd (take (case q_take q of Some t \<Rightarrow> t | None \<Rightarrow> MAX_TAKE) hits)))
        else
          let parsed = parse_websearch_query x (sq_query search);
              hits = keep_matching x (sq_filter search) td
                (filter (\<lambda>d. websearch_matches parsed (search_field_texts x d fs)) rows);
              shown = (if sq_snippet search = Some True then attach_search_snippets x fs parsed hits else hits)
          in case q_paginate q of
               Some pag \<Rightarrow>
                 paginate_ranked x pag
                   (sort_ranked_rows (map (\<lambda>d.
                      new_ranked (Some (json_of_int (tsquery_score x d fs (positive_lexemes parsed)))) d) shown)) True
             | None \<Rightarrow> Inr (docs_array shown))"

end
