(* ===== verification/Run_Query.thy ===== *)
theory Run_Query
  imports Aggregates Search
begin

text \<open>
  \<^verbatim>\<open>run_query\<close> of \<^verbatim>\<open>rust-client/src/in_memory/query.rs\<close>: the validation and expansion of
  lookups, the field projection, the dispatch over the terminals, and the canonical form
  a subscription compares.
\<close>

section \<open>Lookups\<close>

definition MAX_LOOKUPS :: nat where "MAX_LOOKUPS = 4"
definition MAX_LOOKUP_CAP :: nat where "MAX_LOOKUP_CAP = 1000"
definition DEFAULT_LOOKUP_CAP :: nat where "DEFAULT_LOOKUP_CAP = 100"
definition MAX_JOINED_ROWS :: nat where "MAX_JOINED_ROWS = 8192"

fun lookup_child_table :: "field_type \<Rightarrow> string option" where
  "lookup_child_table (TyId t od) = Some t"
| "lookup_child_table (TyOptional (TyId t od)) = Some t"
| "lookup_child_table (TyArray (TyId t od)) = Some t"
| "lookup_child_table _ = None"

definition validate_lookup ::
  "table_def \<Rightarrow> (string \<times> table_def) list \<Rightarrow> string list \<Rightarrow> lookup_spec \<Rightarrow> unit res" where
  "validate_lookup parent tables aliases lk =
     bindE (ensure (map_of tables (lk_table lk) \<noteq> None) NotFound) (\<lambda>_.
     bindE (case map_of (td_fields parent) (lk_field lk) of None \<Rightarrow> Inl BadRequest | Some ty \<Rightarrow> Inr ty) (\<lambda>ty.
     bindE (case lookup_child_table ty of None \<Rightarrow> Inl BadRequest | Some t \<Rightarrow> Inr t) (\<lambda>declared.
     bindE (ensure (declared = lk_table lk) BadRequest) (\<lambda>_.
     bindE (ensure (\<not> starts_with ''_'' (lk_as lk)) BadRequest) (\<lambda>_.
     bindE (ensure (map_of (td_fields parent) (lk_as lk) = None) BadRequest) (\<lambda>_.
     bindE (ensure (lk_as lk \<notin> set aliases) BadRequest) (\<lambda>_.
     ensure (case lk_cap lk of Some cap \<Rightarrow> cap \<le> MAX_LOOKUP_CAP | None \<Rightarrow> True) BadRequest)))))))"

definition validate_lookups ::
  "query \<Rightarrow> table_def \<Rightarrow> (string \<times> table_def) list \<Rightarrow> string list res" where
  "validate_lookups q parent tables =
     bindE (ensure (length (q_lookups q) \<le> MAX_LOOKUPS) BadRequest) (\<lambda>_.
       foldE (\<lambda>lk aliases.
          bindE (validate_lookup parent tables aliases lk) (\<lambda>_. Inr (aliases @ [lk_as lk]))) (q_lookups q) [])"

fun is_array_lookup :: "field_type \<Rightarrow> bool" where
  "is_array_lookup (TyArray t) = True"
| "is_array_lookup (TyOptional (TyArray t)) = True"
| "is_array_lookup _ = False"

text \<open>
  The documents of a result, by the terminal of the query, as an edit of all of them: the
  mutable references of the code point into the result.
\<close>

fun object_docs :: "json list \<Rightarrow> doc list" where
  "object_docs [] = []"
| "object_docs (JObject m # vs) = m # object_docs vs"
| "object_docs (v # vs) = object_docs vs"

fun refill :: "json list \<Rightarrow> doc list \<Rightarrow> json list" where
  "refill (JObject m # vs) (d # ds) = JObject d # refill vs ds"
| "refill (JObject m # vs) [] = JObject m # refill vs []"
| "refill (v # vs) ds = v # refill vs ds"
| "refill [] ds = []"

definition doc_less :: "query \<Rightarrow> bool" where
  "doc_less q \<longleftrightarrow> q_count q \<or> q_distinct q \<or> q_aggregate q \<noteq> None"

definition lookup_docs :: "query \<Rightarrow> json \<Rightarrow> doc list" where
  "lookup_docs q result =
     (if doc_less q then []
      else if q_paginate q \<noteq> None
      then (case json_get result ''docs'' of Some (JArray vs) \<Rightarrow> object_docs vs | _ \<Rightarrow> [])
      else if q_get q \<noteq> None \<or> q_unique q \<or> q_first q
      then (case result of JObject m \<Rightarrow> [m] | _ \<Rightarrow> [])
      else (case result of JArray vs \<Rightarrow> object_docs vs | _ \<Rightarrow> []))"

definition set_lookup_docs :: "query \<Rightarrow> json \<Rightarrow> doc list \<Rightarrow> json" where
  "set_lookup_docs q result ds =
     (if doc_less q then result
      else if q_paginate q \<noteq> None
      then (case result of
              JObject m \<Rightarrow>
                (case map_of m ''docs'' of
                   Some (JArray vs) \<Rightarrow> JObject (bt_insert ''docs'' (JArray (refill vs ds)) m)
                 | _ \<Rightarrow> result)
            | _ \<Rightarrow> result)
      else if q_get q \<noteq> None \<or> q_unique q \<or> q_first q
      then (case (result, ds) of (JObject m, [d]) \<Rightarrow> JObject d | _ \<Rightarrow> result)
      else (case result of JArray vs \<Rightarrow> JArray (refill vs ds) | _ \<Rightarrow> result))"

text \<open>The visible child rows by id; a row that no document names is never looked up.\<close>

definition fetched_child :: "client \<Rightarrow> string \<Rightarrow> string \<Rightarrow> json option" where
  "fetched_child s table i = map_option (JObject \<circ> merge_doc) (live_row s table i)"

text \<open>The joined rows of an id array, within the cap and the budget left.\<close>

fun join_ids :: "(string \<Rightarrow> json option) \<Rightarrow> nat \<Rightarrow> nat \<Rightarrow> json list \<Rightarrow> json list \<Rightarrow> json list \<times> nat" where
  "join_ids fetched cap budget out [] = (out, budget)"
| "join_ids fetched cap budget out (v # vs) =
     (if cap \<le> length out \<or> budget = 0 then (out, budget)
      else
        (case (case as_str v of Some i \<Rightarrow> fetched i | None \<Rightarrow> None) of
           Some d \<Rightarrow> join_ids fetched cap (budget - 1) (out @ [d]) vs
         | None \<Rightarrow> join_ids fetched cap budget out vs))"

definition expand_doc ::
  "(string \<Rightarrow> json option) \<Rightarrow> bool \<Rightarrow> lookup_spec \<Rightarrow> doc \<Rightarrow> nat \<Rightarrow> doc \<times> nat" where
  "expand_doc fetched array_form lk d budget =
     (case map_of d (lk_field lk) of
        Some (JString i) \<Rightarrow>
          (case (if 0 < budget then fetched i else None) of
             Some child \<Rightarrow> (bt_insert (lk_as lk) child d, budget - 1)
           | None \<Rightarrow> (bt_insert (lk_as lk) JNull d, budget))
      | Some (JArray vs) \<Rightarrow>
          (let cap = (case lk_cap lk of Some c \<Rightarrow> c | None \<Rightarrow> DEFAULT_LOOKUP_CAP)
           in case join_ids fetched cap budget [] vs of
                (out, budget') \<Rightarrow> (bt_insert (lk_as lk) (JArray out) d, budget'))
      | _ \<Rightarrow> (bt_insert (lk_as lk) (if array_form then JArray [] else JNull) d, budget))"

fun expand_docs ::
  "(string \<Rightarrow> json option) \<Rightarrow> bool \<Rightarrow> lookup_spec \<Rightarrow> doc list \<Rightarrow> nat \<Rightarrow> doc list \<times> nat" where
  "expand_docs fetched array_form lk [] budget = ([], budget)"
| "expand_docs fetched array_form lk (d # ds) budget =
     (case expand_doc fetched array_form lk d budget of
        (d', budget') \<Rightarrow>
          (case expand_docs fetched array_form lk ds budget' of (ds', left) \<Rightarrow> (d' # ds', left)))"

definition expand_lookup ::
  "client \<Rightarrow> table_def \<Rightarrow> lookup_spec \<Rightarrow> doc list \<times> nat \<Rightarrow> (doc list \<times> nat) res" where
  "expand_lookup s parent lk st =
     bindE (ensure (map_of (c_tables s) (lk_table lk) \<noteq> None) NotFound) (\<lambda>_.
     Inr (expand_docs (fetched_child s (lk_table lk))
       (case map_of (td_fields parent) (lk_field lk) of Some ty \<Rightarrow> is_array_lookup ty | None \<Rightarrow> False)
       lk (fst st) (snd st)))"

definition expand_lookups :: "client \<Rightarrow> query \<Rightarrow> table_def \<Rightarrow> json \<Rightarrow> json res" where
  "expand_lookups s q parent result =
     bindE (foldE (expand_lookup s parent) (q_lookups q) (lookup_docs q result, MAX_JOINED_ROWS)) (\<lambda>st.
     Inr (set_lookup_docs q result (fst st)))"

section \<open>Projection\<close>

definition PROJECTION_SYSTEM_FIELDS :: "string list" where
  "PROJECTION_SYSTEM_FIELDS = [''_id'', ''_creationTime'', ''_version'']"

definition validate_projection :: "table_def \<Rightarrow> string list \<Rightarrow> string list \<Rightarrow> unit res" where
  "validate_projection td names aliases =
     eachE (\<lambda>name.
        ensure (name \<in> set PROJECTION_SYSTEM_FIELDS \<or> map_of (td_fields td) name \<noteq> None \<or> name \<in> set aliases)
          BadRequest) names"

fun map_object :: "(doc \<Rightarrow> doc) \<Rightarrow> json \<Rightarrow> json" where
  "map_object f (JObject m) = JObject (f m)"
| "map_object f v = v"

definition map_result_docs :: "query \<Rightarrow> (doc \<Rightarrow> doc) \<Rightarrow> json \<Rightarrow> json" where
  "map_result_docs q f result =
     (if doc_less q then result
      else if q_paginate q \<noteq> None
      then (case result of
              JObject m \<Rightarrow>
                (case map_of m ''docs'' of
                   Some (JArray vs) \<Rightarrow> JObject (bt_insert ''docs'' (JArray (map (map_object f) vs)) m)
                 | _ \<Rightarrow> result)
            | _ \<Rightarrow> result)
      else (case result of
              JObject m \<Rightarrow> JObject (f m)
            | JArray vs \<Rightarrow> JArray (map (map_object f) vs)
            | _ \<Rightarrow> result))"

definition project_doc :: "string list \<Rightarrow> doc \<Rightarrow> doc" where
  "project_doc names d = filter (\<lambda>(k, v). starts_with ''_'' k \<or> k \<in> set names) d"

definition project_result :: "query \<Rightarrow> json \<Rightarrow> json" where
  "project_result q result =
     (case q_fields q of None \<Rightarrow> result | Some names \<Rightarrow> map_result_docs q (project_doc names) result)"

section \<open>Queries\<close>

definition execute_query :: "ext \<Rightarrow> client \<Rightarrow> query \<Rightarrow> table_def \<Rightarrow> json res" where
  "execute_query x s q td =
     bindE (check_query_combinations q) (\<lambda>_.
     bindE (ensure (case q_take q of Some t \<Rightarrow> t \<le> MAX_TAKE | None \<Rightarrow> True) BadRequest) (\<lambda>_.
       case q_get q of
         Some i \<Rightarrow> Inr (case get_doc s (q_table q) i of Some d \<Rightarrow> JObject d | None \<Rightarrow> JNull)
       | None \<Rightarrow>
       (case q_vector_search q of
          Some vector \<Rightarrow> execute_vector_search_terminal x s q vector td
        | None \<Rightarrow>
       (case q_hybrid_search q of
          Some hybrid \<Rightarrow> execute_hybrid_search_terminal x s q hybrid
        | None \<Rightarrow>
       (case q_search q of
          Some search \<Rightarrow> execute_search_terminal x s q search td
        | None \<Rightarrow>
            bindE (prepare_scan q td) (\<lambda>plan.
              let rows = fetch_filtered_rows x s q plan td
              in if q_count q then execute_count_terminal rows
                 else if q_distinct q
                 then execute_distinct_terminal x td (sp_index plan) (sp_typed_eq plan) rows
                 else
                   (case q_aggregate q of
                      Some agg \<Rightarrow> execute_aggregate_terminal x agg td (sp_index plan) (sp_typed_eq plan) rows
                    | None \<Rightarrow>
                        let dir = (case q_order q of Some d \<Rightarrow> d | None \<Rightarrow> Asc);
                            ordered = sort_filtered_rows td plan dir rows
                        in (case q_paginate q of
                              Some pag \<Rightarrow> execute_paginate_terminal x pag td ordered plan dir
                            | None \<Rightarrow> execute_collect_terminal q ordered))))))))"

definition run_query :: "ext \<Rightarrow> client \<Rightarrow> query \<Rightarrow> json res" where
  "run_query x s q =
     bindE (require_table s (q_table q)) (\<lambda>td.
     bindE (validate_lookups q td (c_tables s)) (\<lambda>aliases.
     bindE (case q_fields q of Some names \<Rightarrow> validate_projection td names aliases | None \<Rightarrow> Inr ()) (\<lambda>_.
     bindE (execute_query x s q td) (\<lambda>result.
     bindE (if q_lookups q \<noteq> [] then expand_lookups s q td result else Inr result) (\<lambda>result.
     Inr (project_result q result))))))"

text \<open>
  What a subscription compares: the result, without the row versions when the query is
  projected; \<^verbatim>\<open>canonical\<close> is its JSON text.
\<close>

definition diff_canonical :: "ext \<Rightarrow> query \<Rightarrow> json \<Rightarrow> string" where
  "diff_canonical x q result =
     (case q_fields q of
        None \<Rightarrow> json_text x result
      | Some _ \<Rightarrow> json_text x (map_result_docs q (bt_remove ''_version'') result))"

end
