(* ===== verification/Cascade.thy ===== *)
theory Cascade
  imports Store
begin

text \<open>
  \<^verbatim>\<open>delete_row_cascade\<close> of \<^verbatim>\<open>rust-client/src/in_memory/mod.rs\<close>: deleting a row with the
  schema's \<^verbatim>\<open>onDelete\<close> rules.  The three \<^verbatim>\<open>&mut\<close> parameters of the recursion (visited
  set, row budget, written tables) are a record threaded beside the client.  The
  recursion has fuel; every level charges the shared budget, so that one more than the
  budget is enough fuel, which is proved below together with the recursion equation of
  the code.
\<close>

section \<open>Definitions\<close>

fun on_delete_ref :: "field_type \<Rightarrow> string \<Rightarrow> on_delete_action option" where
  "on_delete_ref (TyId table (Some action)) parent = (if table = parent then Some action else None)"
| "on_delete_ref (TyOptional inner) parent = on_delete_ref inner parent"
| "on_delete_ref _ parent = None"

definition has_on_delete_children :: "schema_def \<Rightarrow> string \<Rightarrow> bool" where
  "has_on_delete_children schema parent =
     list_ex (\<lambda>(n, td). list_ex (\<lambda>(f, ty). on_delete_ref ty parent \<noteq> None) (td_fields td))
       (sd_tables schema)"

record cascade =
  cs_visited :: "row_key list"
  cs_rows :: nat
  cs_touched :: "string list"

definition fresh_cascade :: cascade where
  "fresh_cascade = \<lparr>cs_visited = [], cs_rows = 0, cs_touched = []\<rparr>"

type_synonym 'a cm = "(client \<times> cascade, error_code, 'a) meth"

definition on_client :: "'a m \<Rightarrow> 'a cm" where
  "on_client m = (\<lambda>(s, c). case m s of (r, s') \<Rightarrow> (r, (s', c)))"

definition cascade_enter :: "row_key \<Rightarrow> bool cm" where
  "cascade_enter k =
     (\<lambda>(s, c). if k \<in> set (cs_visited c) then (Inr False, (s, c))
               else (Inr True, (s, c\<lparr>cs_visited := k # cs_visited c\<rparr>)))"

definition charge :: "unit cm" where
  "charge =
     (\<lambda>(s, c). if MAX_CASCADE_ROWS \<le> cs_rows c then (Inl Conflict, (s, c))
               else (Inr (), (s, c\<lparr>cs_rows := Suc (cs_rows c)\<rparr>)))"

definition touch :: "string \<Rightarrow> unit cm" where
  "touch t = modifyM (\<lambda>(s, c). (s, c\<lparr>cs_touched := cs_touched c @ [t]\<rparr>))"

text \<open>A live row of the child table whose field holds the parent's id.\<close>

definition child_hit :: "string \<Rightarrow> string \<Rightarrow> string \<Rightarrow> row_key \<times> stored_row \<Rightarrow> bool" where
  "child_hit child_table field parent_id e =
     (fst (fst e) = child_table \<and> is_live (snd e)
      \<and> map_of (row_doc (snd e)) field = Some (JString parent_id))"

definition visible_child_ids :: "client \<Rightarrow> string \<Rightarrow> string \<Rightarrow> string \<Rightarrow> bool \<Rightarrow> string list" where
  "visible_child_ids s child_table field parent_id limit_one =
     (let cap = (if limit_one then 1 else MAX_CASCADE_ROWS + 1)
      in map (\<lambda>e. row_id (snd e)) (take cap (filter (child_hit child_table field parent_id) (c_docs s))))"

type_synonym plan_entry = "string \<times> table_def \<times> string \<times> on_delete_action"

definition cascade_plan :: "schema_def \<Rightarrow> string \<Rightarrow> plan_entry list" where
  "cascade_plan schema table =
     concat (map (\<lambda>(child_table, child_def).
       List.map_filter (\<lambda>(field, ty).
         map_option (\<lambda>action. (child_table, child_def, field, action)) (on_delete_ref ty table))
         (td_fields child_def)) (sd_tables schema))"

definition set_null_child :: "ext \<Rightarrow> string \<Rightarrow> table_def \<Rightarrow> string \<Rightarrow> string \<Rightarrow> unit cm" where
  "set_null_child x child_table child_def field child_id =
     bindM charge (\<lambda>_.
     bindM (on_client (do_patch x child_def child_table child_id [(field, JNull)])) (\<lambda>_.
     touch child_table))"

definition cascade_entry ::
  "(string \<Rightarrow> string \<Rightarrow> unit cm) \<Rightarrow> ext \<Rightarrow> string \<Rightarrow> plan_entry \<Rightarrow> unit cm" where
  "cascade_entry rec x i =
     (\<lambda>(child_table, child_def, field, action).
       case action of
         Restrict \<Rightarrow>
           bindM (getM (\<lambda>(s, c). visible_child_ids s child_table field i True)) (\<lambda>hits.
             if hits = [] then returnM () else throwM Conflict)
       | Cascade \<Rightarrow>
           bindM (getM (\<lambda>(s, c). visible_child_ids s child_table field i False)) (\<lambda>ids.
             eachM (\<lambda>child_id. rec child_table child_id) ids)
       | SetNull \<Rightarrow>
           bindM (getM (\<lambda>(s, c). visible_child_ids s child_table field i False)) (\<lambda>ids.
             eachM (set_null_child x child_table child_def field) ids))"

definition cascade_body ::
  "(string \<Rightarrow> string \<Rightarrow> unit cm) \<Rightarrow> ext \<Rightarrow> bool \<Rightarrow> string \<Rightarrow> string \<Rightarrow> unit cm" where
  "cascade_body rec x force_hard table i =
     bindM (askM (\<lambda>(s, c). require_table s table)) (\<lambda>td.
     bindM (cascade_enter (table, i)) (\<lambda>fresh.
       if \<not> fresh then returnM ()
       else
         bindM charge (\<lambda>_.
           if td_soft_delete td \<and> \<not> force_hard
           then bindM (on_client (do_soft_delete table i)) (\<lambda>_. touch table)
           else
             bindM (askM (\<lambda>(s, c). case c_schema s of None \<Rightarrow> Inl Internal | Some sch \<Rightarrow> Inr sch)) (\<lambda>sch.
             bindM (eachM (cascade_entry rec x i) (cascade_plan sch table)) (\<lambda>_.
             bindM (on_client (do_delete table i)) (\<lambda>_. touch table))))))"

primrec cascade_fuel :: "nat \<Rightarrow> ext \<Rightarrow> bool \<Rightarrow> string \<Rightarrow> string \<Rightarrow> unit cm" where
  "cascade_fuel 0 x force_hard = (\<lambda>table i. throwM Internal)"
| "cascade_fuel (Suc n) x force_hard = cascade_body (cascade_fuel n x force_hard) x force_hard"

definition delete_row_cascade :: "ext \<Rightarrow> bool \<Rightarrow> string \<Rightarrow> string \<Rightarrow> unit cm" where
  "delete_row_cascade x force_hard table i = cascade_fuel (MAX_CASCADE_ROWS + 1) x force_hard table i"

section \<open>Enough fuel\<close>

definition rows_le :: "client \<times> cascade \<Rightarrow> client \<times> cascade \<Rightarrow> bool" where
  "rows_le sc sc' \<longleftrightarrow> cs_rows (snd sc) \<le> cs_rows (snd sc')"

interpretation rows: preorder_rel rows_le
  by unfold_locales (auto simp: rows_le_def)

lemma keeps_on_client_rows: "keeps rows_le (on_client m)"
  by (rule keepsI) (auto simp: on_client_def rows_le_def split: prod.splits)

lemma keeps_prims_rows:
  "keeps rows_le (cascade_enter k)" "keeps rows_le charge" "keeps rows_le (touch t)"
  by (rule keepsI; auto simp: cascade_enter_def charge_def touch_def run_simps rows_le_def
      split: prod.splits if_splits)+

lemma keeps_entry_rows:
  assumes "\<And>t j. keeps rows_le (rec t j)"
  shows "keeps rows_le (cascade_entry rec x i e)"
  unfolding cascade_entry_def set_null_child_def
  by (auto intro!: rows.keeps_rules keeps_on_client_rows keeps_prims_rows assms
      split: prod.splits on_delete_action.splits)

lemma keeps_body_rows:
  assumes "\<And>t j. keeps rows_le (rec t j)"
  shows "keeps rows_le (cascade_body rec x force_hard t i)"
  unfolding cascade_body_def
  by (auto intro!: rows.keeps_rules keeps_on_client_rows keeps_prims_rows keeps_entry_rows assms)

lemma keeps_fuel_rows: "keeps rows_le (cascade_fuel n x force_hard t i)"
  by (induction n arbitrary: t i) (auto intro!: rows.keeps_pure keeps_body_rows)

text \<open>Two methods that agree from a row count on, below a method that keeps it.\<close>

definition agree_from :: "nat \<Rightarrow> 'a cm \<Rightarrow> 'a cm \<Rightarrow> bool" where
  "agree_from k m m' \<longleftrightarrow> (\<forall>s c. k \<le> cs_rows c \<longrightarrow> m (s, c) = m' (s, c))"

lemma agree_refl: "agree_from k m m"
  by (simp add: agree_from_def)

lemma agree_bind:
  assumes "agree_from k m m'" "keeps rows_le m" "\<And>y. agree_from k (f y) (f' y)"
  shows "agree_from k (bindM m f) (bindM m' f')"
  unfolding agree_from_def
proof (intro allI impI)
  fix s and c :: cascade
  assume k: "k \<le> cs_rows c"
  obtain r s' c' where m: "m (s, c) = (r, (s', c'))"
    by (cases "m (s, c)") auto
  have "cs_rows c \<le> cs_rows c'"
    using keepsD[OF assms(2) m] by (simp add: rows_le_def)
  then show "bindM m f (s, c) = bindM m' f' (s, c)"
    using assms(1,3) k m by (auto simp: bindM_def agree_from_def split: sum.splits)
qed

lemma agree_each:
  assumes "\<And>y. agree_from k (f y) (f' y)" "\<And>y. keeps rows_le (f y)"
  shows "agree_from k (eachM f ys) (eachM f' ys)"
  by (induction ys) (auto intro!: agree_bind agree_refl assms)

lemma agree_entry:
  assumes "\<And>t j. agree_from k (rec t j) (rec' t j)" "\<And>t j. keeps rows_le (rec t j)"
  shows "agree_from k (cascade_entry rec x i e) (cascade_entry rec' x i e)"
  unfolding cascade_entry_def
  by (auto intro!: agree_bind agree_each agree_refl rows.keeps_pure assms
      split: prod.splits on_delete_action.splits)

lemma agree_charge:
  assumes "\<And>y. agree_from (Suc k) (f y) (f' y)"
  shows "agree_from k (bindM charge f) (bindM charge f')"
  using assms by (auto simp: agree_from_def charge_def bindM_def)

lemma agree_body:
  assumes "\<And>t j. agree_from (Suc k) (rec t j) (rec' t j)" "\<And>t j. keeps rows_le (rec t j)"
  shows "agree_from k (cascade_body rec x force_hard t i) (cascade_body rec' x force_hard t i)"
  unfolding cascade_body_def
  by (auto intro!: agree_bind agree_refl rows.keeps_pure keeps_prims_rows agree_charge agree_each
        agree_entry rows.keeps_each keeps_entry_rows assms)

lemma fuel_agree:
  "MAX_CASCADE_ROWS < n + k \<Longrightarrow> MAX_CASCADE_ROWS < m + k \<Longrightarrow> 0 < n \<Longrightarrow> 0 < m \<Longrightarrow>
   agree_from k (cascade_fuel n x force_hard t i) (cascade_fuel m x force_hard t i)"
proof (induction n arbitrary: m k t i)
  case (Suc n)
  then obtain m' where m: "m = Suc m'"
    by (cases m) auto
  show ?case
  proof (cases "k < MAX_CASCADE_ROWS")
    case True
    then have "agree_from (Suc k) (cascade_fuel n x force_hard t' j) (cascade_fuel m' x force_hard t' j)" for t' j
      using Suc.prems by (intro Suc.IH) (auto simp: m)
    then show ?thesis
      by (simp add: m agree_body keeps_fuel_rows)
  next
    case False
    then have "charge (s, c) = (Inl Conflict, (s, c))" if "k \<le> cs_rows c" for s c
      using that by (simp add: charge_def)
    then show ?thesis
      by (auto simp: m agree_from_def cascade_body_def cascade_enter_def run_simps
          split: prod.splits sum.splits)
  qed
qed simp

lemma fuel_enough: "cascade_fuel (MAX_CASCADE_ROWS + 1 + k) x force_hard = delete_row_cascade x force_hard"
proof (intro ext)
  fix t i sc
  show "cascade_fuel (MAX_CASCADE_ROWS + 1 + k) x force_hard t i sc = delete_row_cascade x force_hard t i sc"
    using fuel_agree[of "MAX_CASCADE_ROWS + 1 + k" 0 "MAX_CASCADE_ROWS + 1" x force_hard t i]
    by (cases sc) (simp add: agree_from_def delete_row_cascade_def)
qed

lemma delete_row_cascade_rec [code]:
  "delete_row_cascade x force_hard t i sc = cascade_body (delete_row_cascade x force_hard) x force_hard t i sc"
proof -
  have "delete_row_cascade x force_hard = cascade_fuel (Suc (MAX_CASCADE_ROWS + 1)) x force_hard"
    using fuel_enough[of 1] by simp
  also have "\<dots> = cascade_body (delete_row_cascade x force_hard) x force_hard"
    using fuel_enough[of 0] by simp
  finally show ?thesis
    by metis
qed


end
