(* ===== verification/Steps.thy ===== *)
theory Steps
  imports Cascade
begin

text \<open>
  The transaction executor of \<^verbatim>\<open>rust-client/src/in_memory/mod.rs\<close>: the schedule store, one
  definition per step, \<^verbatim>\<open>execute_step\<close>, \<^verbatim>\<open>execute_transaction\<close> up to the fan-out of its
  write set to subscribers, and \<^verbatim>\<open>mutate\<close>.
\<close>

section \<open>The schedule store\<close>

definition due_at_for :: "schedule_when \<Rightarrow> int \<Rightarrow> int" where
  "due_at_for w now =
     (case w of
        AfterMs ms \<Rightarrow> wrap64 (now + ms)
      | RunAt ms \<Rightarrow> ms
      | Cron e tz \<Rightarrow> wrap64 (now + CRON_STEP_MS)
      | Interval every_ms \<Rightarrow> wrap64 (now + every_ms))"

definition kind_of_when :: "schedule_when \<Rightarrow> schedule_kind" where
  "kind_of_when w = (case w of Cron e tz \<Rightarrow> KCron | Interval ms \<Rightarrow> KInterval | _ \<Rightarrow> KOneshot)"

definition schedule :: "transaction \<Rightarrow> schedule_when \<Rightarrow> bool \<Rightarrow> string m" where
  "schedule txn w external =
     bindM (liftM
       (case w of
          Interval every_ms \<Rightarrow>
            if every_ms \<le> 0 then Inl BadRequest
            else if MAX_EVERY_MS < every_ms then Inl BadRequest
            else Inr (Some every_ms)
        | _ \<Rightarrow> Inr None)) (\<lambda>every_ms.
     bindM new_id (\<lambda>i.
     bindM read_now (\<lambda>now.
     bindM (modifyM (\<lambda>s. s\<lparr>c_schedules := c_schedules s @
         [\<lparr>job_id = i, job_kind = kind_of_when w, job_txn = txn, job_due_at = due_at_for w now,
           job_cron = (case w of Cron e tz \<Rightarrow> Some e | _ \<Rightarrow> None),
           job_tz = (case w of Cron e tz \<Rightarrow> tz | _ \<Rightarrow> None),
           job_every_ms = every_ms, job_status = SPending, job_created_at = now,
           job_fired_count = 0, job_last_error = None, job_external = external,
           job_missed_count = 0, job_last_missed_at = None\<rparr>]\<rparr>)) (\<lambda>_.
     returnM i))))"

definition cancel_schedule :: "string \<Rightarrow> unit m" where
  "cancel_schedule i =
     bindM (getM (\<lambda>s. length (c_schedules s))) (\<lambda>before.
     bindM (modifyM (\<lambda>s. s\<lparr>c_schedules := filter (\<lambda>j. job_id j \<noteq> i) (c_schedules s)\<rparr>)) (\<lambda>_.
     bindM (getM (\<lambda>s. length (c_schedules s))) (\<lambda>after.
       if after = before then throwM NotFound else returnM ())))"

fun update_first :: "('a \<Rightarrow> bool) \<Rightarrow> ('a \<Rightarrow> 'a) \<Rightarrow> 'a list \<Rightarrow> 'a list" where
  "update_first P f [] = []"
| "update_first P f (y # ys) = (if P y then f y # ys else y # update_first P f ys)"

definition update_job :: "string \<Rightarrow> (scheduled_job \<Rightarrow> scheduled_job) \<Rightarrow> unit m" where
  "update_job i f =
     bindM (askM (\<lambda>s. case find (\<lambda>j. job_id j = i) (c_schedules s) of
                        None \<Rightarrow> Inl NotFound | Some j \<Rightarrow> Inr ())) (\<lambda>_.
     modifyM (\<lambda>s. s\<lparr>c_schedules := update_first (\<lambda>j. job_id j = i) f (c_schedules s)\<rparr>))"

definition pause_schedule :: "string \<Rightarrow> unit m" where
  "pause_schedule i = update_job i (\<lambda>j. j\<lparr>job_status := SPaused\<rparr>)"

definition resume_schedule :: "string \<Rightarrow> unit m" where
  "resume_schedule i =
     bindM read_now (\<lambda>now.
       update_job i (\<lambda>j.
         let j' = j\<lparr>job_status := SPending\<rparr>
         in case job_every_ms j of
              Some ms \<Rightarrow> if job_kind j = KInterval then j'\<lparr>job_due_at := wrap64 (now + ms)\<rparr> else j'
            | None \<Rightarrow> j'))"

section \<open>Steps\<close>

text \<open>A step's result and the tables it wrote.\<close>

type_synonym step_out = "step_result \<times> string list"

definition table_of :: "string \<Rightarrow> table_def m" where
  "table_of table = askM (\<lambda>s. require_table s table)"

definition step_insert :: "ext \<Rightarrow> string \<Rightarrow> doc \<Rightarrow> step_out m" where
  "step_insert x table d =
     bindM (table_of table) (\<lambda>td.
     bindM (do_insert x table td d) (\<lambda>i.
     returnM (RInsert i, [table])))"

definition step_insert_many :: "ext \<Rightarrow> string \<Rightarrow> doc list \<Rightarrow> step_out m" where
  "step_insert_many x table docs =
     bindM (liftM (check_bulk_len (length docs))) (\<lambda>_.
     bindM (table_of table) (\<lambda>td.
     bindM (mapM (do_insert x table td) docs) (\<lambda>ids.
     returnM (RInsertMany ids, [table]))))"

definition step_upsert ::
  "ext \<Rightarrow> string \<Rightarrow> string \<Rightarrow> json list \<Rightarrow> doc \<Rightarrow> doc \<Rightarrow> step_out m" where
  "step_upsert x table index eq insert_doc patch =
     bindM (table_of table) (\<lambda>td.
     bindM (askM (\<lambda>s. eq_lookup s td table index eq)) (\<lambda>rows.
       if 1 < length rows then throwM PreconditionFailed
       else
         (case rows of
            row # _ \<Rightarrow>
              bindM read_now (\<lambda>now.
              bindM (liftM (apply_patch x td (row_doc row) (stamp_updated_at td patch now) now)) (\<lambda>merged.
              bindM (do_update x td table (row_id row) merged) (\<lambda>_.
              returnM (RUpsert (row_id row) False, [table]))))
          | [] \<Rightarrow>
              bindM (do_insert x table td insert_doc) (\<lambda>i.
              returnM (RUpsert i True, [table])))))"

definition eq_values :: "string list \<Rightarrow> doc \<Rightarrow> json list res" where
  "eq_values fs d =
     mapE (\<lambda>field. case map_of d field of None \<Rightarrow> Inl BadRequest | Some v \<Rightarrow> Inr v) fs"

definition step_upsert_many :: "ext \<Rightarrow> string \<Rightarrow> string \<Rightarrow> doc list \<Rightarrow> step_out m" where
  "step_upsert_many x table index docs =
     bindM (liftM (check_bulk_len (length docs))) (\<lambda>_.
     bindM (table_of table) (\<lambda>td.
     bindM (liftM (require_index td index)) (\<lambda>ix.
     bindM (mapM (\<lambda>d.
         bindM (liftM (eq_values (ix_fields ix) d)) (\<lambda>eq.
         bindM (step_upsert x table index eq d d) (\<lambda>(r, _).
           case r of RUpsert i ins \<Rightarrow> returnM (i, ins) | _ \<Rightarrow> throwM Internal))) docs) (\<lambda>outs.
     returnM (RUpsertMany (map fst outs) (map snd outs), [table])))))"

definition step_patch :: "ext \<Rightarrow> string \<Rightarrow> string \<Rightarrow> doc \<Rightarrow> step_out m" where
  "step_patch x table i patch =
     bindM (table_of table) (\<lambda>td.
     bindM (do_patch x td table i patch) (\<lambda>_.
     returnM (RNull, [table])))"

definition unsafe_int :: "int option \<Rightarrow> bool" where
  "unsafe_int n = (case n of None \<Rightarrow> False | Some n \<Rightarrow> MAX_SAFE_INTEGER < \<bar>n\<bar>)"

definition counter_args_ok :: "int \<Rightarrow> int option \<Rightarrow> int option \<Rightarrow> bool" where
  "counter_args_ok delta mn mx \<longleftrightarrow>
     \<not> (MAX_SAFE_INTEGER < \<bar>delta\<bar> \<or> unsafe_int mn \<or> unsafe_int mx
        \<or> (case (mn, mx) of (Some lo, Some hi) \<Rightarrow> hi < lo | _ \<Rightarrow> False))"

definition check_counter_field :: "table_def \<Rightarrow> string \<Rightarrow> unit res" where
  "check_counter_field td field =
     (case map_of (td_fields td) field of
        None \<Rightarrow> Inl SchemaViolation
      | Some ty \<Rightarrow>
          if map_of (td_computed td) field \<noteq> None then Inl BadRequest
          else if td_auto_increment_field td = Some field then Inl BadRequest
          else if td_updated_at_field td = Some field then Inl BadRequest
          else if \<not> (ty = TyNumber \<or> ty = TyOptional TyNumber) then Inl SchemaViolation
          else Inr ())"

definition check_expected :: "table_def \<Rightarrow> doc \<Rightarrow> doc \<Rightarrow> unit res" where
  "check_expected td d expected =
     eachE (\<lambda>(field, wanted).
       if map_of (td_fields td) field = None then Inl SchemaViolation
       else (case map_of d field of
               None \<Rightarrow> Inl PreconditionFailed
             | Some actual \<Rightarrow> if json_eq actual wanted then Inr () else Inl PreconditionFailed))
       expected"

text \<open>The safe integer a counter field holds.\<close>

definition counter_value :: "json option \<Rightarrow> int option" where
  "counter_value v =
     (case v of
        None \<Rightarrow> None
      | Some v \<Rightarrow>
          (case json_as_f64 v of
             Some (Fin r) \<Rightarrow>
               if of_int (trunc_rat r) = r \<and> - of_int MAX_SAFE_INTEGER \<le> r \<and> r \<le> of_int MAX_SAFE_INTEGER
               then Some (f64_as_i64 (Fin r)) else None
           | _ \<Rightarrow> None))"

definition step_adjust_counter ::
  "ext \<Rightarrow> string \<Rightarrow> string \<Rightarrow> string \<Rightarrow> int \<Rightarrow> int option \<Rightarrow> int option \<Rightarrow> doc option \<Rightarrow> step_out m" where
  "step_adjust_counter x table i field delta mn mx expected =
     bindM (table_of table) (\<lambda>td.
     bindM (liftM (ensure (counter_args_ok delta mn mx) BadRequest)) (\<lambda>_.
     bindM (liftM (check_counter_field td field)) (\<lambda>_.
     bindM (askM (\<lambda>s. require_live s table i)) (\<lambda>row.
     bindM (liftM (check_expected td (row_doc row) (case expected of None \<Rightarrow> [] | Some e \<Rightarrow> e))) (\<lambda>_.
     bindM (liftM (case counter_value (map_of (row_doc row) field) of
                     None \<Rightarrow> Inl BadRequest | Some n \<Rightarrow> Inr n)) (\<lambda>current.
     bindM (liftM (ensure (i64_ok (current + delta) \<and> \<bar>current + delta\<bar> \<le> MAX_SAFE_INTEGER) BadRequest)) (\<lambda>_.
     bindM (liftM (ensure (\<not> (violates (\<lambda>n. current + delta < n) mn \<or> violates (\<lambda>n. n < current + delta) mx))
                     PreconditionFailed)) (\<lambda>_.
     bindM (do_patch x td table i [(field, json_of_int (current + delta))]) (\<lambda>_.
     returnM (RNull, [table]))))))))))"

definition step_replace :: "ext \<Rightarrow> string \<Rightarrow> string \<Rightarrow> doc \<Rightarrow> step_out m" where
  "step_replace x table i d =
     bindM (table_of table) (\<lambda>td.
     bindM (do_replace x td table i d) (\<lambda>_.
     returnM (RNull, [table])))"

text \<open>Runs a cascade with a visited set and budget of its own; returns the tables it wrote.\<close>

definition with_cascade :: "unit cm \<Rightarrow> string list m" where
  "with_cascade m =
     (\<lambda>s. case m (s, fresh_cascade) of
            (Inl e, (s', c)) \<Rightarrow> (Inl e, s')
          | (Inr _, (s', c)) \<Rightarrow> (Inr (cs_touched c), s'))"

definition step_delete :: "ext \<Rightarrow> string \<Rightarrow> string \<Rightarrow> step_out m" where
  "step_delete x table i =
     bindM (table_of table) (\<lambda>td.
       if td_soft_delete td
       then bindM (do_soft_delete table i) (\<lambda>_. returnM (RNull, [table]))
       else bindM (with_cascade (delete_row_cascade x False table i)) (\<lambda>touched.
              returnM (RNull, touched)))"

definition step_undelete :: "ext \<Rightarrow> string \<Rightarrow> string \<Rightarrow> step_out m" where
  "step_undelete x table i =
     bindM (table_of table) (\<lambda>td.
     bindM (do_undelete x td table i) (\<lambda>_.
     returnM (RNull, [table])))"

definition step_expect_version :: "string \<Rightarrow> string \<Rightarrow> int \<Rightarrow> step_out m" where
  "step_expect_version table i version =
     bindM (table_of table) (\<lambda>_.
     bindM (askM (\<lambda>s. do_expect_version s table i version)) (\<lambda>_.
     returnM (RNull, [])))"

definition guard_error :: "field_guard_error + unit \<Rightarrow> unit res" where
  "guard_error r =
     (case r of
        Inr u \<Rightarrow> Inr u
      | Inl InvalidRequest \<Rightarrow> Inl BadRequest
      | Inl UnknownPath \<Rightarrow> Inl SchemaViolation)"

definition step_expect_fields :: "string \<Rightarrow> string \<Rightarrow> field_expectation list \<Rightarrow> step_out m" where
  "step_expect_fields table i expected =
     bindM (table_of table) (\<lambda>td.
     bindM (askM (\<lambda>s. require_live s table i)) (\<lambda>row.
     bindM (liftM (guard_error (validate_expectations td expected))) (\<lambda>_.
     bindM (liftM (ensure (expectations_match (row_doc row) expected) PreconditionFailed)) (\<lambda>_.
     returnM (RNull, [])))))"

definition step_expect_absent :: "string \<Rightarrow> string \<Rightarrow> json list \<Rightarrow> step_out m" where
  "step_expect_absent table index eq =
     bindM (table_of table) (\<lambda>td.
     bindM (askM (\<lambda>s. eq_lookup s td table index eq)) (\<lambda>rows.
       if rows \<noteq> [] then throwM PreconditionFailed else returnM (RNull, [])))"

definition step_expect_no_match :: "ext \<Rightarrow> string \<Rightarrow> filter_expr \<Rightarrow> step_out m" where
  "step_expect_no_match x table f =
     bindM (table_of table) (\<lambda>td.
     bindM (scan_ids_by_filter x td table f (Some 1)) (\<lambda>(ids, _).
       if ids \<noteq> [] then throwM PreconditionFailed else returnM (RNull, [])))"

definition patch_by_query ::
  "ext \<Rightarrow> string \<Rightarrow> filter_expr \<Rightarrow> doc \<Rightarrow> nat option \<Rightarrow> (nat \<times> bool) m" where
  "patch_by_query x table f patch limit =
     bindM (table_of table) (\<lambda>td.
     bindM (scan_ids_by_filter x td table f limit) (\<lambda>(ids, truncated).
     bindM (eachM (\<lambda>i. do_patch x td table i patch) ids) (\<lambda>_.
     returnM (length ids, truncated))))"

definition step_patch_by_query :: "ext \<Rightarrow> string \<Rightarrow> filter_expr \<Rightarrow> doc \<Rightarrow> nat option \<Rightarrow> step_out m" where
  "step_patch_by_query x table f patch limit =
     bindM (patch_by_query x table f patch limit) (\<lambda>(patched, truncated).
     returnM (RPatchByQuery patched truncated, [table]))"

definition delete_by_query ::
  "ext \<Rightarrow> string \<Rightarrow> filter_expr \<Rightarrow> nat option \<Rightarrow> ((nat \<times> bool) \<times> string list) m" where
  "delete_by_query x table f limit =
     bindM (table_of table) (\<lambda>td.
     bindM (scan_ids_by_filter x td table f limit) (\<lambda>(ids, truncated).
     bindM (with_cascade (eachM (delete_row_cascade x False table) ids)) (\<lambda>touched.
     returnM ((length ids, truncated), touched))))"

definition step_delete_by_query :: "ext \<Rightarrow> string \<Rightarrow> filter_expr \<Rightarrow> nat option \<Rightarrow> step_out m" where
  "step_delete_by_query x table f limit =
     bindM (delete_by_query x table f limit) (\<lambda>((deleted, truncated), touched).
     returnM (RDeleteByQuery deleted truncated, touched))"

definition step_schedule :: "schedule_when \<Rightarrow> transaction \<Rightarrow> bool option \<Rightarrow> step_out m" where
  "step_schedule w txn external =
     bindM (schedule txn w (external = Some True)) (\<lambda>i. returnM (RSchedule i, []))"

text \<open>\<^verbatim>\<open>cancel_schedule(id).is_ok()\<close>: the error is a value here.\<close>

definition step_cancel_schedule :: "string \<Rightarrow> step_out m" where
  "step_cancel_schedule i =
     (\<lambda>s. case cancel_schedule i s of
            (Inl _, s') \<Rightarrow> (Inr (RCancelled False, []), s')
          | (Inr _, s') \<Rightarrow> (Inr (RCancelled True, []), s'))"

definition step_workflow :: "step_out m" where
  "step_workflow = throwM Internal"

section \<open>Transactions\<close>

definition written_existing :: "step \<Rightarrow> string option" where
  "written_existing st =
     (case st of
        Patch t i p \<Rightarrow> Some t
      | AdjustCounter t i f d mn mx e \<Rightarrow> Some t
      | Replace t i d \<Rightarrow> Some t
      | Delete t i \<Rightarrow> Some t
      | Undelete t i \<Rightarrow> Some t
      | Upsert t ix eq ins p \<Rightarrow> Some t
      | UpsertMany t ix ds \<Rightarrow> Some t
      | PatchByQuery t f p l \<Rightarrow> Some t
      | DeleteByQuery t f l \<Rightarrow> Some t
      | _ \<Rightarrow> None)"

definition enforce_insert_only :: "client \<Rightarrow> step \<Rightarrow> unit res" where
  "enforce_insert_only s st =
     (case written_existing st of
        None \<Rightarrow> Inr ()
      | Some table \<Rightarrow>
          (case c_schema s of
             None \<Rightarrow> Inr ()
           | Some schema \<Rightarrow>
               (case map_of (sd_tables schema) table of
                  None \<Rightarrow> Inr ()
                | Some td \<Rightarrow> if td_insert_only td then Inl SchemaViolation else Inr ())))"

fun run_step :: "ext \<Rightarrow> step \<Rightarrow> step_out m" where
  "run_step x (Insert table d) = step_insert x table d"
| "run_step x (InsertMany table docs) = step_insert_many x table docs"
| "run_step x (UpsertMany table index docs) = step_upsert_many x table index docs"
| "run_step x (Patch table i patch) = step_patch x table i patch"
| "run_step x (AdjustCounter table i field delta mn mx expected) =
     step_adjust_counter x table i field delta mn mx expected"
| "run_step x (Replace table i d) = step_replace x table i d"
| "run_step x (Delete table i) = step_delete x table i"
| "run_step x (Undelete table i) = step_undelete x table i"
| "run_step x (ExpectVersion table i version) = step_expect_version table i version"
| "run_step x (ExpectFields table i expected) = step_expect_fields table i expected"
| "run_step x (ExpectAbsent table index eq) = step_expect_absent table index eq"
| "run_step x (ExpectNoMatch table f) = step_expect_no_match x table f"
| "run_step x (ExpectBefore d) = returnM (RNull, [])"
| "run_step x (Upsert table index eq ins patch) = step_upsert x table index eq ins patch"
| "run_step x (PatchByQuery table f patch limit) = step_patch_by_query x table f patch limit"
| "run_step x (DeleteByQuery table f limit) = step_delete_by_query x table f limit"
| "run_step x (Schedule w txn external) = step_schedule w txn external"
| "run_step x (CancelSchedule i) = step_cancel_schedule i"
| "run_step x (StartWorkflow spec) = step_workflow"
| "run_step x (CancelWorkflow i) = step_workflow"

definition execute_step :: "ext \<Rightarrow> step \<Rightarrow> step_out m" where
  "execute_step x st = bindM (askM (\<lambda>s. enforce_insert_only s st)) (\<lambda>_. run_step x st)"

fun is_by_query :: "step \<Rightarrow> bool" where
  "is_by_query (PatchByQuery t f p l) = True"
| "is_by_query (DeleteByQuery t f l) = True"
| "is_by_query (ExpectNoMatch t f) = True"
| "is_by_query _ = False"

text \<open>The admission checks of a transaction; the result is its deadline.\<close>

definition admit_transaction :: "transaction \<Rightarrow> int option res" where
  "admit_transaction txn =
     bindE (case transaction_deadline txn of Inl _ \<Rightarrow> Inl BadRequest | Inr d \<Rightarrow> Inr d) (\<lambda>deadline.
     bindE (ensure (count_steps txn \<le> MAX_STEPS) BadRequest) (\<lambda>_.
     bindE (ensure (length (filter is_by_query (txn_steps txn)) \<le> MAX_BY_QUERY_STEPS_PER_TXN) BadRequest) (\<lambda>_.
     bindE (ensure (worst_case_affected txn MAX_BY_QUERY_ROWS \<le> MAX_AFFECTED_ROWS_PER_TXN) BadRequest) (\<lambda>_.
     Inr deadline))))"

text \<open>The clock is read only when there is a deadline.\<close>

definition check_deadline :: "int option \<Rightarrow> unit m" where
  "check_deadline deadline =
     (case deadline of
        None \<Rightarrow> returnM ()
      | Some d \<Rightarrow>
          bindM read_now (\<lambda>now. if d \<le> now then throwM PreconditionFailed else returnM ()))"

definition restore :: "client \<Rightarrow> client \<Rightarrow> client" where
  "restore saved s = s\<lparr>c_docs := c_docs saved, c_schedules := c_schedules saved\<rparr>"

definition rollback_on_error :: "'a m \<Rightarrow> 'a m" where
  "rollback_on_error m =
     (\<lambda>saved. case m saved of
        (Inl e, s) \<Rightarrow> (Inl e, restore saved s)
      | (Inr r, s) \<Rightarrow> (Inr r, s))"

text \<open>The step loop and the second deadline check, under the snapshot.\<close>

definition run_steps :: "ext \<Rightarrow> int option \<Rightarrow> step list \<Rightarrow> step_out list m" where
  "run_steps x deadline steps =
     bindM (mapM (execute_step x) steps) (\<lambda>outs.
     bindM (check_deadline deadline) (\<lambda>_.
     returnM outs))"

definition execute_transaction :: "ext \<Rightarrow> transaction \<Rightarrow> (step_result list \<times> string set) m" where
  "execute_transaction x txn =
     bindM (liftM (admit_transaction txn)) (\<lambda>deadline.
     bindM (check_deadline deadline) (\<lambda>_.
     bindM (rollback_on_error (run_steps x deadline (txn_steps txn))) (\<lambda>outs.
     returnM (map fst outs, \<Union> (set (map (set \<circ> snd) outs))))))"

definition mutate :: "ext \<Rightarrow> transaction \<Rightarrow> string option \<Rightarrow> step_result list m" where
  "mutate x txn mut_id =
     bindM (getM (\<lambda>s. case mut_id of None \<Rightarrow> None | Some mid \<Rightarrow> map_of (c_idempotency s) mid)) (\<lambda>cached.
       case cached of
         Some results \<Rightarrow> returnM results
       | None \<Rightarrow>
           bindM (askM (\<lambda>s. ensure (\<not> c_read_only s) ReadOnly)) (\<lambda>_.
           bindM (execute_transaction x txn) (\<lambda>(results, _).
           bindM (case mut_id of
                    None \<Rightarrow> returnM ()
                  | Some mid \<Rightarrow>
                      modifyM (\<lambda>s. s\<lparr>c_idempotency := hm_insert mid results (c_idempotency s)\<rparr>)) (\<lambda>_.
           returnM results))))"

end
