(* ===== verification/Samples.thy ===== *)
theory Samples
  imports Steps "HOL-Library.Code_Target_Nat"
begin

text \<open>
  A small database on which the theorems about transactions are exercised: users with
  a unique e-mail, posts that are deleted with their author, notes whose owner is
  cleared, and a soft-deleting table of comments.
\<close>

definition sample_users :: table_def where
  "sample_users = empty_table\<lparr>
     td_fields := [(''email'', TyOptional TyString), (''score'', TyNumber)],
     td_indexes := [plain_index ''by_email'' [''email''] True]\<rparr>"

definition sample_posts :: table_def where
  "sample_posts = empty_table\<lparr>td_fields := [(''author'', TyId ''users'' (Some Cascade))]\<rparr>"

definition sample_notes :: table_def where
  "sample_notes = empty_table\<lparr>td_fields := [(''owner'', TyOptional (TyId ''users'' (Some SetNull)))]\<rparr>"

definition sample_comments :: table_def where
  "sample_comments = empty_table\<lparr>
     td_fields := [(''post'', TyId ''posts'' (Some Cascade))], td_soft_delete := True\<rparr>"

definition sample_schema :: schema_def where
  "sample_schema = \<lparr>sd_tables =
     [(''comments'', sample_comments), (''notes'', sample_notes), (''posts'', sample_posts),
      (''users'', sample_users)]\<rparr>"

definition sample_id :: "char \<Rightarrow> string" where
  "sample_id c = replicate 32 c"

definition sample_row :: "string \<Rightarrow> doc \<Rightarrow> stored_row" where
  "sample_row i d = \<lparr>row_id = i, row_doc = d, row_version = 1, row_created_at = 0, row_deleted_at = None\<rparr>"

definition sample_entry :: "string \<Rightarrow> char \<Rightarrow> doc \<Rightarrow> row_key \<times> stored_row" where
  "sample_entry t c d = ((t, sample_id c), sample_row (sample_id c) d)"

definition sample_rows :: "(row_key \<times> stored_row) list" where
  "sample_rows =
     [sample_entry ''users'' CHR ''a'' [(''email'', JString ''a@x''), (''score'', json_of_int 3)],
      sample_entry ''users'' CHR ''b'' [(''score'', json_of_int 0)],
      sample_entry ''posts'' CHR ''c'' [(''author'', JString (sample_id CHR ''a''))],
      sample_entry ''comments'' CHR ''d'' [(''post'', JString (sample_id CHR ''c''))],
      sample_entry ''notes'' CHR ''e'' [(''owner'', JString (sample_id CHR ''a''))]]"

definition sample_client :: client where
  "sample_client = (new_client (\<lambda>n. 1000 + int n) (\<lambda>n. Fin 0))
     \<lparr>c_schema := Some sample_schema, c_tables := sd_tables sample_schema, c_docs := sample_rows\<rparr>"

end
