(* ===== verification/Frame.thy ===== *)
theory Frame
  imports Samples
begin

text \<open>
  What every step of a transaction leaves alone, and the atomicity of a transaction: the
  interfaces \<open>counter_rel\<close>, \<open>schedule_rel\<close>, \<open>rows_rel\<close> and \<open>data_rel\<close> are the relations closed
  under ever more of the writes a step may make, each operation is shown to keep any
  such relation once, and the frame and rollback theorems are instances.
\<close>

locale counter_rel = preorder_rel R for R :: "client \<Rightarrow> client \<Rightarrow> bool" +
  assumes now_write: "R s (s\<lparr>c_now_reads := n\<rparr>)"
    and random_write: "R s (s\<lparr>c_random_reads := n\<rparr>)"
    and counter_write: "R s (s\<lparr>c_auto_increment_counters := cs\<rparr>)"
begin

lemma keeps_reads: "keeps R read_now" "keeps R read_random"
  by (simp_all add: keeps_def read_now_def read_random_def now_write random_write)

lemma keeps_new_id: "keeps R new_id"
  unfolding new_id_def random_hex_def hex_of_random_def mint_id_def
  by (intro keeps_rules keeps_reads)

lemma keeps_stamp_auto: "keeps R (stamp_auto_increment t td d)"
  unfolding stamp_auto_increment_def
  by (auto intro!: keeps_rules keeps_modify counter_write split: option.splits)

lemma keeps_scan: "keeps R (scan_ids_by_filter x td t f l)"
  unfolding scan_ids_by_filter_def by (intro keeps_rules keeps_reads)

lemma keeps_check_deadline: "keeps R (check_deadline d)"
  unfolding check_deadline_def by (auto intro!: keeps_rules keeps_reads split: option.splits)

end

locale schedule_rel = counter_rel +
  assumes schedules_write: "R s (s\<lparr>c_schedules := js\<rparr>)"
begin

lemma keeps_schedule: "keeps R (schedule txn w ext)"
  unfolding schedule_def
  by (intro keeps_rules keeps_reads keeps_new_id keeps_modify schedules_write)

lemma keeps_cancel: "keeps R (cancel_schedule i)"
  unfolding cancel_schedule_def by (auto intro!: keeps_rules keeps_modify schedules_write)

lemma keeps_step_cancel: "keeps R (step_cancel_schedule i)"
  using keeps_cancel[of i]
  by (auto simp: keeps_def step_cancel_schedule_def split: prod.splits sum.splits) (metis snd_conv)+

end

text \<open>The steps that write the schedule store.\<close>

fun schedules_step :: "step \<Rightarrow> bool" where
  "schedules_step (Schedule w txn e) = True"
| "schedules_step (CancelSchedule i) = True"
| "schedules_step _ = False"

locale rows_rel = counter_rel +
  assumes docs_write: "R s (s\<lparr>c_docs := ds\<rparr>)"
begin

lemma keeps_update_row: "keeps R (modifyM (update_row k f))"
  by (rule keeps_modify) (simp add: update_row_def put_row_def docs_write refl split: option.splits)

lemma keeps_row_writes: "keeps R (modifyM (put_row k row))" "keeps R (modifyM (drop_row k))"
  by (rule keeps_modify; simp add: put_row_def drop_row_def docs_write)+

lemma keeps_do_update: "keeps R (do_update x td t i d)"
  unfolding do_update_def by (intro keeps_rules keeps_update_row)

lemma keeps_do_insert: "keeps R (do_insert x t td d)"
  unfolding do_insert_def Let_def
  by (intro keeps_rules keeps_reads keeps_stamp_auto keeps_new_id keeps_row_writes)

lemma keeps_do_patch: "keeps R (do_patch x td t i p)"
  unfolding do_patch_def by (intro keeps_rules keeps_reads keeps_do_update)

lemma keeps_do_replace: "keeps R (do_replace x td t i d)"
  unfolding do_replace_def Let_def by (intro keeps_rules keeps_reads keeps_update_row)

lemma keeps_do_delete: "keeps R (do_delete t i)"
  unfolding do_delete_def by (intro keeps_rules keeps_row_writes)

lemma keeps_do_soft_delete: "keeps R (do_soft_delete t i)"
  unfolding do_soft_delete_def by (intro keeps_rules keeps_reads keeps_update_row)

lemma keeps_do_undelete: "keeps R (do_undelete x td t i)"
  unfolding do_undelete_def by (auto intro!: keeps_rules keeps_update_row)

lemmas keeps_ops = keeps_reads keeps_do_update keeps_do_insert keeps_do_patch keeps_do_replace
  keeps_do_delete keeps_do_soft_delete keeps_do_undelete keeps_scan

definition on_fst :: "client \<times> cascade \<Rightarrow> client \<times> cascade \<Rightarrow> bool" where
  "on_fst sc sc' \<longleftrightarrow> R (fst sc) (fst sc')"

lemma on_fst_preorder: "preorder_rel on_fst"
  by unfold_locales (auto simp: on_fst_def refl intro: trans)

lemma keeps_on_client: "keeps R m \<Longrightarrow> keeps on_fst (on_client m)"
  by (auto simp: keeps_def on_client_def on_fst_def split: prod.splits) (metis snd_conv)

lemma keeps_cascade_prims: "keeps on_fst (cascade_enter k)" "keeps on_fst charge" "keeps on_fst (touch t)"
  by (simp_all add: keeps_def on_fst_def cascade_enter_def charge_def touch_def run_simps refl
      split: prod.splits)

lemma keeps_cascade_fuel: "keeps on_fst (cascade_fuel n x h t i)"
proof (induction n arbitrary: t i)
  case 0
  then show ?case
    by (simp add: preorder_rel.keeps_pure[OF on_fst_preorder])
next
  case (Suc n)
  have "keeps on_fst (cascade_entry (cascade_fuel n x h) x i e)" for e
    unfolding cascade_entry_def set_null_child_def
    by (auto intro!: preorder_rel.keeps_rules[OF on_fst_preorder] keeps_on_client keeps_ops
        keeps_cascade_prims Suc split: prod.splits on_delete_action.splits)
  then show ?case
    by (auto simp: cascade_body_def intro!: preorder_rel.keeps_rules[OF on_fst_preorder]
        keeps_on_client keeps_ops keeps_cascade_prims)
qed

lemma keeps_delete_row_cascade: "keeps on_fst (delete_row_cascade x h t i)"
  unfolding delete_row_cascade_def by (rule keeps_cascade_fuel)

lemma keeps_with_cascade: "keeps on_fst m \<Longrightarrow> keeps R (with_cascade m)"
  unfolding keeps_def with_cascade_def on_fst_def
  by (auto split: prod.splits sum.splits) (metis fst_conv snd_conv)+

lemma keeps_row_step: "\<not> schedules_step st \<Longrightarrow> keeps R (run_step x st)"
  by (cases st)
     (auto simp: step_insert_def step_insert_many_def step_upsert_def step_upsert_many_def step_patch_def
      step_adjust_counter_def step_replace_def step_delete_def step_undelete_def step_expect_version_def
      step_expect_fields_def step_expect_absent_def step_expect_no_match_def step_patch_by_query_def
      patch_by_query_def step_delete_by_query_def delete_by_query_def step_workflow_def table_of_def
    intro!: keeps_rules keeps_ops keeps_with_cascade keeps_delete_row_cascade
      preorder_rel.keeps_each[OF on_fst_preorder]
    split: prod.splits list.splits step_result.splits)

end

locale data_rel = rows_rel R + schedule_rel R for R
begin

lemma keeps_step: "keeps R (run_step x st)"
proof (cases "schedules_step st")
  case True
  then show ?thesis
    by (cases st) (auto simp: step_schedule_def intro!: keeps_rules keeps_schedule keeps_step_cancel)
qed (rule keeps_row_step)

lemma keeps_execute_step: "keeps R (execute_step x st)"
  unfolding execute_step_def by (intro keeps_rules keeps_step)

lemma keeps_run_steps: "keeps R (run_steps x d sts)"
  unfolding run_steps_def by (intro keeps_rules keeps_execute_step keeps_check_deadline)

end

section \<open>The settings of a client\<close>

text \<open>Everything of a client but its rows, its schedules and the counters it draws from.\<close>

definition settings ::
  "client \<Rightarrow> schema_def option \<times> (string \<times> table_def) list \<times> (string \<times> step_result list) list \<times> bool
     \<times> (nat \<Rightarrow> int) \<times> (nat \<Rightarrow> f64)" where
  "settings s = (c_schema s, c_tables s, c_idempotency s, c_read_only s, c_now s, c_random s)"

interpretation frame: data_rel "same_rel settings"
  by unfold_locales (simp_all add: same_rel_def settings_def)

text \<open>The rows are written by the row operations alone.\<close>

interpretation docs: schedule_rel "same_rel c_docs"
  by unfold_locales (simp_all add: same_rel_def)

text \<open>The schedules are written by the schedule steps alone.\<close>

interpretation jobs: rows_rel "same_rel c_schedules"
  by unfold_locales (simp_all add: same_rel_def)

lemma keeps_rollback:
  assumes "keeps (same_rel settings) m"
  shows "keeps (same_rel settings) (rollback_on_error m)"
proof (rule keepsI)
  fix s r s'
  assume run: "rollback_on_error m s = (r, s')"
  obtain r1 s1 where m: "m s = (r1, s1)"
    by (cases "m s")
  then show "same_rel settings s s'"
    using keepsD[OF assms m] run
    by (auto simp: rollback_on_error_def restore_def same_rel_def settings_def split: sum.splits)
qed

lemma execute_transaction_frame: "keeps (same_rel settings) (execute_transaction x txn)"
  unfolding execute_transaction_def
  by (intro same.keeps_rules frame.keeps_check_deadline keeps_rollback frame.keeps_run_steps)

lemma check_deadline_data:
  "check_deadline d s = (r, s') \<Longrightarrow> c_docs s' = c_docs s \<and> c_schedules s' = c_schedules s"
  by (auto simp: check_deadline_def read_now_def run_simps split: option.splits if_splits)

lemma rollback_data:
  "rollback_on_error m s = (Inl e, s') \<Longrightarrow> c_docs s' = c_docs s \<and> c_schedules s' = c_schedules s"
  by (auto simp: rollback_on_error_def restore_def split: prod.splits sum.splits)

lemma execute_transaction_rollback:
  "execute_transaction x txn s = (Inl e, s') \<Longrightarrow> c_docs s' = c_docs s \<and> c_schedules s' = c_schedules s"
  using check_deadline_data rollback_data
  unfolding execute_transaction_def
  by (fastforce simp: run_simps split: prod.splits sum.splits)

text \<open>
  C1: a transaction is atomic: when any of its steps fails, or its deadline has passed
  before or after the steps, the rows and the schedules are exactly those before it; and
  whatever its outcome it writes neither the schema, the table definitions, the
  idempotency cache nor the read-only flag.
\<close>

theorem execute_transaction_atomic:
  assumes "execute_transaction x txn s = (r, s')"
  shows "settings s' = settings s \<and> (is_ok r \<or> c_docs s' = c_docs s \<and> c_schedules s' = c_schedules s)"
proof
  show "settings s' = settings s"
    using keepsD[OF execute_transaction_frame assms] by (simp add: same_rel_def)
  show "is_ok r \<or> c_docs s' = c_docs s \<and> c_schedules s' = c_schedules s"
    using assms execute_transaction_rollback[of x txn s _ s'] by (cases r) auto
qed

definition failing_txn :: transaction where
  "failing_txn = Transaction
     [Patch ''users'' (sample_id CHR ''a'') [(''score'', json_of_int 9)],
      Delete ''users'' (sample_id CHR ''a''),
      ExpectVersion ''users'' (sample_id CHR ''b'') 7]"

lemma failing_run: "fst (execute_transaction sample_ext failing_txn sample_client) = Inl PreconditionFailed"
  by code_simp

theorem execute_transaction_atomic_witness:
  "fst (execute_transaction sample_ext failing_txn sample_client) = Inl PreconditionFailed
   \<and> c_docs (snd (execute_transaction sample_ext failing_txn sample_client)) = sample_rows
   \<and> length (c_docs (snd (run_steps sample_ext None (txn_steps failing_txn) sample_client))) < length sample_rows"
proof (intro conjI)
  show "length (c_docs (snd (run_steps sample_ext None (txn_steps failing_txn) sample_client))) < length sample_rows"
    by code_simp
  show "c_docs (snd (execute_transaction sample_ext failing_txn sample_client)) = sample_rows"
    using failing_run
      execute_transaction_atomic[OF surjective_pairing, of sample_ext failing_txn sample_client]
    by (simp add: sample_client_def)
qed (rule failing_run)

end
