(* ===== verification/Store_Inv.thy ===== *)
theory Store_Inv
  imports Frame
begin

text \<open>
  The invariant of the row store and its preservation: every stored document is valid
  for its table, rows are filed under their id, and no two live rows of a table share
  the key of a unique index.  Each operation is shown to keep it on every path,
  failing ones included.
\<close>

section \<open>The invariant\<close>

definition row_ok :: "ext \<Rightarrow> (string \<times> table_def) list \<Rightarrow> row_key \<Rightarrow> stored_row \<Rightarrow> bool" where
  "row_ok x ts k row \<longleftrightarrow>
     row_id row = snd k \<and> bt_ok (row_doc row)
     \<and> (case map_of ts (fst k) of
          None \<Rightarrow> False
        | Some td \<Rightarrow> validate_doc x td (JObject (row_doc row)) = Inr ())"

text \<open>Two live rows of a table that hold the same key of one of its unique indexes.\<close>

definition rows_clash :: "ext \<Rightarrow> table_def \<Rightarrow> stored_row \<Rightarrow> stored_row \<Rightarrow> bool" where
  "rows_clash x td r q \<longleftrightarrow>
     is_live r \<and> is_live q
     \<and> (\<exists>ix\<in>set (td_indexes td). ix_unique ix \<and> unique_key x td ix (row_doc r) \<noteq> None
          \<and> unique_key x td ix (row_doc r) = unique_key x td ix (row_doc q))"

definition unique_ok :: "ext \<Rightarrow> (string \<times> table_def) list \<Rightarrow> (row_key \<times> stored_row) list \<Rightarrow> bool" where
  "unique_ok x ts ds \<longleftrightarrow>
     (\<forall>e\<in>set ds. \<forall>e'\<in>set ds. fst (fst e) = fst (fst e') \<and> fst e \<noteq> fst e' \<longrightarrow>
        (case map_of ts (fst (fst e)) of
           None \<Rightarrow> True | Some td \<Rightarrow> \<not> rows_clash x td (snd e) (snd e')))"

text \<open>The table map holds the tables of the schema, in whatever order it iterates.\<close>

definition same_tables :: "(string \<times> table_def) list \<Rightarrow> (string \<times> table_def) list \<Rightarrow> bool" where
  "same_tables ts us \<longleftrightarrow> hm_ok ts \<and> hm_ok us \<and> set ts = set us"

lemma same_tables_get: "same_tables ts us \<Longrightarrow> map_of ts = map_of us"
  by (simp add: same_tables_def hm_ok_def map_of_inject_set)

definition schema_synced :: "client \<Rightarrow> bool" where
  "schema_synced s \<longleftrightarrow> (case c_schema s of None \<Rightarrow> True | Some sch \<Rightarrow> same_tables (c_tables s) (sd_tables sch))"

definition store_inv :: "ext \<Rightarrow> (string \<times> table_def) list \<Rightarrow> client \<Rightarrow> bool" where
  "store_inv x ts s \<longleftrightarrow>
     same_tables (c_tables s) ts \<and> (\<forall>p\<in>set ts. table_ok (snd p)) \<and> schema_synced s \<and> hm_ok (c_docs s)
     \<and> (\<forall>e\<in>set (c_docs s). row_ok x ts (fst e) (snd e)) \<and> unique_ok x ts (c_docs s)"

lemma store_inv_tables: "store_inv x ts s \<Longrightarrow> map_of (c_tables s) = map_of ts"
  by (simp add: store_inv_def same_tables_get)

lemma store_inv_schema:
  assumes "store_inv x ts s" "c_schema s = Some sch"
  shows "map_of (sd_tables sch) = map_of ts" "distinct (map fst (sd_tables sch))"
  using assms by (auto simp: store_inv_def schema_synced_def same_tables_def hm_ok_def map_of_inject_set)

lemma require_table_inv: "store_inv x ts s \<Longrightarrow> map_of ts t = Some td \<Longrightarrow> require_table s t = Inr td"
  by (simp add: require_table_def store_inv_tables)

lemma schema_synced_docs [simp]: "schema_synced (s\<lparr>c_docs := ds\<rparr>) = schema_synced s"
  by (simp add: schema_synced_def split: option.split)

lemma store_inv_cong:
  "c_docs s' = c_docs s \<Longrightarrow> settings s' = settings s \<Longrightarrow> store_inv x ts s' = store_inv x ts s"
  by (simp add: store_inv_def settings_def schema_synced_def split: option.split)

lemma store_inv_row: "store_inv x ts s \<Longrightarrow> map_of (c_docs s) k = Some row \<Longrightarrow> row_ok x ts k row"
  by (fastforce simp: store_inv_def dest: map_of_SomeD)

lemma rows_clash_sym: "rows_clash x td r q \<Longrightarrow> rows_clash x td q r"
  unfolding rows_clash_def by metis

lemma unique_ok_mono: "unique_ok x ts ds \<Longrightarrow> set ds' \<subseteq> set ds \<Longrightarrow> unique_ok x ts ds'"
  unfolding unique_ok_def by blast

section \<open>Writing and dropping a row\<close>

lemma set_hm_insert: "e \<in> set (hm_insert k v m) \<Longrightarrow> hm_ok m \<Longrightarrow> e = (k, v) \<or> e \<in> set m \<and> fst e \<noteq> k"
  by (induction m) (auto simp: hm_ok_def split: if_splits)

lemma set_hm_remove: "e \<in> set (hm_remove k m) \<Longrightarrow> e \<in> set m"
  by (auto simp: AList.delete_eq)

lemma unique_check_no_clash:
  assumes "check_unique_indexes x s td t d ex = Inr ()" "e \<in> set (c_docs s)" "fst (fst e) = t"
    and "ex \<noteq> Some (row_id (snd e))" "row_doc r = d"
  shows "\<not> rows_clash x td r (snd e)"
proof
  assume "rows_clash x td r (snd e)"
  then obtain ix key where ix: "ix \<in> set (td_indexes td)" "ix_unique ix" "is_live (snd e)"
    and key: "unique_key x td ix d = Some key" "unique_key x td ix (row_doc (snd e)) = Some key"
    using assms(5) by (force simp: rows_clash_def)
  have "list_ex (collides x td t ix key ex) (c_docs s)"
    using assms(2-4) ix(3) key(2) by (auto simp: list_ex_iff collides_def)
  moreover have "\<not> list_ex (collides x td t ix key ex) (c_docs s)"
    using assms(1) ix(1,2) key(1) by (auto simp: check_unique_indexes_def split: if_splits)
  ultimately show False by blast
qed

lemma store_inv_put:
  assumes inv: "store_inv x ts s" and td: "map_of ts t = Some td" and ok: "row_ok x ts (t, i) row"
    and uniq: "is_live row \<Longrightarrow> check_unique_indexes x s td t (row_doc row) ex = Inr ()"
    and ex: "ex = None \<or> ex = Some i"
  shows "store_inv x ts (put_row (t, i) row s)"
proof -
  let ?ds = "hm_insert (t, i) row (c_docs s)"
  have hm: "hm_ok (c_docs s)" and rows: "\<And>e. e \<in> set (c_docs s) \<Longrightarrow> row_ok x ts (fst e) (snd e)"
    and u: "unique_ok x ts (c_docs s)"
    using inv by (auto simp: store_inv_def)
  have clash: "\<not> rows_clash x td row (snd e)" if e: "e \<in> set (c_docs s)" "fst (fst e) = t" "fst e \<noteq> (t, i)" for e
  proof (cases "is_live row")
    case True
    have "row_id (snd e) \<noteq> i"
      using rows[OF e(1)] e(2,3) by (cases e) (auto simp: row_ok_def)
    then show ?thesis
      using unique_check_no_clash[OF uniq[OF True] e(1,2)] ex by auto
  qed (simp add: rows_clash_def)
  have "unique_ok x ts ?ds"
    unfolding unique_ok_def
  proof (intro ballI impI)
    fix e e'
    assume es: "e \<in> set ?ds" "e' \<in> set ?ds" "fst (fst e) = fst (fst e') \<and> fst e \<noteq> fst e'"
    show "case map_of ts (fst (fst e)) of None \<Rightarrow> True | Some td \<Rightarrow> \<not> rows_clash x td (snd e) (snd e')"
      using set_hm_insert[OF es(1) hm] set_hm_insert[OF es(2) hm]
    proof (elim disjE conjE)
      assume "e = ((t, i), row)" "e' \<in> set (c_docs s)" "fst e' \<noteq> (t, i)"
      then show ?thesis using clash es(3) td by auto
    next
      assume "e' = ((t, i), row)" "e \<in> set (c_docs s)" "fst e \<noteq> (t, i)"
      then show ?thesis using clash[of e] rows_clash_sym[of x td "snd e" row] es(3) td by auto
    next
      assume "e \<in> set (c_docs s)" "e' \<in> set (c_docs s)"
      then show ?thesis using u es(3) unfolding unique_ok_def by blast
    qed (use es(3) in auto)
  qed
  moreover have "row_ok x ts (fst e) (snd e)" if "e \<in> set ?ds" for e
    using set_hm_insert[OF that hm] ok rows[of e] by auto
  ultimately show ?thesis
    using inv hash.invar_insert[OF hm] by (simp add: store_inv_def put_row_def)
qed

lemma store_inv_drop: "store_inv x ts s \<Longrightarrow> store_inv x ts (drop_row k s)"
  using set_hm_remove[of _ k "c_docs s"]
  by (auto simp: store_inv_def drop_row_def hash.invar_remove elim: unique_ok_mono)

lemma store_inv_update:
  assumes "store_inv x ts s"
    and "\<And>row. map_of (c_docs s) (t, i) = Some row \<Longrightarrow> row_ok x ts (t, i) row \<Longrightarrow>
       row_ok x ts (t, i) (f row)
       \<and> (is_live (f row) \<longrightarrow> (\<exists>td. map_of ts t = Some td
            \<and> check_unique_indexes x s td t (row_doc (f row)) (Some i) = Inr ()))"
  shows "store_inv x ts (update_row (t, i) f s)"
proof (cases "map_of (c_docs s) (t, i)")
  case (Some row)
  note ok = store_inv_row[OF assms(1) Some]
  obtain td where td: "map_of ts t = Some td"
    using ok by (auto simp: row_ok_def split: option.splits)
  show ?thesis
    using store_inv_put[OF assms(1) td, of i "f row" "Some i"] assms(2)[OF Some ok] td Some
    by (auto simp: update_row_def)
qed (simp add: update_row_def assms(1))

lemma row_ok_bump [simp]: "row_ok x ts k (bump row) = row_ok x ts k row"
  by (simp add: row_ok_def bump_def split: option.split)

lemma bump_simps [simp]: "is_live (bump row) = is_live row" "row_doc (bump row) = row_doc row"
  by (simp_all add: bump_def is_live_def)

section \<open>Documents\<close>

lemma map_of_strip_unset:
  "distinct (map fst m) \<Longrightarrow> map_of (strip_unset_optionals td m) f =
     (case map_of m f of Some v \<Rightarrow> if unset_optional td f v then None else Some v | None \<Rightarrow> None)"
  unfolding strip_unset_optionals_def
  by (induction m) (auto simp: map_of_eq_None_iff split: option.splits)

lemma strip_unset_ok: "bt_ok m \<Longrightarrow> bt_ok (strip_unset_optionals td m)"
  by (induction m) (auto simp: bt_ok_def strip_unset_optionals_def)

lemma unset_is_optional: "unset_optional td f v \<Longrightarrow> map_of (td_fields td) f = Some ty \<Longrightarrow> is_optional ty"
  by (auto simp: unset_optional_def split: field_type.splits)

lemma validate_doc_iff:
  "validate_doc x td (JObject m) = Inr () \<longleftrightarrow>
     (\<forall>k\<in>fst ` set m. \<not> starts_with ''_'' k \<and> map_of (td_fields td) k \<noteq> None)
     \<and> (\<forall>p\<in>set (td_fields td). validate_field x td m p = Inr ())"
  by (auto simp: validate_doc_def split: if_splits)

lemma strip_unset_valid:
  assumes "validate_doc x td (JObject m) = Inr ()" "bt_ok m" "table_ok td"
  shows "validate_doc x td (JObject (strip_unset_optionals td m)) = Inr ()"
proof -
  have "validate_field x td (strip_unset_optionals td m) p = Inr ()" if p: "p \<in> set (td_fields td)" for p
  proof -
    have v: "validate_field x td m p = Inr ()"
      using assms(1) p by (simp add: validate_doc_iff)
    have ty: "map_of (td_fields td) (fst p) = Some (snd p)"
      using p assms(3) by (simp add: table_ok_def bt_ok_distinct)
    show ?thesis
      using v map_of_strip_unset[OF bt_ok_distinct[OF assms(2)], of td "fst p"] unset_is_optional[OF _ ty]
      by (auto simp: validate_field_def split: option.splits if_splits)
  qed
  moreover have "fst ` set (strip_unset_optionals td m) \<subseteq> fst ` set m"
    by (auto simp: strip_unset_optionals_def)
  ultimately show ?thesis
    using assms(1) unfolding validate_doc_iff by (meson subsetD)
qed

lemma stamps_ok:
  "bt_ok d \<Longrightarrow> bt_ok (stamp_ttl_default td d now)"
  "bt_ok d \<Longrightarrow> bt_ok (stamp_updated_at td d now)"
  "bt_ok d \<Longrightarrow> bt_ok (apply_defaults td d)"
  "bt_ok d \<Longrightarrow> bt_ok (drop_computed td d)"
proof -
  show "bt_ok (apply_defaults td d)" if "bt_ok d"
    using that unfolding apply_defaults_def by (intro fold_invariant[where P = bt_ok and Q = "\<lambda>_. True"]) auto
  show "bt_ok (drop_computed td d)" if "bt_ok d"
    using that unfolding drop_computed_def by (intro fold_invariant[where P = bt_ok and Q = "\<lambda>_. True"]) auto
qed (auto simp: stamp_ttl_default_def stamp_updated_at_def split: option.splits)

section \<open>Operations\<close>

lemma inv_table: "store_inv x ts s \<Longrightarrow> map_of ts t = Some td \<Longrightarrow> table_ok td"
  by (fastforce simp: store_inv_def dest: map_of_SomeD)

lemma ensures_table: "ensures (store_inv x ts) (table_of t) (\<lambda>td. map_of ts t = Some td)"
  unfolding table_of_def
  by (rule ensures_pure) (auto simp: require_table_def store_inv_tables split: option.splits)

lemma ensures_counters:
  assumes "keeps (same_rel c_docs) m" "keeps (same_rel settings) m"
  shows "ensures (store_inv x ts) m (\<lambda>_. True)"
proof (rule ensuresI)
  fix s r s'
  assume "store_inv x ts s" "m s = (r, s')"
  then show "store_inv x ts s' \<and> (\<forall>y. r = Inr y \<longrightarrow> True)"
    using keepsD[OF assms(1)] keepsD[OF assms(2)] store_inv_cong[of s' s] by (simp add: same_rel_def)
qed

lemmas ensures_reads =
  ensures_counters[OF docs.keeps_reads(1) frame.keeps_reads(1)]
  ensures_counters[OF docs.keeps_new_id frame.keeps_new_id]
  ensures_counters[OF docs.keeps_scan frame.keeps_scan]
  ensures_counters[OF docs.keeps_schedule frame.keeps_schedule]
  ensures_counters[OF docs.keeps_step_cancel frame.keeps_step_cancel]
  ensures_counters[OF docs.keeps_check_deadline frame.keeps_check_deadline]

lemma ensures_stamp_auto:
  assumes "bt_ok d"
  shows "ensures (store_inv x ts) (stamp_auto_increment t td d) bt_ok"
proof -
  have "ensures (store_inv x ts) (stamp_auto_increment t td d) (\<lambda>_. True)"
    by (rule ensures_counters[OF docs.keeps_stamp_auto frame.keeps_stamp_auto])
  moreover have "bt_ok d'" if "stamp_auto_increment t td d s = (Inr d', s')" for s s' d'
    using that assms by (auto simp: stamp_auto_increment_def run_simps split: option.splits)
  ultimately show ?thesis
    by (auto simp: ensures_def)
qed

lemma ensures_check_modify:
  assumes "\<And>s. I s \<Longrightarrow> h s = Inr () \<Longrightarrow> I (k s)"
  shows "ensures I (bindM (askM h) (\<lambda>_. modifyM k)) (\<lambda>_. True)"
  using assms by (auto simp: ensures_def run_simps split: sum.splits)

lemma ensures_live:
  "ensures (store_inv x ts) (askM (\<lambda>s. require_live s t i)) (\<lambda>row. row_ok x ts (t, i) row)"
  by (rule ensures_pure) (auto simp: require_live_def live_row_def store_inv_row split: option.splits if_splits)

lemma row_ok_doc:
  "row_ok x ts (t, i) row \<Longrightarrow> map_of ts t = Some td \<Longrightarrow> bt_ok d \<Longrightarrow> validate_doc x td (JObject d) = Inr () \<Longrightarrow>
   row_ok x ts (t, i) (row\<lparr>row_doc := d\<rparr>)"
  by (simp add: row_ok_def)

lemma ensures_write_doc:
  assumes "map_of ts t = Some td" "bt_ok d" "validate_doc x td (JObject d) = Inr ()"
  shows "ensures (store_inv x ts)
     (bindM (askM (\<lambda>s. check_unique_indexes x s td t d (Some i)))
        (\<lambda>_. modifyM (update_row (t, i) (\<lambda>row. bump (row\<lparr>row_doc := d\<rparr>))))) (\<lambda>_. True)"
  by (rule ensures_check_modify, rule store_inv_update) (auto simp: assms row_ok_doc)

lemma ensures_do_update:
  assumes "map_of ts t = Some td" "bt_ok d" "validate_doc x td (JObject d) = Inr ()"
  shows "ensures (store_inv x ts) (do_update x td t i d) (\<lambda>_. True)"
  unfolding do_update_def by (rule ensures_write_doc[OF assms])

lemma ensures_patch_update:
  assumes "map_of ts t = Some td" "bt_ok d"
  shows "ensures (store_inv x ts)
     (bindM (liftM (apply_patch x td d p now)) (do_update x td t i)) (\<lambda>_. True)"
  using assms apply_patch_ok[of x td d p now] apply_patch_valid[of x td d p now]
  by (intro ensures_bind[OF ensures_pure(3), of _ "\<lambda>m. apply_patch x td d p now = Inr m"] ensures_do_update)
     auto

lemma ensures_do_patch:
  assumes "map_of ts t = Some td"
  shows "ensures (store_inv x ts) (do_patch x td t i p) (\<lambda>_. True)"
  unfolding do_patch_def
  by (intro ensures_bind[OF ensures_live] ensures_bind'[OF ensures_reads(1)] ensures_patch_update assms)
     (simp add: row_ok_def)

lemma check_unique_cong:
  "c_docs s' = c_docs s \<Longrightarrow> check_unique_indexes x s' td t d ex = check_unique_indexes x s td t d ex"
  unfolding check_unique_indexes_def by (simp cong: option.case_cong)

lemma ensures_insert_row:
  assumes td: "map_of ts t = Some td" "bt_ok d" "validate_doc x td (JObject d) = Inr ()"
  shows "ensures (store_inv x ts)
     (bindM (askM (\<lambda>s. check_unique_indexes x s td t d None)) (\<lambda>_.
      bindM new_id (\<lambda>i.
      bindM read_now (\<lambda>created.
      bindM (modifyM (put_row (t, i)
               \<lparr>row_id = i, row_doc = d, row_version = 1, row_created_at = created,
                row_deleted_at = None\<rparr>)) (\<lambda>_.
      returnM i))))) (\<lambda>_. True)" (is "ensures _ (bindM ?check ?rest) _")
proof (rule ensuresI)
  fix s r s'
  assume inv: "store_inv x ts s" and run: "bindM ?check ?rest s = (r, s')"
  define c where "c = (\<lambda>s. store_inv x ts s \<and> check_unique_indexes x s td t d None = Inr ())"
  have c_inv: "c s'" if "c s" "m s = (r, s')" "keeps (same_rel c_docs) m" "keeps (same_rel settings) m"
    for m :: "'a m" and s r s'
    using that(1) keepsD[OF that(3,2)] keepsD[OF that(4,2)] store_inv_cong[of s' s] check_unique_cong[of s' s]
    by (simp add: c_def same_rel_def)
  have c_put: "store_inv x ts (put_row (t, i) \<lparr>row_id = i, row_doc = d, row_version = 1,
      row_created_at = now, row_deleted_at = None\<rparr> s)" if "c s" for s i now
    using that by (intro store_inv_put[OF _ td(1), where ex = None]) (simp_all add: c_def row_ok_def td)
  show "store_inv x ts s' \<and> (\<forall>y. r = Inr y \<longrightarrow> True)"
  proof (cases "check_unique_indexes x s td t d None")
    case (Inr u)
    then have "c s" by (simp add: c_def inv)
    obtain r1 s1 where m1: "new_id s = (r1, s1)"
      by (cases "new_id s")
    obtain r2 s2 where m2: "read_now s1 = (r2, s2)"
      by (cases "read_now s1")
    have "c s1"
      by (rule c_inv[OF \<open>c s\<close> m1 docs.keeps_new_id frame.keeps_new_id])
    moreover from this have "c s2"
      by (rule c_inv[OF _ m2 docs.keeps_reads(1) frame.keeps_reads(1)])
    ultimately show ?thesis
      using run Inr m1 m2 c_put[of s2] c_def by (cases r1; cases r2) (auto simp: run_simps)
  qed (use run inv in \<open>auto simp: run_simps\<close>)
qed

lemma ensures_stored:
  assumes td: "map_of ts t = Some td" and d: "bt_ok d"
    and rest: "\<And>d'. bt_ok d' \<Longrightarrow> validate_doc x td (JObject d') = Inr () \<Longrightarrow>
      ensures (store_inv x ts) (f d') Q"
  shows "ensures (store_inv x ts)
     (bindM (liftM (validate_doc x td (JObject d))) (\<lambda>_. f (strip_unset_optionals td d))) Q"
proof (rule ensuresI)
  fix s r s'
  assume inv: "store_inv x ts s"
    and run: "bindM (liftM (validate_doc x td (JObject d))) (\<lambda>_. f (strip_unset_optionals td d)) s = (r, s')"
  show "store_inv x ts s' \<and> (\<forall>y. r = Inr y \<longrightarrow> Q y)"
  proof (cases "validate_doc x td (JObject d)")
    case (Inr u)
    then have "ensures (store_inv x ts) (f (strip_unset_optionals td d)) Q"
      using d inv_table[OF inv td] by (intro rest strip_unset_ok strip_unset_valid) simp_all
    then show ?thesis
      using run Inr inv by (auto simp: run_simps ensures_def)
  qed (use run inv in \<open>auto simp: run_simps\<close>)
qed

lemma ensures_stamp_computed:
  "bt_ok d \<Longrightarrow> ensures I (liftM (stamp_computed x td d now)) bt_ok"
  by (rule ensures_pure) (rule stamp_computed_ok)

lemma ensures_do_insert:
  assumes "map_of ts t = Some td" "bt_ok d"
  shows "ensures (store_inv x ts) (do_insert x t td d) (\<lambda>_. True)"
  unfolding do_insert_def Let_def
  by (intro ensures_bind'[OF ensures_reads(1)] ensures_bind[OF ensures_stamp_auto]
      ensures_bind[OF ensures_stamp_computed] ensures_stored[OF assms(1)] ensures_insert_row stamps_ok assms)

lemma keep_auto_ok: "keep_auto_increment td prev d = Inr d' \<Longrightarrow> bt_ok d \<Longrightarrow> bt_ok d'"
  by (auto simp: keep_auto_increment_def split: option.splits if_splits)

lemma ensures_do_replace:
  assumes "map_of ts t = Some td" "bt_ok d"
  shows "ensures (store_inv x ts) (do_replace x td t i d) (\<lambda>_. True)"
proof -
  have "ensures (store_inv x ts)
     (liftM (keep_auto_increment td prev (stamp_updated_at td (apply_defaults td d) now))) bt_ok" for prev now
    by (rule ensures_pure, erule keep_auto_ok) (intro stamps_ok assms)
  then show ?thesis
    unfolding do_replace_def Let_def
    by (intro ensures_bind[OF ensures_live] ensures_bind'[OF ensures_reads(1)] ensures_bind
        ensures_bind[OF ensures_stamp_computed] ensures_stored[OF assms(1)] ensures_write_doc stamps_ok assms)
qed

lemma ensures_do_delete: "ensures (store_inv x ts) (do_delete t i) (\<lambda>_. True)"
  unfolding do_delete_def
  by (intro ensures_bind' ensures_pure ensures_modify store_inv_drop TrueI)

lemma ensures_do_soft_delete: "ensures (store_inv x ts) (do_soft_delete t i) (\<lambda>_. True)"
  unfolding do_soft_delete_def
  by (intro ensures_bind' ensures_reads ensures_pure ensures_modify store_inv_update TrueI)
     (auto simp: row_ok_def is_live_def bump_def split: option.splits)

lemma ensures_do_undelete:
  assumes "map_of ts t = Some td"
  shows "ensures (store_inv x ts) (do_undelete x td t i) (\<lambda>_. True)"
proof (rule ensuresI)
  fix s r s'
  assume inv: "store_inv x ts s" and run: "do_undelete x td t i s = (r, s')"
  have "store_inv x ts (update_row (t, i) (\<lambda>row. bump (row\<lparr>row_deleted_at := None\<rparr>)) s)"
    if "map_of (c_docs s) (t, i) = Some row" "check_unique_indexes x s td t (row_doc row) (Some i) = Inr ()" for row
    using that assms by (intro store_inv_update[OF inv]) (auto simp: row_ok_def bump_def split: option.splits)
  then show "store_inv x ts s' \<and> (\<forall>y. r = Inr y \<longrightarrow> True)"
    using run inv
    by (auto simp: do_undelete_def run_simps split: option.splits if_splits sum.splits)
qed

section \<open>Cascades\<close>

definition fst_inv :: "(client \<Rightarrow> bool) \<Rightarrow> client \<times> cascade \<Rightarrow> bool" where
  "fst_inv I sc \<longleftrightarrow> I (fst sc)"

lemma ensures_on_client: "ensures I m Q \<Longrightarrow> ensures (fst_inv I) (on_client m) Q"
  by (auto simp: ensures_def fst_inv_def on_client_def split: prod.splits)

lemma ensures_cascade_prims:
  "ensures (fst_inv I) (cascade_enter k) (\<lambda>_. True)" "ensures (fst_inv I) charge (\<lambda>_. True)"
  "ensures (fst_inv I) (touch t) (\<lambda>_. True)"
  by (auto simp: ensures_def fst_inv_def cascade_enter_def charge_def touch_def run_simps
      split: prod.splits if_splits)

lemma plan_table:
  assumes "e \<in> set (cascade_plan sch t)" "distinct (map fst (sd_tables sch))"
  shows "map_of (sd_tables sch) (fst e) = Some (fst (snd e))"
  using assms by (auto simp: cascade_plan_def List.map_filter_def split: prod.splits if_splits)

lemma ensures_cascade_fuel: "ensures (fst_inv (store_inv x ts)) (cascade_fuel n x h t i) (\<lambda>_. True)"
proof (induction n arbitrary: t i)
  case (Suc n)
  have entry: "ensures (fst_inv (store_inv x ts)) (cascade_entry (cascade_fuel n x h) x i e) (\<lambda>_. True)"
    if "map_of ts (fst e) = Some (fst (snd e))" for e
    using that unfolding cascade_entry_def set_null_child_def
    by (auto intro!: ensures_rules ensures_on_client ensures_do_patch ensures_cascade_prims Suc
        split: prod.splits on_delete_action.splits)
  have sch: "ensures (fst_inv (store_inv x ts))
     (askM (\<lambda>(s, c). case c_schema s of None \<Rightarrow> Inl Internal | Some sch \<Rightarrow> Inr sch))
     (\<lambda>sch. \<forall>e\<in>set (cascade_plan sch t). map_of ts (fst e) = Some (fst (snd e)))"
    by (rule ensures_pure)
       (auto simp: fst_inv_def split: option.splits prod.splits dest!: plan_table dest: store_inv_schema)
  have "ensures (fst_inv (store_inv x ts))
     (bindM (askM (\<lambda>(s, c). case c_schema s of None \<Rightarrow> Inl Internal | Some sch \<Rightarrow> Inr sch)) (\<lambda>sch.
      bindM (eachM (cascade_entry (cascade_fuel n x h) x i) (cascade_plan sch t)) (\<lambda>_.
      bindM (on_client (do_delete t i)) (\<lambda>_. touch t)))) (\<lambda>_. True)"
    by (rule ensures_bind[OF sch])
       (intro ensures_bind' ensures_each ensures_on_client ensures_do_delete ensures_cascade_prims entry; simp)
  then show ?case
    by (auto simp: cascade_body_def intro!: ensures_rules(1-7) ensures_bind' ensures_on_client
        ensures_do_soft_delete ensures_cascade_prims)
qed (simp add: ensures_pure)

section \<open>Transactions\<close>

text \<open>The documents a step stores; a JSON object has its keys sorted.\<close>

fun step_docs :: "step \<Rightarrow> doc list" where
  "step_docs (Insert t d) = [d]"
| "step_docs (InsertMany t ds) = ds"
| "step_docs (UpsertMany t ix ds) = ds"
| "step_docs (Replace t i d) = [d]"
| "step_docs (Upsert t ix eq ins p) = [ins]"
| "step_docs _ = []"

definition txn_ok :: "transaction \<Rightarrow> bool" where
  "txn_ok txn \<longleftrightarrow> (\<forall>st\<in>set (txn_steps txn). \<forall>d\<in>set (step_docs st). bt_ok d)"

lemma ensures_eq_lookup:
  "ensures (store_inv x ts) (askM (\<lambda>s. eq_lookup s td t ix eq)) (\<lambda>rows. \<forall>row\<in>set rows. bt_ok (row_doc row))"
  by (rule ensures_pure) (fastforce simp: eq_lookup_def store_inv_def row_ok_def split: if_splits)

lemma ensures_step_upsert:
  assumes "bt_ok ins"
  shows "ensures (store_inv x ts) (step_upsert x t ix eq ins p) (\<lambda>_. True)"
proof -
  have *: "bindM (liftM r) (\<lambda>m. bindM (do_update x td t i m) f) = bindM (bindM (liftM r) (do_update x td t i)) f"
    for r :: "doc res" and td i and f :: "unit \<Rightarrow> step_out m"
    by (auto simp: fun_eq_iff bindM_def liftM_def split: sum.splits prod.splits)
  show ?thesis
    unfolding step_upsert_def *
    by (intro ensures_bind[OF ensures_table] ensures_bind[OF ensures_eq_lookup])
       (auto intro!: ensures_pure ensures_bind' ensures_patch_update ensures_do_insert ensures_reads assms
          split: list.splits)
qed

lemma ensures_step_upsert_many:
  assumes "\<forall>d\<in>set ds. bt_ok d"
  shows "ensures (store_inv x ts) (step_upsert_many x t ix ds) (\<lambda>_. True)"
  unfolding step_upsert_many_def using assms
  by (intro ensures_bind' ensures_pure ensures_map ensures_table ensures_weaken[OF ensures_table])
     (auto intro!: ensures_bind' ensures_pure ensures_step_upsert split: prod.splits step_result.splits)

lemma ensures_with_cascade: "ensures (fst_inv I) m Q \<Longrightarrow> ensures I (with_cascade m) (\<lambda>_. True)"
  by (fastforce simp: ensures_def fst_inv_def with_cascade_def split: prod.splits sum.splits)

lemma ensures_delete_row_cascade:
  "ensures (fst_inv (store_inv x ts)) (delete_row_cascade x h t i) (\<lambda>_. True)"
  unfolding delete_row_cascade_def by (rule ensures_cascade_fuel)

lemma ensures_table_bind:
  "(\<And>td. map_of ts t = Some td \<Longrightarrow> ensures (store_inv x ts) (f td) Q) \<Longrightarrow>
   ensures (store_inv x ts) (bindM (table_of t) f) Q"
  by (rule ensures_bind[OF ensures_table])

lemmas ensures_ops = ensures_reads ensures_do_insert ensures_do_patch ensures_do_replace
  ensures_do_soft_delete ensures_do_undelete ensures_step_upsert ensures_step_upsert_many
  ensures_with_cascade[OF ensures_delete_row_cascade]
  ensures_with_cascade[OF ensures_each[OF ensures_delete_row_cascade]]

lemmas step_defs = step_insert_def step_insert_many_def step_patch_def
  step_adjust_counter_def step_replace_def step_delete_def step_undelete_def step_expect_version_def
  step_expect_fields_def step_expect_absent_def step_expect_no_match_def step_patch_by_query_def
  patch_by_query_def step_delete_by_query_def delete_by_query_def step_schedule_def step_workflow_def

lemma ensures_run_step:
  assumes "\<forall>d\<in>set (step_docs st). bt_ok d"
  shows "ensures (store_inv x ts) (run_step x st) (\<lambda>_. True)"
  using assms
  by (cases st)
     (auto simp: step_defs intro!: ensures_table_bind ensures_ops ensures_bind' ensures_pure ensures_each
        ensures_map split: prod.splits)

lemma ensures_rollback:
  assumes "ensures (store_inv x ts) m (\<lambda>_. True)" "keeps (same_rel settings) m"
  shows "ensures (store_inv x ts) (rollback_on_error m) (\<lambda>_. True)"
proof (rule ensuresI)
  fix s r s'
  assume inv: "store_inv x ts s" and run: "rollback_on_error m s = (r, s')"
  obtain r1 s1 where m: "m s = (r1, s1)"
    by (cases "m s")
  have "store_inv x ts (restore s s1)"
    using inv store_inv_cong[of "restore s s1" s] keepsD[OF assms(2) m]
    by (simp add: restore_def same_rel_def settings_def)
  then show "store_inv x ts s' \<and> (\<forall>y. r = Inr y \<longrightarrow> True)"
    using run m ensuresD[OF assms(1) inv m] by (auto simp: rollback_on_error_def split: sum.splits)
qed

lemma ensures_execute_transaction:
  assumes "txn_ok txn"
  shows "ensures (store_inv x ts) (execute_transaction x txn) (\<lambda>_. True)"
proof -
  have "ensures (store_inv x ts) (run_steps x d (txn_steps txn)) (\<lambda>_. True)" for d
    using assms unfolding run_steps_def execute_step_def txn_ok_def
    by (intro ensures_bind' ensures_map ensures_pure ensures_reads ensures_run_step) auto
  then show ?thesis
    unfolding execute_transaction_def
    by (intro ensures_bind' ensures_pure ensures_reads ensures_rollback frame.keeps_run_steps TrueI)
qed

lemma ensures_mutate:
  assumes "txn_ok txn"
  shows "ensures (store_inv x ts) (mutate x txn mid) (\<lambda>_. True)"
  unfolding mutate_def
  by (auto intro!: ensures_bind' ensures_pure ensures_execute_transaction[OF assms] ensures_modify
      simp: store_inv_def schema_synced_def split: option.splits)

text \<open>
  C2: every stored document stays valid for its table and every unique index stays
  unique: a mutation, whatever its steps and whether it succeeds or fails, leaves the rows
  filed under their ids, each live or soft-deleted document accepted by the validator of
  its table, and no two live rows of a table with the same key of a unique index.
\<close>

theorem mutate_store_inv:
  assumes "store_inv x ts s" "txn_ok txn" "mutate x txn mid s = (r, s')"
  shows "store_inv x ts s'"
  using ensuresD[OF ensures_mutate[OF assms(2)] assms(1,3)] .

lemma sample_inv: "store_inv sample_ext (sd_tables sample_schema) sample_client"
  by code_simp

definition sample_txn :: transaction where
  "sample_txn = Transaction
     [Delete ''users'' (sample_id CHR ''a''),
      Insert ''users'' [(''email'', JString ''a@x''), (''score'', json_of_int 1)]]"

theorem mutate_store_inv_witness:
  "is_ok (fst (mutate sample_ext sample_txn None sample_client))
   \<and> store_inv sample_ext (sd_tables sample_schema) (snd (mutate sample_ext sample_txn None sample_client))"
proof
  show "is_ok (fst (mutate sample_ext sample_txn None sample_client))"
    by code_simp
  have "txn_ok sample_txn"
    by code_simp
  then show "store_inv sample_ext (sd_tables sample_schema) (snd (mutate sample_ext sample_txn None sample_client))"
    by (rule mutate_store_inv[OF sample_inv _ surjective_pairing])
qed

end
