(* ===== verification/Txn_Props.thy ===== *)
theory Txn_Props
  imports Store_Inv "HOL-Library.Multiset"
begin

text \<open>
  What a transaction promises its caller: the effect of the single-row writes, the
  optimistic concurrency guard, idempotent replay, deadlines, bounded counters and
  the limits a request is admitted under.
\<close>

lemma ok_pair: "is_ok (fst p) \<Longrightarrow> p = (Inr (projr (fst p)), snd p)"
  by (cases p; cases "fst p") auto

lemma sample_id_eq [simp]: "sample_id c = sample_id d \<longleftrightarrow> c = d"
  by (simp add: sample_id_def)

section \<open>Single rows\<close>

lemma map_of_put_row [simp]: "map_of (c_docs (put_row k row s)) = (map_of (c_docs s))(k \<mapsto> row)"
  by (simp add: put_row_def update_conv')

lemma map_of_update_row:
  "map_of (c_docs (update_row k f s)) = (map_of (c_docs s))(k := map_option f (map_of (c_docs s) k))"
  by (auto simp: update_row_def fun_eq_iff split: option.splits)

lemma map_of_drop_row [simp]: "map_of (c_docs (drop_row k s)) = (map_of (c_docs s))(k := None)"
  by (simp add: drop_row_def delete_conv')

definition tick_clock :: "client \<Rightarrow> client" where
  "tick_clock s = s\<lparr>c_now_reads := Suc (c_now_reads s)\<rparr>"

lemma tick_clock_simps [simp]: "c_docs (tick_clock s) = c_docs s" "c_tables (tick_clock s) = c_tables s"
  by (simp_all add: tick_clock_def)

lemma read_now_run [run_simps]: "read_now s = (Inr (c_now s (c_now_reads s)), tick_clock s)"
  by (simp add: read_now_def tick_clock_def)

lemma live_row_Some:
  "live_row s t i = Some row \<longleftrightarrow> map_of (c_docs s) (t, i) = Some row \<and> is_live row"
  by (auto simp: live_row_def split: option.splits)

lemma is_live_doc [simp]: "is_live (row\<lparr>row_doc := d\<rparr>) = is_live row"
  by (simp add: is_live_def)

lemma require_live_Inr: "require_live s t i = Inr row \<longleftrightarrow> live_row s t i = Some row"
  by (auto simp: require_live_def split: option.splits)

lemma do_patch_run:
  assumes "do_patch x td t i p s = (Inr u, s')"
  shows "\<exists>row d. live_row s t i = Some row
     \<and> apply_patch x td (row_doc row) (stamp_updated_at td p (c_now s (c_now_reads s))) (c_now s (c_now_reads s)) = Inr d
     \<and> s' = put_row (t, i) (bump (row\<lparr>row_doc := d\<rparr>)) (tick_clock s)"
  using assms
  by (auto simp: do_patch_def do_update_def run_simps update_row_def require_live_Inr live_row_Some
      split: sum.splits option.splits)

lemma do_replace_run:
  assumes "do_replace x td t i d s = (Inr u, s')"
  shows "\<exists>row d'. live_row s t i = Some row \<and> validate_doc x td (JObject d') = Inr ()
     \<and> s' = put_row (t, i) (bump (row\<lparr>row_doc := strip_unset_optionals td d'\<rparr>)) (tick_clock (tick_clock s))"
  using assms
  by (auto simp: do_replace_def Let_def run_simps update_row_def require_live_Inr live_row_Some
      split: sum.splits option.splits)

section \<open>Optimistic concurrency\<close>

text \<open>The row a step rewrites in place.\<close>

fun rewritten_row :: "step \<Rightarrow> row_key option" where
  "rewritten_row (Patch t i p) = Some (t, i)"
| "rewritten_row (Replace t i d) = Some (t, i)"
| "rewritten_row (AdjustCounter t i f d mn mx e) = Some (t, i)"
| "rewritten_row _ = None"

lemma wrap64_succ_neq: "wrap64 (v + 1) \<noteq> v"
proof
  assume "wrap64 (v + 1) = v"
  then show False
    using wrap64_cong[of "v + 1"] by simp
qed

lemma bindM_InrE:
  assumes "bindM m f s = (Inr y, s'')"
  obtains z s' where "m s = (Inr z, s')" "f z s' = (Inr y, s'')"
  using assms by (auto simp: bindM_Inr)

lemma liftM_Inr [simp]: "liftM r s = (Inr y, s') \<longleftrightarrow> r = Inr y \<and> s' = s"
  by (auto simp: liftM_def)

lemma askM_Inr [simp]: "askM h s = (Inr y, s') \<longleftrightarrow> h s = Inr y \<and> s' = s"
  by (auto simp: askM_def)

lemma returnM_eq [simp]: "returnM y s = (r, s') \<longleftrightarrow> r = Inr y \<and> s' = s"
  by (auto simp: returnM_def)

lemma rewrite_step_run:
  assumes "rewritten_row st = Some (t, i)" "execute_step x st s = (Inr out, s')"
  shows "\<exists>row d. live_row s t i = Some row
     \<and> map_of (c_docs s') = (map_of (c_docs s))((t, i) \<mapsto> bump (row\<lparr>row_doc := d\<rparr>))"
proof -
  have "\<exists>td p. do_patch x td t i p s = (Inr (), s') \<or> do_replace x td t i p s = (Inr (), s')"
    using assms
    by (cases st, auto simp: execute_step_def step_patch_def step_replace_def step_adjust_counter_def
        table_of_def elim!: bindM_InrE, blast+)
  then show ?thesis
    using do_patch_run do_replace_run by fastforce
qed

lemma execute_transaction_steps:
  assumes "execute_transaction x txn s = (Inr res, s')"
  shows "\<exists>dl s0 s1 outs. admit_transaction txn = Inr dl \<and> check_deadline dl s = (Inr (), s0)
     \<and> mapM (execute_step x) (txn_steps txn) s0 = (Inr outs, s1) \<and> check_deadline dl s1 = (Inr (), s')
     \<and> fst res = map fst outs"
  using assms
  by (auto simp: execute_transaction_def rollback_on_error_def run_steps_def elim!: bindM_InrE
      split: prod.splits sum.splits)

lemma check_deadline_docs: "check_deadline d s = (r, s') \<Longrightarrow> c_docs s' = c_docs s"
  using keepsD[OF docs.keeps_check_deadline] by (fastforce simp: same_rel_def)

lemma mapM_Cons_Inr:
  "mapM f (y # ys) s = (Inr zs, s') \<longleftrightarrow>
     (\<exists>z s1 zs'. f y s = (Inr z, s1) \<and> mapM f ys s1 = (Inr zs', s') \<and> zs = z # zs')"
  by (auto simp: bindM_Inr)

lemma transaction_first_step:
  assumes "execute_transaction x (Transaction (st # sts)) s = (Inr res, s')"
  obtains s0 out s1 outs s2 where "c_docs s0 = c_docs s" "execute_step x st s0 = (Inr out, s1)"
    "mapM (execute_step x) sts s1 = (Inr outs, s2)" "c_docs s' = c_docs s2"
proof -
  obtain dl s0 s2 outs where run: "check_deadline dl s = (Inr (), s0)"
    "mapM (execute_step x) (st # sts) s0 = (Inr outs, s2)" "check_deadline dl s2 = (Inr (), s')"
    using execute_transaction_steps[OF assms] by auto
  obtain out s1 outs' where "execute_step x st s0 = (Inr out, s1)" "mapM (execute_step x) sts s1 = (Inr outs', s2)"
    using run(2) unfolding mapM_Cons_Inr by blast
  then show thesis
    using that check_deadline_docs[OF run(1)] check_deadline_docs[OF run(3)] by blast
qed


definition cas_txn :: "step list \<Rightarrow> transaction" where
  "cas_txn w = Transaction (ExpectVersion ''users'' (sample_id CHR ''a'') 1 # w)"

definition cas_write :: step where
  "cas_write = Patch ''users'' (sample_id CHR ''a'') [(''score'', json_of_int 9)]"


section \<open>Idempotency and read-only databases\<close>

lemma mutate_cases:
  assumes "mutate x txn (Some m) s = (r, s')"
  shows "case map_of (c_idempotency s) m of
      Some rs \<Rightarrow> r = Inr rs \<and> s' = s
    | None \<Rightarrow>
        if c_read_only s then r = Inl ReadOnly \<and> s' = s
        else (case execute_transaction x txn s of
                (Inl e, s1) \<Rightarrow> r = Inl e \<and> s' = s1
              | (Inr (rs, ws), s1) \<Rightarrow>
                  r = Inr rs \<and> s' = s1\<lparr>c_idempotency := hm_insert m rs (c_idempotency s1)\<rparr>)"
  using assms
  by (cases "map_of (c_idempotency s) m"; cases "execute_transaction x txn s"; cases "fst (execute_transaction x txn s)")
     (auto simp: mutate_def run_simps)

lemma mutate_keeps_cached:
  assumes "map_of (c_idempotency s) m = Some rs" "mutate x txn mid s = (r, s')"
  shows "map_of (c_idempotency s') m = Some rs"
proof -
  obtain q s1 where ex: "execute_transaction x txn s = (q, s1)"
    by (cases "execute_transaction x txn s")
  have frame: "c_idempotency s1 = c_idempotency s"
    using keepsD[OF execute_transaction_frame ex] by (simp add: same_rel_def settings_def)
  show ?thesis
  proof (cases mid)
    case None
    then show ?thesis
      using assms frame ex by (cases q) (auto simp: mutate_def run_simps split: sum.splits)
  next
    case (Some m')
    then show ?thesis
      using assms frame ex mutate_cases[of x txn m' s r s']
      by (cases q) (auto simp: update_conv' split: option.splits if_splits)
  qed
qed

text \<open>A sequence of mutations, each with its transaction and its idempotency key.\<close>

fun mutations :: "ext \<Rightarrow> (transaction \<times> string option) list \<Rightarrow> client \<Rightarrow> client" where
  "mutations x [] s = s"
| "mutations x ((txn, mid) # ms) s = mutations x ms (snd (mutate x txn mid s))"

lemma mutations_keep_cached:
  "map_of (c_idempotency s) m = Some rs \<Longrightarrow> map_of (c_idempotency (mutations x ms s)) m = Some rs"
proof (induction x ms s rule: mutations.induct)
  case (2 x txn mid ms s)
  then show ?case
    using mutate_keeps_cached[OF 2(2), of x txn mid] by (cases "mutate x txn mid s") simp
qed simp

text \<open>
  C5: a mutation that committed under an idempotency key is never applied again: after any
  further mutations, whatever they are, sending the key again answers with the results of
  the first time and changes nothing, even when the database has become read-only.
\<close>

theorem mutate_replay:
  assumes "mutate x txn (Some m) s = (Inr rs, s')"
    and "s2 = (mutations x ms s')\<lparr>c_read_only := ro\<rparr>"
  shows "mutate x txn2 (Some m) s2 = (Inr rs, s2)"
proof -
  have "map_of (c_idempotency s') m = Some rs"
    using mutate_cases[OF assms(1)]
    by (auto simp: update_conv' split: option.splits if_splits prod.splits sum.splits)
  from mutations_keep_cached[OF this] show ?thesis
    by (simp add: assms(2) mutate_def run_simps)
qed

theorem mutate_replay_witness:
  "is_ok (fst (mutate sample_ext (cas_txn [cas_write]) (Some ''k'') sample_client))
   \<and> (let s = snd (mutate sample_ext (cas_txn [cas_write]) (Some ''k'') sample_client)
      in mutate sample_ext (cas_txn []) (Some ''k'') (s\<lparr>c_read_only := True\<rparr>)
         = (fst (mutate sample_ext (cas_txn [cas_write]) (Some ''k'') sample_client), s\<lparr>c_read_only := True\<rparr>))"
proof
  show ok: "is_ok (fst (mutate sample_ext (cas_txn [cas_write]) (Some ''k'') sample_client))"
    by code_simp
  show "let s = snd (mutate sample_ext (cas_txn [cas_write]) (Some ''k'') sample_client)
      in mutate sample_ext (cas_txn []) (Some ''k'') (s\<lparr>c_read_only := True\<rparr>)
         = (fst (mutate sample_ext (cas_txn [cas_write]) (Some ''k'') sample_client), s\<lparr>c_read_only := True\<rparr>)"
    using mutate_replay[OF ok_pair[OF ok] HOL.refl, where ms = "[]" and ro = True and ?txn2.0 = "cas_txn []"] arg_cong[OF ok_pair[OF ok], of fst]
    by (simp add: Let_def)
qed

section \<open>Deadlines and admission\<close>

lemma admit_deadline:
  "admit_transaction txn = Inr dl \<Longrightarrow> transaction_deadline txn = Inr dl"
  by (auto simp: admit_transaction_def split: sum.splits)

lemma deadline_mem: "ExpectBefore d \<in> set steps \<longleftrightarrow> d \<in> set (deadlines steps)"
  by (induction steps) (auto simp: List.map_filter_simps elim: deadline_of.elims split: option.splits)

lemma check_deadline_run:
  "check_deadline (Some d) s = (Inr u, s') \<longleftrightarrow> c_now s (c_now_reads s) < d \<and> s' = tick_clock s"
  by (auto simp: check_deadline_def run_simps split: if_splits)

text \<open>
  C9: a transaction that commits met every deadline it carries: each \<^verbatim>\<open>expectBefore\<close> of its
  steps lies in the range of exact integers and is later than both the clock reading it
  started with and the last one it took, after all of its steps.
\<close>

theorem commit_before_deadline:
  assumes run: "execute_transaction x txn s = (Inr res, s')" and d: "ExpectBefore d \<in> set (txn_steps txn)"
  shows "0 \<le> d \<and> d \<le> MAX_SAFE_INTEGER \<and> c_now s (c_now_reads s) < d
     \<and> c_now s' (c_now_reads s' - 1) < d"
proof -
  have mem: "d \<in> set (deadlines (txn_steps txn))"
    using d by (simp add: deadline_mem)
  then have ne: "deadlines (txn_steps txn) \<noteq> []"
    by auto
  obtain dl s0 s1 outs where run: "admit_transaction txn = Inr dl" "check_deadline dl s = (Inr (), s0)"
    "mapM (execute_step x) (txn_steps txn) s0 = (Inr outs, s1)" "check_deadline dl s1 = (Inr (), s')"
    using execute_transaction_steps[OF run] by blast
  have safe: "\<forall>d\<in>set (deadlines (txn_steps txn)). 0 \<le> d \<and> d \<le> MAX_SAFE_INTEGER"
    and dl: "dl = Some (Min (set (deadlines (txn_steps txn))))"
    using admit_deadline[OF run(1)] ne
    by (auto simp: transaction_deadline_def transaction_deadline_from_eq min_opt_None split: if_splits)
  have "n < d" if "n < Min (set (deadlines (txn_steps txn)))" for n
    using less_le_trans[OF that Min_le[OF _ mem]] by simp
  moreover have "c_now s' (c_now_reads s' - 1) = c_now s1 (c_now_reads s1)"
    using run(4) by (simp add: dl check_deadline_run tick_clock_def)
  ultimately show ?thesis
    using mem safe run(2,4) by (simp add: dl check_deadline_run)
qed

definition timed_txn :: transaction where
  "timed_txn = Transaction [ExpectBefore 5000, cas_write]"

theorem commit_before_deadline_witness:
  "is_ok (fst (execute_transaction sample_ext timed_txn sample_client))
   \<and> c_now sample_client (c_now_reads sample_client) < 5000"
proof
  show ok: "is_ok (fst (execute_transaction sample_ext timed_txn sample_client))"
    by code_simp
  show "c_now sample_client (c_now_reads sample_client) < 5000"
    using commit_before_deadline[OF ok_pair[OF ok], of 5000] by (simp add: timed_txn_def)
qed

section \<open>Counters\<close>

lemma counter_value_of_int:
  assumes "\<bar>n\<bar> \<le> MAX_SAFE_INTEGER"
  shows "counter_value (Some (json_of_int n)) = Some n"
proof -
  have "json_as_f64 (json_of_int n) = Some (Fin (of_int n))"
    using assms by (simp add: as_f64_num_of_int i64_as_f64_exact MAX_SAFE_INTEGER_def)
  moreover have "- rat_of_int MAX_SAFE_INTEGER \<le> of_int n" "rat_of_int n \<le> of_int MAX_SAFE_INTEGER"
    using assms unfolding of_int_minus[symmetric] of_int_le_iff by linarith+
  moreover have "f64_as_i64 (Fin (of_int n)) = n"
    using assms by (simp add: trunc_rat_def MAX_SAFE_INTEGER_def)
  ultimately show ?thesis
    by (simp add: counter_value_def trunc_rat_def)
qed

lemma map_of_stamp_updated:
  "td_updated_at_field td \<noteq> Some f \<Longrightarrow> map_of (stamp_updated_at td p now) f = map_of p f"
  by (auto simp: stamp_updated_at_def split: option.splits)

lemma adjust_counter_run:
  assumes "execute_step x (AdjustCounter t i f delta mn mx e) s = (Inr out, s')"
  obtains td row n where "require_table s t = Inr td" "check_counter_field td f = Inr ()"
    "live_row s t i = Some row" "counter_value (map_of (row_doc row) f) = Some n"
    "\<bar>n + delta\<bar> \<le> MAX_SAFE_INTEGER"
    "\<not> violates (\<lambda>b. n + delta < b) mn" "\<not> violates (\<lambda>b. b < n + delta) mx"
    "do_patch x td t i [(f, json_of_int (n + delta))] s = (Inr (), s')"
  using assms
  by (auto simp: execute_step_def step_adjust_counter_def table_of_def require_live_Inr
      elim!: bindM_InrE split: option.splits)

text \<open>
  C10: a counter adjustment that succeeds adds exactly the delta: the field held a whole
  number, holds the sum afterwards without rounding, the sum is within the limits the step
  gave and within the range of exact doubles, and reading the counter back gives the sum.
\<close>

theorem adjust_counter_exact:
  assumes "execute_step x (AdjustCounter t i f delta mn mx e) s = (Inr out, s')"
  shows "\<exists>row row' n. live_row s t i = Some row \<and> live_row s' t i = Some row'
     \<and> counter_value (map_of (row_doc row) f) = Some n
     \<and> map_of (row_doc row') f = Some (json_of_int (n + delta))
     \<and> counter_value (map_of (row_doc row') f) = Some (n + delta)
     \<and> \<bar>n + delta\<bar> \<le> MAX_SAFE_INTEGER
     \<and> (case mn of None \<Rightarrow> True | Some lo \<Rightarrow> lo \<le> n + delta)
     \<and> (case mx of None \<Rightarrow> True | Some hi \<Rightarrow> n + delta \<le> hi)"
proof -
  obtain td row n where run: "check_counter_field td f = Inr ()" "live_row s t i = Some row"
    "counter_value (map_of (row_doc row) f) = Some n" "\<bar>n + delta\<bar> \<le> MAX_SAFE_INTEGER"
    "\<not> violates (\<lambda>b. n + delta < b) mn" "\<not> violates (\<lambda>b. b < n + delta) mx"
    "do_patch x td t i [(f, json_of_int (n + delta))] s = (Inr (), s')"
    using assms by (rule adjust_counter_run)
  have field: "map_of (td_computed td) f = None" "td_updated_at_field td \<noteq> Some f"
    using run(1) by (auto simp: check_counter_field_def split: option.splits if_splits)
  obtain d now where d: "live_row s' t i = Some (bump (row\<lparr>row_doc := d\<rparr>))"
    "apply_patch x td (row_doc row) (stamp_updated_at td [(f, json_of_int (n + delta))] now) now = Inr d"
    using do_patch_run[OF run(7)] run(2) by (fastforce simp: live_row_Some)
  have "map_of d f = Some (json_of_int (n + delta))"
    using apply_patch_lookup[OF d(2) stamps_ok(2) field(1)] field(2)
    by (simp add: map_of_stamp_updated patched_def unset_optional_def bt_ok_def)
  then show ?thesis
    using run d(1) counter_value_of_int[OF run(4)]
    by (auto simp: violates_def not_less split: option.splits)
qed

definition sample_adjust :: step where
  "sample_adjust = AdjustCounter ''users'' (sample_id CHR ''b'') ''score'' 4 None (Some 10) None"

theorem adjust_counter_exact_witness:
  "is_ok (fst (execute_step sample_ext sample_adjust sample_client))
   \<and> (\<exists>row. live_row (snd (execute_step sample_ext sample_adjust sample_client)) ''users'' (sample_id CHR ''b'') = Some row
        \<and> counter_value (map_of (row_doc row) ''score'') = Some 4)"
proof
  show ok: "is_ok (fst (execute_step sample_ext sample_adjust sample_client))"
    by code_simp
  have "live_row sample_client ''users'' (sample_id CHR ''b'')
      = Some (sample_row (sample_id CHR ''b'') [(''score'', json_of_int 0)])"
    by (simp add: live_row_def sample_client_def sample_rows_def sample_entry_def is_live_def sample_row_def)
  moreover have "counter_value (Some (json_of_int 0)) = Some 0"
    by (rule counter_value_of_int) (simp add: MAX_SAFE_INTEGER_def)
  ultimately show "\<exists>row. live_row (snd (execute_step sample_ext sample_adjust sample_client)) ''users'' (sample_id CHR ''b'') = Some row
        \<and> counter_value (map_of (row_doc row) ''score'') = Some 4"
    using adjust_counter_exact[OF ok_pair[OF ok, unfolded sample_adjust_def]]
    by (auto simp: sample_adjust_def sample_row_def)
qed

section \<open>Inserts\<close>

text \<open>A field whose stored value is the caller's: neither computed nor stamped by the engine.\<close>

definition caller_field :: "table_def \<Rightarrow> string \<Rightarrow> bool" where
  "caller_field td f \<longleftrightarrow>
     map_of (td_computed td) f = None \<and> td_auto_increment_field td \<noteq> Some f \<and> td_updated_at_field td \<noteq> Some f"

text \<open>What the table fills in for a field the caller left out: its default, or the expiry.\<close>

definition filled_in :: "table_def \<Rightarrow> int \<Rightarrow> string \<Rightarrow> json option" where
  "filled_in td now f =
     (case td_ttl td of
        Some ttl \<Rightarrow>
          (case ttl_default_duration_ms ttl of
             Some d \<Rightarrow> if ttl_field ttl = f then Some (json_of_int (wrap64 (now + d))) else map_of (td_defaults td) f
           | None \<Rightarrow> map_of (td_defaults td) f)
      | None \<Rightarrow> map_of (td_defaults td) f)"

lemma map_of_apply_defaults: "map_of (apply_defaults td d) = map_of (td_defaults td) ++ map_of d"
  using btree.get_fill[of "td_defaults td" d] by (simp add: apply_defaults_def btree.fill_def)

lemma stamped_field:
  assumes "caller_field td f"
  shows "map_of (apply_defaults td (stamp_updated_at td (stamp_ttl_default td d now) now)) f =
     (case map_of d f of Some v \<Rightarrow> Some v | None \<Rightarrow> filled_in td now f)"
  using assms
  by (auto simp: map_of_apply_defaults map_add_def map_of_stamp_updated caller_field_def stamp_ttl_default_def
      filled_in_def split: option.splits if_splits)

lemma stamp_auto_field:
  "stamp_auto_increment t td d s = (Inr d', s') \<Longrightarrow> td_auto_increment_field td \<noteq> Some f \<Longrightarrow> map_of d' f = map_of d f"
  by (auto simp: stamp_auto_increment_def run_simps split: option.splits)

lemma do_insert_run:
  assumes "do_insert x t td d s = (Inr i, s')" "bt_ok d"
  obtains row d' d'' s1 s2 where
    "stamp_auto_increment t td
       (apply_defaults td (stamp_updated_at td (stamp_ttl_default td d (c_now s (c_now_reads s))) (c_now s (c_now_reads s))))
       s1 = (Inr d', s2)"
    "stamp_computed x td d' (c_now s (c_now_reads s)) = Inr d''" "bt_ok d''"
    "row_doc row = strip_unset_optionals td d''" "row_id row = i" "row_version row = 1" "is_live row"
    "map_of (c_docs s') = (map_of (c_docs s))((t, i) \<mapsto> row)"
proof -
  let ?now = "c_now s (c_now_reads s)"
  let ?st = "apply_defaults td (stamp_updated_at td (stamp_ttl_default td d ?now) ?now)"
  obtain d' s2 d'' s3 created where run:
    "stamp_auto_increment t td ?st (tick_clock s) = (Inr d', s2)" "stamp_computed x td d' ?now = Inr d''"
    "new_id s2 = (Inr i, s3)"
    "s' = put_row (t, i) \<lparr>row_id = i, row_doc = strip_unset_optionals td d'', row_version = 1,
        row_created_at = created, row_deleted_at = None\<rparr> (tick_clock s3)"
    using assms(1) by (auto simp: do_insert_def Let_def run_simps split: sum.splits prod.splits)
  have "bt_ok d'"
    using run(1) stamps_ok assms(2) by (auto simp: stamp_auto_increment_def run_simps split: option.splits)
  moreover have "c_docs s3 = c_docs s"
    using keepsD[OF docs.keeps_stamp_auto run(1)] keepsD[OF docs.keeps_new_id run(3)] by (simp add: same_rel_def)
  ultimately show thesis
    using stamp_computed_ok[OF run(2)] run(4)
    by (intro that[OF run(1,2), where row = "\<lparr>row_id = i, row_doc = strip_unset_optionals td d'',
          row_version = 1, row_created_at = created, row_deleted_at = None\<rparr>"])
       (simp_all add: is_live_def)
qed

text \<open>
  C6: an insert is read back: the step returns the id of a new live row of version 1, every
  other row is untouched, and each field of the stored document that the engine does not
  compute or stamp is the caller's value, the table's default or expiry where the caller
  gave none, and absent when it is an optional field set to null.
\<close>

theorem insert_read_back:
  assumes "execute_step x (Insert t d) s = (Inr out, s')" "bt_ok d"
  shows "\<exists>i row td. out = (RInsert i, [t]) \<and> require_table s t = Inr td \<and> row_id row = i \<and> row_version row = 1
     \<and> is_live row \<and> map_of (c_docs s') = (map_of (c_docs s))((t, i) \<mapsto> row)
     \<and> (\<forall>f. caller_field td f \<longrightarrow>
          map_of (row_doc row) f =
            (case (case map_of d f of Some v \<Rightarrow> Some v | None \<Rightarrow> filled_in td (c_now s (c_now_reads s)) f) of
               Some v \<Rightarrow> if unset_optional td f v then None else Some v
             | None \<Rightarrow> None))"
proof -
  obtain td i where run: "require_table s t = Inr td" "do_insert x t td d s = (Inr i, s')" "out = (RInsert i, [t])"
    using assms(1) by (auto simp: execute_step_def step_insert_def table_of_def elim!: bindM_InrE)
  obtain row d' d'' s1 s2 where r:
    "stamp_auto_increment t td
       (apply_defaults td (stamp_updated_at td (stamp_ttl_default td d (c_now s (c_now_reads s))) (c_now s (c_now_reads s))))
       s1 = (Inr d', s2)"
    "stamp_computed x td d' (c_now s (c_now_reads s)) = Inr d''" "bt_ok d''"
    "row_doc row = strip_unset_optionals td d''" "row_id row = i" "row_version row = 1" "is_live row"
    "map_of (c_docs s') = (map_of (c_docs s))((t, i) \<mapsto> row)"
    using run(2) assms(2) by (rule do_insert_run)
  have d'': "map_of d'' f = (case map_of d f of Some v \<Rightarrow> Some v | None \<Rightarrow> filled_in td (c_now s (c_now_reads s)) f)"
    if "caller_field td f" for f
    using that stamp_auto_field[OF r(1), of f] stamp_computed_frame[OF r(2), of f]
    by (simp add: stamped_field caller_field_def)
  show ?thesis
    by (intro exI[of _ i] exI[of _ row] exI[of _ td] conjI allI impI run r)
       (simp add: r(4) map_of_strip_unset[OF bt_ok_distinct[OF r(3)]] d'')
qed

definition sample_insert :: step where
  "sample_insert = Insert ''users'' [(''email'', JNull), (''score'', json_of_int 1)]"

theorem insert_read_back_witness:
  "is_ok (fst (execute_step sample_ext sample_insert sample_client))
   \<and> (\<exists>i row. live_row (snd (execute_step sample_ext sample_insert sample_client)) ''users'' i = Some row
        \<and> map_of (row_doc row) ''score'' = Some (json_of_int 1) \<and> map_of (row_doc row) ''email'' = None)"
proof
  show ok: "is_ok (fst (execute_step sample_ext sample_insert sample_client))"
    by code_simp
  have td: "require_table sample_client ''users'' = Inr sample_users"
    by (simp add: require_table_def sample_client_def sample_schema_def)
  have "caller_field sample_users ''score''" "caller_field sample_users ''email''"
    by (simp_all add: caller_field_def sample_users_def empty_table_def)
  then show "\<exists>i row. live_row (snd (execute_step sample_ext sample_insert sample_client)) ''users'' i = Some row
        \<and> map_of (row_doc row) ''score'' = Some (json_of_int 1) \<and> map_of (row_doc row) ''email'' = None"
    using insert_read_back[OF ok_pair[OF ok, unfolded sample_insert_def]] td
    by (fastforce simp: sample_insert_def live_row_Some unset_optional_def bt_ok_def less_list_code sample_users_def)
qed

section \<open>Soft deletion\<close>

lemma do_soft_delete_run:
  assumes "do_soft_delete t i s = (Inr u, s')"
  shows "\<exists>row. live_row s t i = Some row
     \<and> s' = put_row (t, i) (bump (row\<lparr>row_deleted_at := Some (c_now s (c_now_reads s))\<rparr>)) (tick_clock s)"
  using assms
  by (auto simp: do_soft_delete_def run_simps update_row_def require_live_Inr live_row_Some
      split: sum.splits option.splits)

lemma do_undelete_run:
  assumes "do_undelete x td t i s = (Inr u, s')" "map_of (c_docs s) (t, i) = Some row" "\<not> is_live row"
  shows "s' = put_row (t, i) (bump (row\<lparr>row_deleted_at := None\<rparr>)) s"
  using assms
  by (auto simp: do_undelete_def run_simps update_row_def split: sum.splits option.splits if_splits)

text \<open>
  C11: deleting a row of a soft-deleting table and undeleting it gives the row back: it is
  invisible in between, its document, id and creation time are those it had, its version
  has moved on by two, and no other row has changed.
\<close>

theorem soft_delete_undelete:
  assumes "execute_step x (Delete t i) s = (Inr o1, s1)" "execute_step x (Undelete t i) s1 = (Inr o2, s2)"
  shows "\<exists>row. live_row s t i = Some row \<and> live_row s1 t i = None
     \<and> map_of (c_docs s2) = (map_of (c_docs s))((t, i) \<mapsto>
          row\<lparr>row_version := wrap64 (wrap64 (row_version row + 1) + 1)\<rparr>)"
proof -
  obtain td where u: "require_table s1 t = Inr td" "do_undelete x td t i s1 = (Inr (), s2)"
    using assms(2) by (auto simp: execute_step_def step_undelete_def table_of_def elim!: bindM_InrE)
  have soft: "td_soft_delete td"
    using u(2) by (auto simp: do_undelete_def run_simps split: if_splits)
  have "c_tables s1 = c_tables s"
    using keepsD[OF frame.keeps_execute_step assms(1)] by (simp add: same_rel_def settings_def)
  then have "require_table s t = Inr td"
    using u(1) by (simp add: require_table_def)
  with soft have "do_soft_delete t i s = (Inr (), s1)"
    using assms(1) by (auto simp: execute_step_def step_delete_def table_of_def elim!: bindM_InrE)
  then obtain row where row: "live_row s t i = Some row"
    "s1 = put_row (t, i) (bump (row\<lparr>row_deleted_at := Some (c_now s (c_now_reads s))\<rparr>)) (tick_clock s)"
    using do_soft_delete_run by blast
  have "s2 = put_row (t, i) (row\<lparr>row_version := wrap64 (wrap64 (row_version row + 1) + 1)\<rparr>) s1"
    using do_undelete_run[OF u(2), of "bump (row\<lparr>row_deleted_at := Some (c_now s (c_now_reads s))\<rparr>)"] row
    by (cases row) (simp add: bump_def is_live_def live_row_Some)
  then show ?thesis
    using row by (intro exI[of _ row]) (simp add: live_row_def bump_def is_live_def)
qed

theorem soft_delete_undelete_witness:
  "is_ok (fst (execute_step sample_ext (Delete ''comments'' (sample_id CHR ''d'')) sample_client))
   \<and> live_row (snd (execute_step sample_ext (Delete ''comments'' (sample_id CHR ''d'')) sample_client))
       ''comments'' (sample_id CHR ''d'') = None"
proof
  show ok: "is_ok (fst (execute_step sample_ext (Delete ''comments'' (sample_id CHR ''d'')) sample_client))"
    by code_simp
  have ok2: "is_ok (fst (execute_step sample_ext (Undelete ''comments'' (sample_id CHR ''d''))
      (snd (execute_step sample_ext (Delete ''comments'' (sample_id CHR ''d'')) sample_client))))"
    by code_simp
  show "live_row (snd (execute_step sample_ext (Delete ''comments'' (sample_id CHR ''d'')) sample_client))
       ''comments'' (sample_id CHR ''d'') = None"
    using soft_delete_undelete[OF ok_pair[OF ok] ok_pair[OF ok2]] by blast
qed

section \<open>By-query scans\<close>

definition scan_le :: "stored_row \<Rightarrow> stored_row \<Rightarrow> bool" where
  "scan_le r q \<longleftrightarrow> row_created_at r < row_created_at q
     \<or> (row_created_at r = row_created_at q \<and> row_id r \<le> row_id q)"

lemma scan_le_linear: "\<not> scan_le r q \<Longrightarrow> scan_le q r"
  by (auto simp: scan_le_def)

lemma scan_le_trans: "scan_le r q \<Longrightarrow> scan_le q p \<Longrightarrow> scan_le r p"
  by (auto simp: scan_le_def)

lemma mset_insert_by_scan_key [simp]: "mset (insert_by_scan_key r rs) = add_mset r (mset rs)"
  by (induction r rs rule: insert_by_scan_key.induct) auto

lemma mset_sort_by_scan_key [simp]: "mset (sort_by_scan_key rs) = mset rs"
  unfolding sort_by_scan_key_def by (induction rs) auto

lemma set_insert_by_scan_key [simp]: "set (insert_by_scan_key r rs) = insert r (set rs)"
  by (induction r rs rule: insert_by_scan_key.induct) auto

lemma sorted_insert_by_scan_key: "sorted_wrt scan_le rs \<Longrightarrow> sorted_wrt scan_le (insert_by_scan_key r rs)"
proof (induction r rs rule: insert_by_scan_key.induct)
  case (2 r q qs)
  show ?case
  proof (cases "scan_le r q")
    case True
    then show ?thesis
      using 2(2) by (auto simp: scan_le_def[symmetric] intro: scan_le_trans)
  next
    case False
    then have "\<not> (row_created_at r < row_created_at q \<or> row_created_at r = row_created_at q \<and> row_id r \<le> row_id q)"
      by (simp add: scan_le_def)
    then show ?thesis
      using 2 scan_le_linear[OF False] by auto
  qed
qed simp

lemma sorted_sort_by_scan_key: "sorted_wrt scan_le (sort_by_scan_key rs)"
  unfolding sort_by_scan_key_def by (induction rs) (auto simp: sorted_insert_by_scan_key)

text \<open>The live rows of a table that a filter matches at a time.\<close>

definition matching_rows :: "ext \<Rightarrow> table_def \<Rightarrow> string \<Rightarrow> filter_expr \<Rightarrow> int \<Rightarrow> client \<Rightarrow> stored_row list" where
  "matching_rows x td t f now s = map snd (filter (\<lambda>((t', i), row).
     t' = t \<and> is_live row \<and> eval_filter_expr_at x f (row_doc row) (td_fields td) now) (c_docs s))"

definition scan_limit :: "nat option \<Rightarrow> nat" where
  "scan_limit l = min (case l of None \<Rightarrow> MAX_BY_QUERY_ROWS | Some l \<Rightarrow> l) MAX_BY_QUERY_ROWS"

text \<open>
  C12: a by-query step works on the oldest matching rows: the ids it scans are those of the
  live rows of the table that match the filter, each once, ordered by creation time and
  then id, cut at the step's limit and never more than a thousand; and it reports that
  rows were left out exactly when more rows match.
\<close>

theorem scan_ids_spec:
  assumes "scan_ids_by_filter x td t f l s = (Inr (ids, truncated), s')"
  shows "\<exists>rows. mset rows = mset (matching_rows x td t f (c_now s (c_now_reads s)) s) \<and> sorted_wrt scan_le rows
     \<and> ids = map row_id (take (scan_limit l) rows) \<and> length ids \<le> MAX_BY_QUERY_ROWS
     \<and> truncated = (scan_limit l < length rows)"
  using assms sorted_sort_by_scan_key
  by (intro exI[of _ "sort_by_scan_key (matching_rows x td t f (c_now s (c_now_reads s)) s)"])
     (auto simp: scan_ids_by_filter_def run_simps matching_rows_def scan_limit_def Let_def split: sum.splits)

theorem scan_ids_spec_witness:
  "fst (scan_ids_by_filter sample_ext sample_users ''users'' (FEq ''email'' (JString ''a@x'')) None sample_client)
     = Inr ([sample_id CHR ''a''], False)
   \<and> length [sample_id CHR ''a''] \<le> MAX_BY_QUERY_ROWS"
proof
  show run: "fst (scan_ids_by_filter sample_ext sample_users ''users'' (FEq ''email'' (JString ''a@x'')) None sample_client)
     = Inr ([sample_id CHR ''a''], False)"
    by code_simp
  have "scan_ids_by_filter sample_ext sample_users ''users'' (FEq ''email'' (JString ''a@x'')) None sample_client
      = (Inr ([sample_id CHR ''a''], False), tick_clock sample_client)"
    using run by (simp add: scan_ids_by_filter_def run_simps split: sum.splits)
  from scan_ids_spec[OF this] show "length [sample_id CHR ''a''] \<le> MAX_BY_QUERY_ROWS"
    by blast
qed

end
