(* ===== verification/Cascade_Refs.thy ===== *)
theory Cascade_Refs
  imports Txn_Props
begin

text \<open>
  Referential integrity of deletion.  A cascade keeps a set of visited rows; the rows
  that are visited but still being deleted form its stack.  The invariant is that every
  other visited row is gone, and what each call establishes is that the live rows still
  referring to a row it deleted are all on the stack; at the outermost call the stack is
  empty.
\<close>

section \<open>References\<close>

abbreviation live :: "client \<Rightarrow> row_key \<Rightarrow> bool" where
  "live s r \<equiv> live_row s (fst r) (snd r) \<noteq> None"

text \<open>A live row whose field holds an id.\<close>

definition holds_ref :: "client \<Rightarrow> row_key \<Rightarrow> string \<Rightarrow> string \<Rightarrow> bool" where
  "holds_ref s r f i =
     (case live_row s (fst r) (snd r) of
        None \<Rightarrow> False | Some row \<Rightarrow> map_of (row_doc row) f = Some (JString i))"

text \<open>The fields of a table with an \<^verbatim>\<open>onDelete\<close> action for rows of a parent table.\<close>

definition ref_field :: "schema_def \<Rightarrow> string \<Rightarrow> string \<Rightarrow> string \<Rightarrow> bool" where
  "ref_field sch parent t f \<longleftrightarrow>
     (\<exists>td ty. map_of (sd_tables sch) t = Some td \<and> (f, ty) \<in> set (td_fields td) \<and> on_delete_ref ty parent \<noteq> None)"

definition refers :: "schema_def \<Rightarrow> client \<Rightarrow> row_key \<Rightarrow> row_key \<Rightarrow> bool" where
  "refers sch s r k \<longleftrightarrow> (\<exists>f. ref_field sch (fst k) (fst r) f \<and> holds_ref s r f (snd k))"

text \<open>Reference fields are the caller's: not computed and not stamped.\<close>

definition refs_plain :: "schema_def \<Rightarrow> bool" where
  "refs_plain sch \<longleftrightarrow>
     (\<forall>parent t f td. ref_field sch parent t f \<and> map_of (sd_tables sch) t = Some td \<longrightarrow> caller_field td f)"

section \<open>Cascades only remove references\<close>

definition shrinks :: "schema_def \<Rightarrow> client \<Rightarrow> client \<Rightarrow> bool" where
  "shrinks sch s s' \<longleftrightarrow>
     (\<forall>r. live s' r \<longrightarrow> live s r)
     \<and> (\<forall>parent r f i. ref_field sch parent (fst r) f \<and> holds_ref s' r f i \<longrightarrow> holds_ref s r f i)"

interpretation shrink: preorder_rel "shrinks sch"
  by unfold_locales (auto simp: shrinks_def)

lemma shrinks_docs: "c_docs s' = c_docs s \<Longrightarrow> shrinks sch s s'"
  by (simp add: shrinks_def holds_ref_def live_row_def)

lemma live_put_row:
  "live_row (put_row k row s) t i = (if (t, i) = k then if is_live row then Some row else None else live_row s t i)"
  by (auto simp: live_row_def)

lemma live_tick [simp]: "live_row (tick_clock s) t i = live_row s t i"
  by (simp add: live_row_def)

lemma shrinks_soft_delete:
  assumes "do_soft_delete t i s = (Inr u, s')"
  shows "shrinks sch s s' \<and> \<not> live s' (t, i)"
  using do_soft_delete_run[OF assms]
  by (auto simp: shrinks_def holds_ref_def live_put_row is_live_def bump_def split: if_splits)

lemma shrinks_delete:
  assumes "do_delete t i s = (Inr u, s')"
  shows "shrinks sch s s' \<and> \<not> live s' (t, i)"
proof -
  have "s' = drop_row (t, i) s"
    using assms by (auto simp: do_delete_def run_simps split: option.splits)
  then have "live_row s' t' j = (if (t', j) = (t, i) then None else live_row s t' j)" for t' j
    by (simp add: live_row_def)
  then show ?thesis
    by (auto simp: shrinks_def holds_ref_def split: if_splits)
qed

lemma set_null_field:
  assumes "do_patch x td t i [(f, JNull)] s = (Inr u, s')" "caller_field td g" "caller_field td f"
  shows "holds_ref s' r g v \<Longrightarrow> fst r = t \<Longrightarrow> holds_ref s r g v \<and> \<not> (r = (t, i) \<and> g = f)"
proof -
  obtain row d now where run: "live_row s t i = Some row"
    "apply_patch x td (row_doc row) (stamp_updated_at td [(f, JNull)] now) now = Inr d"
    "s' = put_row (t, i) (bump (row\<lparr>row_doc := d\<rparr>)) (tick_clock s)"
    using do_patch_run[OF assms(1)] by blast
  have d: "map_of d g = (if g = f then patched td f JNull else map_of (row_doc row) g)"
    using apply_patch_lookup[OF run(2) stamps_ok(2)] assms(2,3)
    by (simp add: map_of_stamp_updated caller_field_def bt_ok_def)
  assume "holds_ref s' r g v" "fst r = t"
  then show ?thesis
    using run d by (cases r) (auto simp: holds_ref_def live_put_row live_row_Some patched_def split: if_splits option.splits)
qed

lemma live_patch:
  assumes "do_patch x td t i p s = (Inr u, s')"
  shows "live s' r = live s r"
proof -
  obtain row d where "live_row s t i = Some row" "s' = put_row (t, i) (bump (row\<lparr>row_doc := d\<rparr>)) (tick_clock s)"
    using do_patch_run[OF assms] by blast
  then show ?thesis
    by (cases r) (auto simp: live_put_row live_row_Some)
qed

lemma shrinks_set_null:
  assumes "refs_plain sch" "map_of (sd_tables sch) t = Some td" "ref_field sch p t f"
    and run: "do_patch x td t i [(f, JNull)] s = (Inr u, s')"
  shows "shrinks sch s s' \<and> (\<forall>v. \<not> holds_ref s' (t, i) f v)"
proof -
  have f: "caller_field td f"
    using assms unfolding refs_plain_def by blast
  have other: "holds_ref s' r g v \<Longrightarrow> fst r \<noteq> t \<Longrightarrow> holds_ref s r g v" for r g v
    using do_patch_run[OF run]
    by (cases r) (auto simp: holds_ref_def live_put_row)
  have "holds_ref s r g v" if "ref_field sch parent (fst r) g" "holds_ref s' r g v" for parent r g v
  proof (cases "fst r = t")
    case True
    then have "caller_field td g"
      using assms(1,2) that(1) unfolding refs_plain_def by blast
    then show ?thesis
      using set_null_field[OF run _ f that(2) True] by blast
  qed (use other that in blast)
  then show ?thesis
    using set_null_field[OF run f f, of "(t, i)"] live_patch[OF run] unfolding shrinks_def by auto
qed

section \<open>The rows a cascade finds\<close>

lemma set_map_filter: "set (List.map_filter g ys) = {z. \<exists>y\<in>set ys. g y = Some z}"
  by (induction ys) (auto simp: List.map_filter_simps split: option.splits)

lemma plan_iff:
  "(ct, cd, f, a) \<in> set (cascade_plan sch t) \<longleftrightarrow>
     (\<exists>ty. (ct, cd) \<in> set (sd_tables sch) \<and> (f, ty) \<in> set (td_fields cd) \<and> on_delete_ref ty t = Some a)"
proof -
  have "(ct, cd, f, a) \<in> set (cascade_plan sch t) \<longleftrightarrow>
      (\<exists>p\<in>set (sd_tables sch). \<exists>q\<in>set (td_fields (snd p)).
         map_option (\<lambda>action. (fst p, snd p, fst q, action)) (on_delete_ref (snd q) t) = Some (ct, cd, f, a))"
    by (simp add: cascade_plan_def set_map_filter case_prod_beta)
  then show ?thesis
    by simp (metis prod.collapse fst_conv snd_conv)
qed

lemma plan_field:
  assumes "(ct, cd, f, a) \<in> set (cascade_plan sch t)" "distinct (map fst (sd_tables sch))"
  shows "map_of (sd_tables sch) ct = Some cd \<and> ref_field sch t ct f"
  using assms by (fastforce simp: ref_field_def plan_iff)

lemma ref_field_plan:
  assumes "ref_field sch t ct f"
  shows "\<exists>cd a. (ct, cd, f, a) \<in> set (cascade_plan sch t)"
  using assms unfolding ref_field_def plan_iff by (auto dest: map_of_SomeD)

lemma hits_ids:
  assumes inv: "store_inv x ts s"
  shows "holds_ref s (ct, j) f i \<Longrightarrow> j \<in> set (map (\<lambda>e. row_id (snd e)) (filter (child_hit ct f i) (c_docs s)))"
    and "distinct (map (\<lambda>e. row_id (snd e)) (filter (child_hit ct f i) (c_docs s)))"
proof -
  have ids: "row_id (snd e) = snd (fst e)" if "e \<in> set (c_docs s)" for e
    using inv that by (auto simp: store_inv_def row_ok_def)
  show "j \<in> set (map (\<lambda>e. row_id (snd e)) (filter (child_hit ct f i) (c_docs s)))" if h: "holds_ref s (ct, j) f i"
  proof -
    obtain row where row: "live_row s ct j = Some row" "map_of (row_doc row) f = Some (JString i)"
      using h by (auto simp: holds_ref_def split: option.splits)
    then have "((ct, j), row) \<in> set (filter (child_hit ct f i) (c_docs s))"
      by (auto simp: live_row_Some child_hit_def dest: map_of_SomeD)
    from imageI[OF this, of "\<lambda>e. row_id (snd e)"] show ?thesis
      using ids[of "((ct, j), row)"] row by (auto simp: live_row_Some dest: map_of_SomeD)
  qed
  have inj: "inj_on (\<lambda>e. row_id (snd e)) (set (filter (child_hit ct f i) (c_docs s)))"
  proof (rule inj_onI)
    fix e e'
    assume e: "e \<in> set (filter (child_hit ct f i) (c_docs s))" "e' \<in> set (filter (child_hit ct f i) (c_docs s))"
      "row_id (snd e) = row_id (snd e')"
    then have "fst e = fst e'"
      using ids[of e] ids[of e'] by (simp add: child_hit_def prod_eq_iff)
    moreover have "inj_on fst (set (c_docs s))"
      using inv by (simp add: store_inv_def hm_ok_def distinct_map)
    ultimately show "e = e'"
      using e by (simp add: inj_on_eq_iff)
  qed
  have "distinct (c_docs s)"
    using inv by (simp add: store_inv_def hm_ok_def distinct_map)
  then show "distinct (map (\<lambda>e. row_id (snd e)) (filter (child_hit ct f i) (c_docs s)))"
    using inj by (simp add: distinct_map)
qed

lemma visible_all:
  assumes "store_inv x ts s" "length (visible_child_ids s ct f i False) \<le> MAX_CASCADE_ROWS" "holds_ref s (ct, j) f i"
  shows "j \<in> set (visible_child_ids s ct f i False)"
  using assms hits_ids(1)[OF assms(1,3)] by (auto simp: visible_child_ids_def Let_def)

lemma visible_one:
  assumes "store_inv x ts s" "visible_child_ids s ct f i True = []"
  shows "\<not> holds_ref s (ct, j) f i"
  using assms(2) hits_ids(1)[OF assms(1), of ct j f i] by (auto simp: visible_child_ids_def Let_def)

lemma visible_distinct: "store_inv x ts s \<Longrightarrow> distinct (visible_child_ids s ct f i False)"
  using hits_ids(2)[of x ts s ct f i] by (simp add: visible_child_ids_def Let_def take_map[symmetric])

section \<open>The cascade\<close>

abbreviation visited :: "client \<times> cascade \<Rightarrow> row_key set" where
  "visited sc \<equiv> set (cs_visited (snd sc))"

definition base_inv :: "ext \<Rightarrow> schema_def \<Rightarrow> client \<Rightarrow> bool" where
  "base_inv x sch s \<longleftrightarrow> store_inv x (sd_tables sch) s \<and> c_schema s = Some sch"

definition cascade_inv :: "ext \<Rightarrow> schema_def \<Rightarrow> row_key set \<Rightarrow> client \<times> cascade \<Rightarrow> bool" where
  "cascade_inv x sch P sc \<longleftrightarrow>
     base_inv x sch (fst sc) \<and> card (visited sc) \<le> cs_rows (snd sc) \<and> cs_rows (snd sc) \<le> MAX_CASCADE_ROWS
     \<and> (\<forall>k\<in>visited sc - P. \<not> live (fst sc) k)"

text \<open>A row the cascade removes, rather than marks as deleted.\<close>

definition hard_key :: "schema_def \<Rightarrow> bool \<Rightarrow> row_key \<Rightarrow> bool" where
  "hard_key sch h k =
     (case map_of (sd_tables sch) (fst k) of None \<Rightarrow> False | Some td \<Rightarrow> h \<or> \<not> td_soft_delete td)"

definition cascade_post ::
  "schema_def \<Rightarrow> bool \<Rightarrow> row_key set \<Rightarrow> client \<times> cascade \<Rightarrow> client \<times> cascade \<Rightarrow> bool" where
  "cascade_post sch h P sc sc' \<longleftrightarrow>
     visited sc \<subseteq> visited sc' \<and> shrinks sch (fst sc) (fst sc')
     \<and> (\<forall>k\<in>visited sc' - visited sc. hard_key sch h k \<longrightarrow> (\<forall>r. refers sch (fst sc') r k \<longrightarrow> r \<in> P))"

lemma gone_shrink: "\<forall>k\<in>K. \<not> live s k \<Longrightarrow> shrinks sch s s' \<Longrightarrow> \<forall>k\<in>K. \<not> live s' k"
  unfolding shrinks_def by blast

lemma refers_shrink: "shrinks sch s s' \<Longrightarrow> refers sch s' r k \<Longrightarrow> refers sch s r k"
  unfolding shrinks_def refers_def by blast

interpretation post: preorder_rel "cascade_post sch h P"
proof
  show "cascade_post sch h P s s" for s
    by (simp add: cascade_post_def shrink.refl)
  show "cascade_post sch h P s u" if "cascade_post sch h P s t" "cascade_post sch h P t u" for s t u
  proof -
    have sh: "shrinks sch (fst t) (fst u)"
      using that by (simp add: cascade_post_def)
    have "r \<in> P" if "k \<in> visited u - visited s" "hard_key sch h k" "refers sch (fst u) r k" for k r
      using that \<open>cascade_post sch h P s t\<close> \<open>cascade_post sch h P t u\<close> refers_shrink[OF sh that(3)]
      unfolding cascade_post_def by (cases "k \<in> visited t") blast+
    then show ?thesis
      using that shrink.trans unfolding cascade_post_def by blast
  qed
qed

lemma base_run:
  assumes "ensures (fst_inv (store_inv x (sd_tables sch))) m (\<lambda>_. True)" "keeps frame.on_fst m"
    and "m sc = (r, sc')" "base_inv x sch (fst sc)"
  shows "base_inv x sch (fst sc')"
proof -
  have "fst_inv (store_inv x (sd_tables sch)) sc'"
    using ensuresD[OF assms(1) _ assms(3)] assms(4) by (simp add: fst_inv_def base_inv_def)
  moreover have "c_schema (fst sc') = c_schema (fst sc)"
    using keepsD[OF assms(2,3)] by (simp add: frame.on_fst_def same_rel_def settings_def)
  ultimately show ?thesis
    using assms(4) by (simp add: fst_inv_def base_inv_def)
qed

lemma eachM_Cons_Inr:
  "eachM f (y # ys) s = (Inr u, s') \<longleftrightarrow> (\<exists>s1. f y s = (Inr (), s1) \<and> eachM f ys s1 = (Inr u, s'))"
  by (auto simp: bindM_Inr)

lemma each_post:
  assumes step: "\<And>y sc sc'. y \<in> set ys \<Longrightarrow> f y sc = (Inr (), sc') \<Longrightarrow> cascade_inv x sch P sc \<Longrightarrow>
      cascade_inv x sch P sc' \<and> cascade_post sch h P sc sc' \<and> D y sc'"
    and mono: "\<And>y sc sc'. D y sc \<Longrightarrow> cascade_post sch h P sc sc' \<Longrightarrow> D y sc'"
    and "eachM f ys sc = (Inr u, sc')" "cascade_inv x sch P sc"
  shows "cascade_inv x sch P sc' \<and> cascade_post sch h P sc sc' \<and> (\<forall>y\<in>set ys. D y sc')"
  using assms(1,3,4)
proof (induction ys arbitrary: sc)
  case Nil
  then show ?case
    by (simp add: post.refl)
next
  case (Cons y ys)
  obtain sc1 where run: "f y sc = (Inr (), sc1)" "eachM f ys sc1 = (Inr u, sc')"
    using Cons.prems(2) unfolding eachM_Cons_Inr by blast
  have 1: "cascade_inv x sch P sc1 \<and> cascade_post sch h P sc sc1 \<and> D y sc1"
    using Cons.prems(1)[OF _ run(1) Cons.prems(3)] by simp
  have 2: "cascade_inv x sch P sc' \<and> cascade_post sch h P sc1 sc' \<and> (\<forall>y\<in>set ys. D y sc')"
    using Cons.IH[OF Cons.prems(1) run(2)] 1 by simp
  show ?case
    using 1 2 mono[of y sc1 sc'] post.trans[of sch h P sc sc1 sc'] by auto
qed

text \<open>The cascade case of an entry: every child found is visited afterwards.\<close>

lemma cascade_children:
  assumes IH: "\<And>t j sc sc'. rec t j sc = (Inr (), sc') \<Longrightarrow> cascade_inv x sch P sc \<Longrightarrow>
      cascade_inv x sch P sc' \<and> cascade_post sch h P sc sc' \<and> (t, j) \<in> visited sc'"
    and run: "eachM (rec ct) (visible_child_ids (fst sc) ct f i False) sc = (Inr u, sc')"
    and inv: "cascade_inv x sch P sc" and rf: "ref_field sch t ct f"
  shows "cascade_inv x sch P sc' \<and> cascade_post sch h P sc sc' \<and> (\<forall>j. holds_ref (fst sc') (ct, j) f i \<longrightarrow> (ct, j) \<in> P)"
proof -
  let ?ids = "visible_child_ids (fst sc) ct f i False"
  have store: "store_inv x (sd_tables sch) (fst sc)"
    using inv by (simp add: cascade_inv_def base_inv_def)
  have post: "cascade_inv x sch P sc' \<and> cascade_post sch h P sc sc' \<and> (\<forall>j\<in>set ?ids. (ct, j) \<in> visited sc')"
    by (rule each_post[where D = "\<lambda>j sc. (ct, j) \<in> visited sc", OF _ _ run inv])
       (use IH in \<open>auto simp: cascade_post_def\<close>)
  have "length ?ids = card (Pair ct ` set ?ids)"
    by (simp add: card_image inj_on_def distinct_card[OF visible_distinct[OF store]])
  also have "\<dots> \<le> card (visited sc')"
    using post by (intro card_mono) auto
  also have "\<dots> \<le> MAX_CASCADE_ROWS"
    using post by (auto simp: cascade_inv_def)
  finally have all: "j \<in> set ?ids" if "holds_ref (fst sc) (ct, j) f i" for j
    using visible_all[OF store _ that] by blast
  have "(ct, j) \<in> P" if "holds_ref (fst sc') (ct, j) f i" for j
  proof -
    have "holds_ref (fst sc) (ct, j) f i" "live (fst sc') (ct, j)"
      using that post rf
      by (auto simp: cascade_post_def shrinks_def holds_ref_def split: option.splits)
    moreover from this have "(ct, j) \<in> visited sc'"
      using all post by blast
    ultimately show ?thesis
      using post unfolding cascade_inv_def by blast
  qed
  then show ?thesis
    using post by blast
qed

lemma set_null_step:
  assumes plain: "refs_plain sch" and td: "map_of (sd_tables sch) ct = Some cd" and rf: "ref_field sch t ct f"
    and run: "set_null_child x ct cd f j sc = (Inr u, sc')" and inv: "cascade_inv x sch P sc"
  shows "cascade_inv x sch P sc' \<and> cascade_post sch h P sc sc' \<and> (\<forall>v. \<not> holds_ref (fst sc') (ct, j) f v)
     \<and> cs_rows (snd sc') = Suc (cs_rows (snd sc))"
proof -
  obtain s c where sc: "sc = (s, c)"
    by (cases sc)
  obtain s' where r: "cs_rows c < MAX_CASCADE_ROWS" "do_patch x cd ct j [(f, JNull)] s = (Inr (), s')"
    "fst sc' = s'" "visited sc' = visited sc" "cs_rows (snd sc') = Suc (cs_rows c)"
    using run unfolding sc set_null_child_def
    by (auto simp: charge_def on_client_def touch_def run_simps split: if_splits prod.splits sum.splits)
  have sh: "shrinks sch s s' \<and> (\<forall>v. \<not> holds_ref s' (ct, j) f v)"
    by (rule shrinks_set_null[OF plain td rf r(2)])
  have "base_inv x sch (fst sc')"
  proof (rule base_run[where m = "set_null_child x ct cd f j" and sc = sc and r = "Inr u"])
    show "ensures (fst_inv (store_inv x (sd_tables sch))) (set_null_child x ct cd f j) (\<lambda>_. True)"
      unfolding set_null_child_def
      by (intro ensures_bind' ensures_on_client ensures_do_patch[OF td] ensures_cascade_prims)
    show "keeps frame.on_fst (set_null_child x ct cd f j)"
      unfolding set_null_child_def
      by (intro preorder_rel.keeps_bind[OF frame.on_fst_preorder] frame.keeps_on_client frame.keeps_do_patch
          frame.keeps_cascade_prims)
  qed (use inv run in \<open>simp_all add: cascade_inv_def\<close>)
  moreover have "\<forall>k\<in>visited sc' - P. \<not> live s' k"
    using gone_shrink[of "visited sc - P" s sch s'] inv sh r(4) by (simp add: cascade_inv_def sc)
  ultimately show ?thesis
    using inv sh r by (auto simp: cascade_inv_def cascade_post_def sc)
qed

lemma set_null_children:
  assumes plain: "refs_plain sch" and td: "map_of (sd_tables sch) ct = Some cd" and rf: "ref_field sch t ct f"
    and run: "eachM (set_null_child x ct cd f) (visible_child_ids (fst sc) ct f i False) sc = (Inr u, sc')"
    and inv: "cascade_inv x sch P sc"
  shows "cascade_inv x sch P sc' \<and> cascade_post sch h P sc sc' \<and> (\<forall>j. \<not> holds_ref (fst sc') (ct, j) f i)"
proof -
  let ?ids = "visible_child_ids (fst sc) ct f i False"
  have store: "store_inv x (sd_tables sch) (fst sc)"
    using inv by (simp add: cascade_inv_def base_inv_def)
  note step = set_null_step[OF plain td rf]
  have post: "cascade_inv x sch P sc' \<and> cascade_post sch h P sc sc' \<and> (\<forall>j\<in>set ?ids. \<not> holds_ref (fst sc') (ct, j) f i)"
    by (rule each_post[where D = "\<lambda>j sc. \<not> holds_ref (fst sc) (ct, j) f i", OF _ _ run inv])
       (use step rf in \<open>auto simp: cascade_post_def shrinks_def\<close>)
  have rows: "cs_rows (snd sc') = cs_rows (snd sc) + length ids"
    if "eachM (set_null_child x ct cd f) ids sc = (Inr u, sc')" "cascade_inv x sch P sc" for ids sc
    using that
  proof (induction ids arbitrary: sc)
    case (Cons j ids)
    obtain sc1 where r: "set_null_child x ct cd f j sc = (Inr (), sc1)"
      "eachM (set_null_child x ct cd f) ids sc1 = (Inr u, sc')"
      using Cons.prems(1) unfolding eachM_Cons_Inr by blast
    show ?case
      using Cons.IH[OF r(2)] step[OF r(1) Cons.prems(2)] by simp
  qed simp
  have "length ?ids \<le> MAX_CASCADE_ROWS"
    using rows[OF run inv] post by (simp add: cascade_inv_def)
  then have "holds_ref (fst sc) (ct, j) f i \<Longrightarrow> j \<in> set ?ids" for j
    by (rule visible_all[OF store])
  then show ?thesis
    using post rf unfolding cascade_post_def shrinks_def by fastforce
qed

lemma entry_post:
  assumes IH: "\<And>t j sc sc'. rec t j sc = (Inr (), sc') \<Longrightarrow> cascade_inv x sch P sc \<Longrightarrow>
      cascade_inv x sch P sc' \<and> cascade_post sch h P sc sc' \<and> (t, j) \<in> visited sc'"
    and plain: "refs_plain sch" and inv: "cascade_inv x sch P sc"
    and e: "e \<in> set (cascade_plan sch t)" and run: "cascade_entry rec x i e sc = (Inr u, sc')"
  shows "cascade_inv x sch P sc' \<and> cascade_post sch h P sc sc'
     \<and> (\<forall>j. holds_ref (fst sc') (fst e, j) (fst (snd (snd e))) i \<longrightarrow> (fst e, j) \<in> P)"
proof -
  obtain ct cd f a where e': "e = (ct, cd, f, a)"
    by (cases e)
  have "distinct (map fst (sd_tables sch))"
    using inv store_inv_schema by (auto simp: cascade_inv_def base_inv_def)
  then have ref: "map_of (sd_tables sch) ct = Some cd" "ref_field sch t ct f"
    using plan_field e e' by auto
  have store: "store_inv x (sd_tables sch) (fst sc)"
    using inv by (simp add: cascade_inv_def base_inv_def)
  show ?thesis
  proof (cases a)
    case Cascade
    then have "eachM (rec ct) (visible_child_ids (fst sc) ct f i False) sc = (Inr u, sc')"
      using run by (auto simp: cascade_entry_def e' run_simps split: prod.splits)
    from cascade_children[where rec = rec, OF IH this inv ref(2)] show ?thesis
      by (simp add: e')
  next
    case SetNull
    then have "eachM (set_null_child x ct cd f) (visible_child_ids (fst sc) ct f i False) sc = (Inr u, sc')"
      using run by (auto simp: cascade_entry_def e' run_simps split: prod.splits)
    from set_null_children[OF plain ref this inv] show ?thesis
      by (simp add: e')
  next
    case Restrict
    then have "visible_child_ids (fst sc) ct f i True = []" "sc' = sc"
      using run by (auto simp: cascade_entry_def e' run_simps split: prod.splits if_splits)
    then show ?thesis
      using visible_one[OF store] inv post.refl by (simp add: e')
  qed
qed

lemma plan_post:
  assumes IH: "\<And>t j sc sc'. rec t j sc = (Inr (), sc') \<Longrightarrow> cascade_inv x sch P sc \<Longrightarrow>
      cascade_inv x sch P sc' \<and> cascade_post sch h P sc sc' \<and> (t, j) \<in> visited sc'"
    and plain: "refs_plain sch" and inv: "cascade_inv x sch P sc"
    and run: "eachM (cascade_entry rec x i) (cascade_plan sch t) sc = (Inr u, sc')"
  shows "cascade_inv x sch P sc' \<and> cascade_post sch h P sc sc' \<and> (\<forall>r. refers sch (fst sc') r (t, i) \<longrightarrow> r \<in> P)"
proof -
  let ?D = "\<lambda>e sc. \<forall>j. ref_field sch t (fst e) (fst (snd (snd e)))
      \<and> holds_ref (fst sc) (fst e, j) (fst (snd (snd e))) i \<longrightarrow> (fst e, j) \<in> P"
  have post: "cascade_inv x sch P sc' \<and> cascade_post sch h P sc sc' \<and> (\<forall>e\<in>set (cascade_plan sch t). ?D e sc')"
  proof (rule each_post[where D = ?D, OF _ _ run inv])
    show "cascade_inv x sch P sc' \<and> cascade_post sch h P sc sc' \<and> ?D e sc'"
      if "e \<in> set (cascade_plan sch t)" "cascade_entry rec x i e sc = (Inr (), sc')" "cascade_inv x sch P sc" for e sc sc'
      using entry_post[where rec = rec, OF IH plain that(3,1,2)] by blast
    show "?D e sc'" if "?D e sc" "cascade_post sch h P sc sc'" for e sc sc'
      using that unfolding cascade_post_def shrinks_def by fastforce
  qed
  moreover have "r \<in> P" if ref: "refers sch (fst sc') r (t, i)" for r
  proof -
    obtain f where f: "ref_field sch t (fst r) f" "holds_ref (fst sc') r f i"
      using ref by (auto simp: refers_def)
    obtain cd a where e: "(fst r, cd, f, a) \<in> set (cascade_plan sch t)"
      using ref_field_plan[OF f(1)] by blast
    have "?D (fst r, cd, f, a) sc'"
      using post e by blast
    then show ?thesis
      using f by (metis fst_conv prod.collapse snd_conv)
  qed
  ultimately show ?thesis
    by blast
qed

lemma cascade_main:
  assumes "refs_plain sch"
  shows "cascade_fuel n x h t i sc = (Inr (), sc') \<Longrightarrow> cascade_inv x sch P sc \<Longrightarrow>
      cascade_inv x sch P sc' \<and> cascade_post sch h P sc sc' \<and> (t, i) \<in> visited sc'"
proof (induction n arbitrary: t i sc sc' P)
  case 0
  then show ?case
    by (simp add: throwM_def)
next
  case (Suc n)
  obtain s c where sc: "sc = (s, c)"
    by (cases sc)
  have sch: "c_schema s = Some sch" "map_of (c_tables s) = map_of (sd_tables sch)"
    using Suc.prems(2) by (auto simp: cascade_inv_def base_inv_def sc dest: store_inv_tables)
  have base: "base_inv x sch (fst sc')"
    using Suc.prems
    by (intro base_run[OF ensures_cascade_fuel frame.keeps_cascade_fuel Suc.prems(1)]) (simp add: cascade_inv_def)
  show ?case
  proof (cases "(t, i) \<in> visited sc")
    case True
    then have "sc' = sc"
      using Suc.prems(1) by (auto simp: sc cascade_body_def cascade_enter_def run_simps split: sum.splits)
    then show ?thesis
      using True Suc.prems(2) post.refl by blast
  next
    case False
    define c1 where "c1 = c\<lparr>cs_visited := (t, i) # cs_visited c, cs_rows := Suc (cs_rows c)\<rparr>"
    obtain td where td: "map_of (sd_tables sch) t = Some td" and rows: "cs_rows c < MAX_CASCADE_ROWS"
      and run: "(if td_soft_delete td \<and> \<not> h
           then bindM (on_client (do_soft_delete t i)) (\<lambda>_. touch t)
           else bindM (eachM (cascade_entry (cascade_fuel n x h) x i) (cascade_plan sch t)) (\<lambda>_.
                bindM (on_client (do_delete t i)) (\<lambda>_. touch t))) (s, c1) = (Inr (), sc')"
      using Suc.prems(1) False
      by (auto simp: sc cascade_body_def cascade_enter_def charge_def run_simps require_table_def sch c1_def
          split: sum.splits option.splits if_splits)
    have inv1: "cascade_inv x sch (insert (t, i) P) (s, c1)"
      using Suc.prems(2) rows by (auto simp: cascade_inv_def c1_def sc card_insert_if)
    show ?thesis
    proof (cases "td_soft_delete td \<and> \<not> h")
      case True
      then obtain s1 where d: "do_soft_delete t i s = (Inr (), s1)" "fst sc' = s1" "cs_rows (snd sc') = cs_rows c1"
        "visited sc' = insert (t, i) (visited sc)"
        using run by (auto simp: on_client_def touch_def run_simps c1_def sc split: prod.splits sum.splits)
      note sh = shrinks_soft_delete[OF d(1), of sch]
      have "\<forall>k\<in>visited sc' - P. \<not> live s1 k"
        using gone_shrink[of "visited sc - P" s sch s1] Suc.prems(2) sh d(4) by (auto simp: cascade_inv_def sc)
      then show ?thesis
        using base inv1 d sh True td
        by (auto simp: cascade_inv_def cascade_post_def hard_key_def sc c1_def)
    next
      case False
      then obtain sc1 s2 where d: "eachM (cascade_entry (cascade_fuel n x h) x i) (cascade_plan sch t) (s, c1) = (Inr (), sc1)"
        "do_delete t i (fst sc1) = (Inr (), s2)" "fst sc' = s2" "cs_rows (snd sc') = cs_rows (snd sc1)"
        "visited sc' = visited sc1"
        using run by (auto simp: on_client_def touch_def run_simps split: prod.splits sum.splits)
      note IH = Suc.IH[where P = "insert (t, i) P"]
      note plan = plan_post[where rec = "cascade_fuel n x h", OF IH assms inv1 d(1)]
      note sh = shrinks_delete[OF d(2), of sch]
      have vis: "visited (s, c1) = insert (t, i) (visited sc)"
        by (simp add: c1_def sc)
      have refs: "r \<in> P" if "k \<in> visited sc' - visited sc" "hard_key sch h k" "refers sch s2 r k" for k r
      proof -
        have "refers sch (fst sc1) r k"
          using refers_shrink sh that(3) by blast
        then have "r \<in> insert (t, i) P"
          using plan that(1,2) d(5) vis unfolding cascade_post_def by (cases "k = (t, i)") blast+
        moreover have "live s2 r"
          using that(3) by (auto simp: refers_def holds_ref_def split: option.splits)
        ultimately show ?thesis
          using sh by auto
      qed
      have gone: "\<forall>k\<in>visited sc' - P. \<not> live s2 k"
        using gone_shrink[of "visited sc1 - insert (t, i) P" "fst sc1" sch s2] plan sh d(5)
        unfolding cascade_inv_def by blast
      show ?thesis
        using base plan sh d vis refs gone shrink.trans[of sch s "fst sc1" s2]
        unfolding cascade_inv_def cascade_post_def by (auto simp: sc)
    qed
  qed
qed

lemma fresh_inv: "base_inv x sch s \<Longrightarrow> cascade_inv x sch {} (s, fresh_cascade)"
  by (simp add: cascade_inv_def fresh_cascade_def)

text \<open>
  C3: deleting a row leaves no dangling reference: when the delete step of a table without
  soft deletion succeeds, the row is gone, and no live row of any table still holds its id
  in a field with an \<^verbatim>\<open>onDelete\<close> action, whatever cycles, diamonds and mixtures of cascading,
  clearing and restricting references lead to it; the same holds for every other row the
  cascade removed.
\<close>

theorem delete_no_dangling:
  assumes inv: "base_inv x sch s" and plain: "refs_plain sch"
    and run: "delete_row_cascade x h t i (s, fresh_cascade) = (Inr (), (s', c'))"
  shows "(t, i) \<in> set (cs_visited c')
     \<and> (\<forall>k\<in>set (cs_visited c'). \<not> live s' k \<and> (hard_key sch h k \<longrightarrow> (\<forall>r. \<not> refers sch s' r k)))"
  using cascade_main[OF plain run[unfolded delete_row_cascade_def] fresh_inv[OF inv]]
  by (auto simp: cascade_inv_def cascade_post_def fresh_cascade_def)

lemma sample_plain: "refs_plain sample_schema"
  by (auto simp: refs_plain_def ref_field_def caller_field_def sample_schema_def sample_users_def sample_posts_def
      sample_notes_def sample_comments_def empty_table_def split: if_splits)

definition sample_delete :: "(error_code + unit) \<times> client \<times> cascade" where
  "sample_delete = delete_row_cascade sample_ext False ''users'' (sample_id CHR ''a'') (sample_client, fresh_cascade)"

theorem delete_no_dangling_witness:
  "fst sample_delete = Inr () \<and> length (cs_visited (snd (snd sample_delete))) = 3
   \<and> (\<forall>r. \<not> refers sample_schema (fst (snd sample_delete)) r (''users'', sample_id CHR ''a''))"
proof (intro conjI)
  show ok: "fst sample_delete = Inr ()"
    by code_simp
  show "length (cs_visited (snd (snd sample_delete))) = 3"
    by code_simp
  have base: "base_inv sample_ext sample_schema sample_client"
    using sample_inv by (simp add: base_inv_def sample_client_def)
  have run: "delete_row_cascade sample_ext False ''users'' (sample_id CHR ''a'') (sample_client, fresh_cascade)
      = (Inr (), fst (snd sample_delete), snd (snd sample_delete))"
    using ok by (simp add: sample_delete_def prod_eq_iff)
  have hard: "hard_key sample_schema False (''users'', sample_id CHR ''a'')"
    by (simp add: hard_key_def sample_schema_def sample_users_def empty_table_def)
  show "\<forall>r. \<not> refers sample_schema (fst (snd sample_delete)) r (''users'', sample_id CHR ''a'')"
    using delete_no_dangling[OF base sample_plain run] hard by blast
qed

end
