(* ===== verification/Scheduler.thy ===== *)
theory Scheduler
  imports Cascade_Refs
begin

text \<open>
  The scheduler and the expiry sweep of the in-memory engine (\<^verbatim>\<open>tick\<close> and \<^verbatim>\<open>reap_ttl\<close> of
  \<^verbatim>\<open>rust-client/src/in_memory/mod.rs\<close>), the list of schedules and the read-only switch.
  The tick loop runs over a list that its own jobs extend; it terminates because a job
  can only schedule transactions nested in its own.
\<close>

section \<open>What a job may schedule\<close>

definition job_weight :: "scheduled_job \<Rightarrow> nat" where
  "job_weight j = Suc (count_steps (job_txn j))"

definition jobs_weight :: "scheduled_job list \<Rightarrow> nat" where
  "jobs_weight js = sum_list (map job_weight js)"

lemma jobs_weight_simps [simp]:
  "jobs_weight [] = 0" "jobs_weight (j # js) = job_weight j + jobs_weight js"
  "jobs_weight (js @ ks) = jobs_weight js + jobs_weight ks"
  by (simp_all add: jobs_weight_def)

lemma jobs_weight_filter: "jobs_weight (filter P js) \<le> jobs_weight js"
  by (induction js) auto

text \<open>The schedule store after some steps: jobs may be gone, new ones are at the end.\<close>

definition grown :: "nat \<Rightarrow> scheduled_job list \<Rightarrow> scheduled_job list \<Rightarrow> bool" where
  "grown n js js' \<longleftrightarrow> (\<exists>P new. js' = filter P js @ new \<and> jobs_weight new \<le> n)"

lemma grown_refl: "grown n js js"
  unfolding grown_def by (intro exI[of _ "\<lambda>_. True"] exI[of _ "[]"]) simp

lemma grown_trans:
  assumes "grown n js js'" "grown m js' js''"
  shows "grown (n + m) js js''"
proof -
  obtain P new Q new' where "js' = filter P js @ new" "jobs_weight new \<le> n"
    "js'' = filter Q js' @ new'" "jobs_weight new' \<le> m"
    using assms by (auto simp: grown_def)
  then have "js'' = filter (\<lambda>j. P j \<and> Q j) js @ (filter Q new @ new')" "jobs_weight (filter Q new @ new') \<le> n + m"
    using jobs_weight_filter[of Q new] by (auto intro: add_mono order_trans)
  then show ?thesis
    unfolding grown_def by blast
qed

lemma grown_cancel: "cancel_schedule i s = (r, s') \<Longrightarrow> grown n (c_schedules s) (c_schedules s')"
  unfolding grown_def
  by (intro exI[of _ "\<lambda>j. job_id j \<noteq> i"] exI[of _ "[]"])
     (auto simp: cancel_schedule_def run_simps split: if_splits)

lemma schedule_adds:
  assumes "schedule txn w e s = (r, s')"
  obtains (same) "c_schedules s' = c_schedules s"
  | (new) j where "c_schedules s' = c_schedules s @ [j]" "job_txn j = txn"
proof -
  have new_id: "c_schedules s1 = c_schedules s" if "new_id s = (q, s1)" for q s1
    using keepsD[OF jobs.keeps_new_id that] by (simp add: same_rel_def)
  have "c_schedules s' = c_schedules s \<or> (\<exists>j. c_schedules s' = c_schedules s @ [j] \<and> job_txn j = txn)"
    using assms new_id
    by (auto simp: schedule_def run_simps tick_clock_def split: sum.splits prod.splits)
  then show thesis
    using same new by blast
qed

lemma grown_schedule:
  assumes "schedule txn w e s = (r, s')"
  shows "grown (Suc (count_steps txn)) (c_schedules s) (c_schedules s')"
  using assms
proof (cases rule: schedule_adds)
  case (new j)
  then have "c_schedules s' = filter (\<lambda>_. True) (c_schedules s) @ [j]"
    by simp
  then show ?thesis
    unfolding grown_def using new(2)
    by (intro exI[of _ "\<lambda>_. True"] exI[of _ "[j]"]) (simp add: job_weight_def)
qed (simp add: grown_refl)

lemma grown_step:
  assumes "execute_step x st s = (r, s')"
  shows "grown (count_step st) (c_schedules s) (c_schedules s')"
proof (cases "schedules_step st")
  case True
  then show ?thesis
    using assms grown_schedule grown_cancel grown_refl
    by (cases st)
       (auto simp: execute_step_def enforce_insert_only_def written_existing_def step_schedule_def
          step_cancel_schedule_def run_simps split: prod.splits sum.splits) 
next
  case False
  have k: "keeps (same_rel c_schedules) (execute_step x st)"
    unfolding execute_step_def by (intro same.keeps_rules jobs.keeps_row_step False)
  show ?thesis
    using keepsD[OF k assms] grown_refl by (simp add: same_rel_def)
qed

lemma grown_steps:
  "mapM (execute_step x) sts s = (Inr outs, s') \<Longrightarrow>
   grown (sum_list (map count_step sts)) (c_schedules s) (c_schedules s')"
proof (induction sts arbitrary: s outs)
  case (Cons st sts)
  then obtain out s1 outs' where "execute_step x st s = (Inr out, s1)" "mapM (execute_step x) sts s1 = (Inr outs', s')"
    unfolding mapM_Cons_Inr by blast
  then show ?case
    using grown_trans[OF grown_step Cons.IH] by simp
qed (simp add: grown_refl)

lemma grown_transaction:
  assumes "execute_transaction x txn s = (r, s')"
  shows "grown (count_steps txn) (c_schedules s) (c_schedules s')"
proof (cases r)
  case (Inl e)
  then show ?thesis
    using execute_transaction_rollback[of x txn s e s'] assms grown_refl by simp
next
  case (Inr res)
  then obtain dl s0 s1 outs where run: "check_deadline dl s = (Inr (), s0)"
    "mapM (execute_step x) (txn_steps txn) s0 = (Inr outs, s1)" "check_deadline dl s1 = (Inr (), s')"
    using execute_transaction_steps[of x txn s res s'] assms by blast
  have "c_schedules s0 = c_schedules s" "c_schedules s' = c_schedules s1"
    using keepsD[OF jobs.keeps_check_deadline run(1)] keepsD[OF jobs.keeps_check_deadline run(3)]
    by (simp_all add: same_rel_def)
  moreover have "sum_list (map count_step (txn_steps txn)) = count_steps txn"
    by (cases txn) simp
  ultimately show ?thesis
    using grown_steps[OF run(2)] by simp
qed

section \<open>Firing jobs\<close>

definition set_read_only :: "bool \<Rightarrow> client \<Rightarrow> client" where
  "set_read_only b s = s\<lparr>c_read_only := b\<rparr>"

record schedule_info =
  si_id :: string
  si_kind :: schedule_kind
  si_due_at :: int
  si_cron :: "string option"
  si_tz :: "string option"
  si_every_ms :: "int option"
  si_status :: schedule_status
  si_last_error :: "error_code option"
  si_created_at :: int
  si_fired_count :: int
  si_external :: bool
  si_missed_count :: int
  si_last_missed_at :: "int option"

definition schedule_info_of :: "scheduled_job \<Rightarrow> schedule_info" where
  "schedule_info_of job =
     \<lparr>si_id = job_id job, si_kind = job_kind job, si_due_at = job_due_at job, si_cron = job_cron job,
      si_tz = job_tz job, si_every_ms = job_every_ms job, si_status = job_status job,
      si_last_error = job_last_error job, si_created_at = job_created_at job,
      si_fired_count = job_fired_count job, si_external = job_external job,
      si_missed_count = job_missed_count job, si_last_missed_at = job_last_missed_at job\<rparr>"

definition list_schedules :: "client \<Rightarrow> schedule_info list" where
  "list_schedules s = map schedule_info_of (c_schedules s)"

text \<open>Re-arming a job that fired, with the recurrence and due time it had before.\<close>

definition rearm :: "int \<Rightarrow> scheduled_job \<Rightarrow> scheduled_job \<Rightarrow> scheduled_job" where
  "rearm now job j =
     (let j = j\<lparr>job_fired_count := wrap64 (job_fired_count j + 1)\<rparr>
      in case job_kind job of
           KOneshot \<Rightarrow> j
         | KCron \<Rightarrow> j\<lparr>job_due_at := wrap64 (now + CRON_STEP_MS), job_status := SPending\<rparr>
         | KInterval \<Rightarrow>
             (case job_every_ms job of
                None \<Rightarrow> j\<lparr>job_status := SError, job_last_error := Some Internal\<rparr>
              | Some ms \<Rightarrow>
                  let j = j\<lparr>job_due_at := wrap64 (now + ms), job_status := SPending\<rparr>;
                      delta = wrap64 (now - job_due_at job)
                  in if 0 < ms \<and> 0 < delta \<and> 0 < (delta - 1) div ms
                     then j\<lparr>job_missed_count := wrap64 (job_missed_count j + (delta - 1) div ms),
                            job_last_missed_at := Some now\<rparr>
                     else j))"

definition fire_failed :: "int \<Rightarrow> scheduled_job \<Rightarrow> error_code \<Rightarrow> scheduled_job \<Rightarrow> scheduled_job" where
  "fire_failed now job e j =
     (let j = j\<lparr>job_status := SError, job_last_error := Some e\<rparr>
      in case job_kind job of
           KOneshot \<Rightarrow> j
         | KCron \<Rightarrow> j\<lparr>job_due_at := wrap64 (now + CRON_STEP_MS)\<rparr>
         | KInterval \<Rightarrow>
             (case job_every_ms job of None \<Rightarrow> j | Some ms \<Rightarrow> j\<lparr>job_due_at := wrap64 (now + ms)\<rparr>))"

definition skip_job :: "int \<Rightarrow> scheduled_job \<Rightarrow> bool" where
  "skip_job now job \<longleftrightarrow> job_external job \<or> job_status job = SPaused \<or> now < job_due_at job"

text \<open>
  One round of the loop for a due job: whether the index stays (a one-shot that fired is
  removed, the next job moves into its place) and the state after it.
\<close>

definition fire_job :: "ext \<Rightarrow> int \<Rightarrow> scheduled_job \<Rightarrow> client \<Rightarrow> bool \<times> client" where
  "fire_job x now job s =
     (case execute_transaction x (job_txn job) s of
        (Inr _, s1) \<Rightarrow>
          (case find (\<lambda>j. job_id j = job_id job) (c_schedules s1) of
             None \<Rightarrow> (False, s1)
           | Some _ \<Rightarrow>
               if job_kind job = KOneshot
               then (True, s1\<lparr>c_schedules := filter (\<lambda>j. job_id j \<noteq> job_id job) (c_schedules s1)\<rparr>)
               else (False, s1\<lparr>c_schedules :=
                       update_first (\<lambda>j. job_id j = job_id job) (rearm now job) (c_schedules s1)\<rparr>))
      | (Inl e, s1) \<Rightarrow>
          (False, s1\<lparr>c_schedules :=
             update_first (\<lambda>j. job_id j = job_id job) (fire_failed now job e) (c_schedules s1)\<rparr>))"

lemma rearm_txn [simp]: "job_txn (rearm now job j) = job_txn j"
  by (auto simp: rearm_def Let_def split: schedule_kind.splits option.splits)

lemma fire_failed_txn [simp]: "job_txn (fire_failed now job e j) = job_txn j"
  by (auto simp: fire_failed_def Let_def split: schedule_kind.splits option.splits)

lemma map_txn_update_first: "(\<And>j. job_txn (f j) = job_txn j) \<Longrightarrow> map job_weight (update_first P f js) = map job_weight js"
  by (induction js) (auto simp: job_weight_def)

lemma weight_drop_le: "jobs_weight (drop k js) \<le> jobs_weight js"
  using jobs_weight_simps(3)[of "take k js" "drop k js"] by simp

lemma weight_drop_filter:
  assumes "length (filter P (take n js)) \<le> k"
  shows "jobs_weight (drop k (filter P js)) \<le> jobs_weight (drop n js)"
proof -
  have "drop k (filter P js) = drop (k - length (filter P (take n js))) (filter P (drop n js))"
    using assms by (metis append_take_drop_id drop_all drop_append filter_append append_Nil)
  then show ?thesis
    using weight_drop_le jobs_weight_filter by (metis order_trans)
qed

lemma weight_drop_append: "jobs_weight (drop k (js @ new)) \<le> jobs_weight (drop k js) + jobs_weight new"
  using weight_drop_le[of "k - length js" new] by simp

lemma weight_drop_nth: "i < length js \<Longrightarrow> jobs_weight (drop i js) = job_weight (js ! i) + jobs_weight (drop (Suc i) js)"
  by (simp add: Cons_nth_drop_Suc[symmetric])

lemma grown_shrinks:
  assumes "grown n js js'" "i < length js" "n < job_weight (js ! i)"
  shows "jobs_weight (drop (Suc i) js') < jobs_weight (drop i js)"
    and "\<not> Q (js ! i) \<Longrightarrow> jobs_weight (drop i (filter Q js')) < jobs_weight (drop i js)"
proof -
  obtain P new where js': "js' = filter P js @ new" "jobs_weight new \<le> n"
    using assms(1) by (auto simp: grown_def)
  have "length (filter P (take (Suc i) js)) \<le> Suc i"
    by (rule order_trans[OF length_filter_le]) simp
  from weight_drop_filter[OF this] show "jobs_weight (drop (Suc i) js') < jobs_weight (drop i js)"
    using js' weight_drop_append[of "Suc i" "filter P js" new] weight_drop_nth[OF assms(2)] assms(3) by simp
  assume q: "\<not> Q (js ! i)"
  have "length (filter (\<lambda>j. P j \<and> Q j) (take (Suc i) js)) \<le> i"
    using q length_filter_le[of "\<lambda>j. P j \<and> Q j" "take i js"] assms(2) by (simp add: take_Suc_conv_app_nth)
  from weight_drop_filter[OF this] show "jobs_weight (drop i (filter Q js')) < jobs_weight (drop i js)"
    using js' weight_drop_append[of i "filter (\<lambda>j. P j \<and> Q j) js" "filter Q new"] jobs_weight_filter[of Q new]
      weight_drop_nth[OF assms(2)] assms(3) by (simp add: conj_commute)
qed

lemma jobs_weight_update_first:
  "(\<And>j. job_txn (f j) = job_txn j) \<Longrightarrow> jobs_weight (drop k (update_first P f js)) = jobs_weight (drop k js)"
  unfolding jobs_weight_def drop_map[symmetric] by (simp add: map_txn_update_first)

lemma fire_job_weight:
  assumes "i < length (c_schedules s)" "fire_job x now (c_schedules s ! i) s = (stay, s')"
  shows "jobs_weight (drop (if stay then i else Suc i) (c_schedules s')) < jobs_weight (drop i (c_schedules s))"
proof -
  let ?job = "c_schedules s ! i"
  obtain r s1 where run: "execute_transaction x (job_txn ?job) s = (r, s1)"
    by (cases "execute_transaction x (job_txn ?job) s")
  have "count_steps (job_txn ?job) < job_weight ?job"
    by (simp add: job_weight_def)
  note w = grown_shrinks[OF grown_transaction[OF run] assms(1) this]
  show ?thesis
    using assms(2) run w(1) w(2)[of "\<lambda>j. job_id j \<noteq> job_id ?job"]
    by (auto simp: fire_job_def jobs_weight_update_first split: sum.splits option.splits if_splits)
qed

text \<open>The \<^verbatim>\<open>while i < self.schedules.len()\<close> loop.\<close>

function tick_loop :: "ext \<Rightarrow> int \<Rightarrow> nat \<Rightarrow> client \<Rightarrow> client" where
  "tick_loop x now i s =
     (if length (c_schedules s) \<le> i then s
      else if skip_job now (c_schedules s ! i) then tick_loop x now (Suc i) s
      else (case fire_job x now (c_schedules s ! i) s of
              (stay, s') \<Rightarrow> tick_loop x now (if stay then i else Suc i) s'))"
  by pat_completeness auto
termination
proof (relation "measure (\<lambda>(x, now, i, s). jobs_weight (drop i (c_schedules s)))", goal_cases)
  case (2 x now i s)
  then show ?case
    using weight_drop_nth[of i "c_schedules s"] by (simp add: job_weight_def)
next
  case (3 x now i s stay s')
  then show ?case
    using fire_job_weight[of i s x now stay s'] by simp
qed simp

declare tick_loop.simps [simp del]

section \<open>Expiry\<close>

definition expired :: "int \<Rightarrow> ttl_def \<Rightarrow> stored_row \<Rightarrow> bool" where
  "expired now ttl row =
     (case map_of (row_doc row) (ttl_field ttl) of
        Some (JNumber n) \<Rightarrow> f64_lt (as_f64 n) (i64_as_f64 now)
      | _ \<Rightarrow> False)"

text \<open>The expired rows, grouped by table; tables with nothing to remove have no group.\<close>

definition expired_by_table :: "int \<Rightarrow> client \<Rightarrow> (string \<times> string list) list" where
  "expired_by_table now s =
     filter (\<lambda>g. snd g \<noteq> [])
       (List.map_filter (\<lambda>(t, td).
          map_option (\<lambda>ttl. (t, map (snd \<circ> fst) (filter (\<lambda>(k, row). fst k = t \<and> expired now ttl row) (c_docs s))))
            (td_ttl td)) (c_tables s))"

text \<open>
  The rows removed so far and the tables written, with the client.  One table's sweep of a
  table with \<^verbatim>\<open>onDelete\<close> children shares the visited set, each row has a budget of its own,
  and a row whose cascade fails is skipped; what its cascade wrote stays.
\<close>

type_synonym reaped = "nat \<times> string list"

fun reap_cascade ::
  "ext \<Rightarrow> string \<Rightarrow> string list \<Rightarrow> row_key list \<Rightarrow> reaped \<times> client \<Rightarrow> reaped \<times> client" where
  "reap_cascade x t [] vis st = st"
| "reap_cascade x t (i # ids) vis ((removed, touched), s) =
     (case delete_row_cascade x True t i (s, \<lparr>cs_visited = vis, cs_rows = 0, cs_touched = []\<rparr>) of
        (Inr _, (s', c)) \<Rightarrow>
          reap_cascade x t ids (cs_visited c) ((Suc removed, touched @ cs_touched c), s')
      | (Inl _, (s', c)) \<Rightarrow> reap_cascade x t ids (cs_visited c) ((removed, touched), s'))"

fun reap_plain :: "string \<Rightarrow> string list \<Rightarrow> reaped \<times> client \<Rightarrow> reaped \<times> client" where
  "reap_plain t [] st = st"
| "reap_plain t (i # ids) ((removed, touched), s) =
     (case map_of (c_docs s) (t, i) of
        None \<Rightarrow> reap_plain t ids ((removed, touched), s)
      | Some _ \<Rightarrow> reap_plain t ids ((Suc removed, touched @ [t]), drop_row (t, i) s))"

definition reap_group ::
  "ext \<Rightarrow> schema_def \<Rightarrow> string \<times> string list \<Rightarrow> reaped \<times> client \<Rightarrow> reaped \<times> client" where
  "reap_group x sch g =
     (if has_on_delete_children sch (fst g) then reap_cascade x (fst g) (snd g) [] else reap_plain (fst g) (snd g))"

definition reap_ttl :: "ext \<Rightarrow> int \<Rightarrow> client \<Rightarrow> reaped \<times> client" where
  "reap_ttl x now s =
     (case c_schema s of
        None \<Rightarrow> ((0, []), s)
      | Some sch \<Rightarrow> fold (reap_group x sch) (expired_by_table now s) ((0, []), s))"

definition tick :: "ext \<Rightarrow> int option \<Rightarrow> client \<Rightarrow> reaped \<times> client" where
  "tick x now_ms s =
     (case now_ms of
        Some now \<Rightarrow> reap_ttl x now (tick_loop x now 0 s)
      | None \<Rightarrow>
          let now = c_now s (c_now_reads s)
          in reap_ttl x now (tick_loop x now 0 (s\<lparr>c_now_reads := Suc (c_now_reads s)\<rparr>)))"

subsection \<open>Missed windows\<close>

lemma missed_windows_card:
  assumes "0 < ms" "0 < delta"
  shows "card {k. 1 \<le> k \<and> due + k * ms < due + delta} = nat ((delta - 1) div ms)" (is "card ?K = _")
proof -
  have iff: "k * ms < delta \<longleftrightarrow> k \<le> (delta - 1) div ms" for k
  proof
    assume "k * ms < delta"
    then show "k \<le> (delta - 1) div ms"
      using zdiv_mono1[of "k * ms" "delta - 1" ms] assms(1) by simp
  next
    assume "k \<le> (delta - 1) div ms"
    then have "k * ms \<le> (delta - 1) div ms * ms"
      using assms(1) by (simp add: mult_right_mono)
    also have "\<dots> \<le> delta - 1"
      using pos_mod_sign[OF assms(1), of "delta - 1"] minus_mod_eq_div_mult[of "delta - 1" ms] by linarith
    finally show "k * ms < delta"
      by simp
  qed
  have "?K = {1..(delta - 1) div ms}"
    unfolding add_less_cancel_left iff by (simp only: atLeastAtMost_def atLeast_def atMost_def Int_def mem_Collect_eq)
  then show ?thesis
    by simp
qed

text \<open>
  C22: an interval job that fires late counts exactly the windows it missed: when it fires
  at \<open>now\<close> after being due at \<open>due\<close>, the count grows by the number of later due times
  \<open>due + k * ms\<close> that have passed as well, the job is due one interval from now, pending,
  and its fire count has grown by one.
\<close>

theorem rearm_interval:
  assumes "job_kind job = KInterval" "job_every_ms job = Some ms" "0 < ms"
    and "i64_ok (now + ms)" "i64_ok (now - job_due_at job)"
    and "i64_ok (job_fired_count j + 1)"
    and "i64_ok (job_missed_count j + int (card {k. 1 \<le> k \<and> job_due_at job + k * ms < now}))"
  shows "job_due_at (rearm now job j) = now + ms \<and> job_status (rearm now job j) = SPending
     \<and> job_fired_count (rearm now job j) = job_fired_count j + 1
     \<and> job_missed_count (rearm now job j)
         = job_missed_count j + int (card {k. 1 \<le> k \<and> job_due_at job + k * ms < now})"
proof -
  define d where "d = now - job_due_at job"
  define n where "n = int (card {k. 1 \<le> k \<and> job_due_at job + k * ms < now})"
  have n: "n = (if 0 < d then (d - 1) div ms else 0)"
  proof (cases "0 < d")
    case True
    moreover have "0 \<le> (d - 1) div ms"
      using True assms(3) by (simp add: pos_imp_zdiv_nonneg_iff)
    ultimately show ?thesis
      using missed_windows_card[OF assms(3) True, of "job_due_at job"] by (simp add: n_def d_def)
  next
    case False
    have "\<not> job_due_at job + k * ms < now" if "1 \<le> k" for k
    proof -
      have "0 \<le> k * ms"
        using that assms(3) by simp
      then show ?thesis
        using False d_def by linarith
    qed
    then have "{k. 1 \<le> k \<and> job_due_at job + k * ms < now} = {}"
      by blast
    then show ?thesis
      using False by (simp only: n_def card.empty if_False of_nat_0)
  qed
  have ok: "i64_ok d" "i64_ok (job_missed_count j + n)"
    using assms(5,7) by (simp_all only: d_def n_def)
  have "0 \<le> n"
    by (simp add: n_def)
  then show ?thesis
    unfolding n_def[symmetric]
    using assms(1,2,3,4,6) ok n by (auto simp: rearm_def Let_def d_def[symmetric])
qed


section \<open>What a tick keeps\<close>

text \<open>Every step that a scheduled transaction carries, nested ones included, is in \<open>S\<close>.\<close>

definition jobs_in :: "step set \<Rightarrow> client \<Rightarrow> bool" where
  "jobs_in S s \<longleftrightarrow> (\<forall>j\<in>set (c_schedules s). set (all_steps (job_txn j)) \<subseteq> S)"

lemma jobs_in_schedule:
  assumes "schedule txn w e s = (r, s')" "jobs_in S s" "set (all_steps txn) \<subseteq> S"
  shows "jobs_in S s'"
  using assms(1)
  by (cases rule: schedule_adds) (use assms(2,3) in \<open>auto simp: jobs_in_def\<close>)

lemma jobs_in_step:
  assumes "execute_step x st s = (r, s')" "jobs_in S s" "set (step_tree st) \<subseteq> S"
  shows "jobs_in S s'"
proof (cases "schedules_step st")
  case True
  then show ?thesis
    using assms jobs_in_schedule
    by (cases st)
       (auto simp: execute_step_def enforce_insert_only_def written_existing_def step_schedule_def
          step_cancel_schedule_def cancel_schedule_def run_simps jobs_in_def split: prod.splits sum.splits if_splits)
next
  case False
  have "keeps (same_rel c_schedules) (execute_step x st)"
    unfolding execute_step_def by (intro same.keeps_rules jobs.keeps_row_step False)
  from keepsD[OF this assms(1)] show ?thesis
    using assms(2) by (simp add: same_rel_def jobs_in_def)
qed

lemma jobs_in_transaction:
  assumes "execute_transaction x txn s = (r, s')" "jobs_in S s" "set (all_steps txn) \<subseteq> S"
  shows "jobs_in S s'"
proof (cases r)
  case (Inl e)
  then show ?thesis
    using execute_transaction_rollback[of x txn s e s'] assms by (simp add: jobs_in_def)
next
  case (Inr res)
  then obtain dl s0 s1 outs where run: "check_deadline dl s = (Inr (), s0)"
    "mapM (execute_step x) (txn_steps txn) s0 = (Inr outs, s1)" "check_deadline dl s1 = (Inr (), s')"
    using execute_transaction_steps[of x txn s res s'] assms(1) by blast
  have same: "c_schedules s0 = c_schedules s" "c_schedules s' = c_schedules s1"
    using keepsD[OF jobs.keeps_check_deadline run(1)] keepsD[OF jobs.keeps_check_deadline run(3)]
    by (simp_all add: same_rel_def)
  have "keeps (inv_rel (jobs_in S)) (mapM (execute_step x) (txn_steps txn))"
    using assms(3) jobs_in_step
    by (intro inv.keeps_map keepsI) (cases txn, fastforce simp: inv_rel_def)
  from keepsD[OF this run(2)] show ?thesis
    using assms(2) same by (simp add: inv_rel_def jobs_in_def)
qed

lemma jobs_in_update_first:
  "(\<And>j. job_txn (f j) = job_txn j) \<Longrightarrow>
   jobs_in S (s\<lparr>c_schedules := update_first P f js\<rparr>) = jobs_in S (s\<lparr>c_schedules := js\<rparr>)"
  unfolding jobs_in_def by (induction js) auto

lemma jobs_in_filter: "jobs_in S s \<Longrightarrow> jobs_in S (s\<lparr>c_schedules := filter P (c_schedules s)\<rparr>)"
  by (simp add: jobs_in_def)

lemma jobs_in_fire:
  assumes "fire_job x now job s = (stay, s')" "execute_transaction x (job_txn job) s = (r, s1)" "jobs_in S s1"
  shows "jobs_in S s'"
  using assms jobs_in_filter[of S s1]
  by (auto simp: fire_job_def jobs_in_update_first split: sum.splits option.splits if_splits)

lemma tick_loop_inv:
  assumes run: "\<And>s txn r s'. I s \<Longrightarrow> set (all_steps txn) \<subseteq> S \<Longrightarrow> execute_transaction x txn s = (r, s') \<Longrightarrow> I s'"
    and jobs: "\<And>s js. I s \<Longrightarrow> I (s\<lparr>c_schedules := js\<rparr>)"
  shows "I s \<Longrightarrow> jobs_in S s \<Longrightarrow> I (tick_loop x now i s) \<and> jobs_in S (tick_loop x now i s)"
  using run
proof (induction x now i s rule: tick_loop.induct)
  case (1 x now i s)
  let ?job = "c_schedules s ! i"
  show ?case
  proof (cases "length (c_schedules s) \<le> i \<or> skip_job now ?job")
    case True
    then show ?thesis
      using 1 by (subst (1 2) tick_loop.simps) auto
  next
    case False
    obtain stay s' where fire: "fire_job x now ?job s = (stay, s')"
      by (cases "fire_job x now ?job s")
    obtain r s1 where txn: "execute_transaction x (job_txn ?job) s = (r, s1)"
      by (cases "execute_transaction x (job_txn ?job) s")
    have S: "set (all_steps (job_txn ?job)) \<subseteq> S"
      using 1(4) False by (simp add: jobs_in_def)
    have "I s1" "jobs_in S s1"
      using 1(5)[OF 1(3) S txn] jobs_in_transaction[OF txn 1(4) S] by simp_all
    then have "I s'" "jobs_in S s'"
      using jobs_in_fire[OF fire txn] fire txn jobs
      by (auto simp: fire_job_def split: sum.splits option.splits if_splits)
    then show ?thesis
      using 1(2)[of stay s'] 1(5) False fire by (subst (1 2) tick_loop.simps) auto
  qed
qed


section \<open>The expiry sweep\<close>

lemma reap_plain_run:
  assumes "distinct ids" "\<And>i. i \<in> set ids \<Longrightarrow> map_of (c_docs s) (t, i) \<noteq> None"
  shows "\<exists>s'. reap_plain t ids ((n, tc), s) = ((n + length ids, tc @ replicate (length ids) t), s')
     \<and> map_of (c_docs s') = map_of (c_docs s) |` (- ({t} \<times> set ids))
     \<and> s' = s\<lparr>c_docs := c_docs s'\<rparr>"
  using assms
proof (induction ids arbitrary: n tc s)
  case (Cons i ids)
  have "map_of (c_docs (drop_row (t, i) s)) (t, j) \<noteq> None" if "j \<in> set ids" for j
    using Cons.prems that by (auto simp: drop_row_def hash.get_remove)
  then obtain s' where s': "reap_plain t ids ((Suc n, tc @ [t]), drop_row (t, i) s)
      = ((Suc n + length ids, (tc @ [t]) @ replicate (length ids) t), s')"
    "map_of (c_docs s') = map_of (c_docs (drop_row (t, i) s)) |` (- ({t} \<times> set ids))"
    "s' = (drop_row (t, i) s)\<lparr>c_docs := c_docs s'\<rparr>"
    using Cons.IH[of "drop_row (t, i) s" "Suc n" "tc @ [t]"] Cons.prems(1) unfolding distinct.simps by blast
  obtain row where "map_of (c_docs s) (t, i) = Some row"
    using Cons.prems(2)[of i] by auto
  moreover have "map_of (c_docs s') = map_of (c_docs s) |` (- ({t} \<times> set (i # ids)))"
    unfolding s'(2) by (auto simp: drop_row_def hash.get_remove restrict_map_def fun_eq_iff)
  moreover have "s' = s\<lparr>c_docs := c_docs s'\<rparr>"
    by (subst s'(3)) (simp add: drop_row_def)
  ultimately show ?case
    using s'(1) by auto
qed (simp add: restrict_map_def)

definition expired_key :: "int \<Rightarrow> client \<Rightarrow> row_key \<Rightarrow> bool" where
  "expired_key now s k \<longleftrightarrow>
     (\<exists>td ttl row. map_of (c_tables s) (fst k) = Some td \<and> td_ttl td = Some ttl
        \<and> map_of (c_docs s) k = Some row \<and> expired now ttl row)"


definition group_keys :: "(string \<times> string list) list \<Rightarrow> row_key set" where
  "group_keys gs = (\<Union>(t, ids)\<in>set gs. {t} \<times> set ids)"

lemma reap_groups:
  assumes "distinct (map fst gs)" "\<And>t ids. (t, ids) \<in> set gs \<Longrightarrow> distinct ids"
    and "group_keys gs \<subseteq> dom (map_of (c_docs s))"
  shows "\<exists>tc' s'. fold (\<lambda>(t, ids). reap_plain t ids) gs ((n, tc), s) = ((n + card (group_keys gs), tc'), s')
     \<and> set tc' = set tc \<union> fst ` group_keys gs
     \<and> map_of (c_docs s') = map_of (c_docs s) |` (- group_keys gs) \<and> s' = s\<lparr>c_docs := c_docs s'\<rparr>"
  using assms
proof (induction gs arbitrary: n tc s)
  case Nil
  then show ?case
    by (simp add: group_keys_def restrict_map_def)
next
  case (Cons g gs)
  obtain t ids where g: "g = (t, ids)"
    by (cases g)
  have keys: "group_keys (g # gs) = {t} \<times> set ids \<union> group_keys gs"
    by (simp add: group_keys_def g)
  have disj: "({t} \<times> set ids) \<inter> group_keys gs = {}"
    using Cons.prems(1) by (force simp: group_keys_def g)
  have fin: "finite (group_keys gs)"
    by (auto simp: group_keys_def)
  have ids: "distinct ids" "\<And>i. i \<in> set ids \<Longrightarrow> map_of (c_docs s) (t, i) \<noteq> None"
    using Cons.prems(2)[of t ids] Cons.prems(3) unfolding keys by (auto simp: g)
  obtain s1 where s1: "reap_plain t ids ((n, tc), s) = ((n + length ids, tc @ replicate (length ids) t), s1)"
    "map_of (c_docs s1) = map_of (c_docs s) |` (- ({t} \<times> set ids))" "s1 = s\<lparr>c_docs := c_docs s1\<rparr>"
    using reap_plain_run[OF ids] by blast
  have "group_keys gs \<subseteq> dom (map_of (c_docs s1))"
    using Cons.prems(3) disj by (auto simp: s1(2) keys)
  moreover have "distinct (map fst gs)" "\<And>t ids. (t, ids) \<in> set gs \<Longrightarrow> distinct ids"
    using Cons.prems(1,2) by auto
  ultimately obtain tc' s' where s': "fold (\<lambda>(t, ids). reap_plain t ids) gs ((n + length ids, tc @ replicate (length ids) t), s1)
      = ((n + length ids + card (group_keys gs), tc'), s')"
    "set tc' = set (tc @ replicate (length ids) t) \<union> fst ` group_keys gs"
    "map_of (c_docs s') = map_of (c_docs s1) |` (- group_keys gs)" "s' = s1\<lparr>c_docs := c_docs s'\<rparr>"
    using Cons.IH[of s1 "n + length ids" "tc @ replicate (length ids) t"] by blast
  have "s' = s\<lparr>c_docs := c_docs s'\<rparr>"
    by (subst s'(4), subst s1(3)) simp
  moreover have "map_of (c_docs s') = map_of (c_docs s) |` (- group_keys (g # gs))"
    unfolding s'(3) s1(2) keys by (simp add: Int_commute)
  moreover have "card (group_keys (g # gs)) = length ids + card (group_keys gs)"
    unfolding keys using disj fin ids(1) by (simp add: card_Un_disjoint card_cartesian_product distinct_card)
  moreover have "set tc' = set tc \<union> fst ` group_keys (g # gs)"
    unfolding s'(2) keys by (cases ids) (auto simp: image_Un)
  ultimately show ?case
    using s1(1) s'(1) by (simp add: g)
qed

lemma expired_by_table_iff:
  "(t, ids) \<in> set (expired_by_table now s) \<longleftrightarrow> ids \<noteq> [] \<and>
     (\<exists>td ttl. (t, td) \<in> set (c_tables s) \<and> td_ttl td = Some ttl
        \<and> ids = map (snd \<circ> fst) (filter (\<lambda>(k, row). fst k = t \<and> expired now ttl row) (c_docs s)))"
  unfolding expired_by_table_def set_map_filter set_filter
  by (auto simp: image_iff) (rule bexI[rotated], assumption, simp)

lemma expired_groups:
  assumes "hm_ok (c_docs s)" "hm_ok (c_tables s)"
  shows "distinct (map fst (expired_by_table now s))"
    and "\<And>t ids. (t, ids) \<in> set (expired_by_table now s) \<Longrightarrow> distinct ids"
    and "group_keys (expired_by_table now s) = {k. expired_key now s k}"
proof -
  have "distinct (map fst (List.map_filter (\<lambda>(t, td). map_option (\<lambda>ttl. (t, f t ttl)) (td_ttl td)) ts))"
    if "distinct (map fst ts)" for f :: "string \<Rightarrow> ttl_def \<Rightarrow> string list" and ts
    using that by (induction ts) (force simp: List.map_filter_def split: option.splits)+
  note this[OF assms(2)[unfolded hm_ok_def]]
  then show "distinct (map fst (expired_by_table now s))"
    unfolding expired_by_table_def by (intro distinct_map_filter)
  show "distinct ids" if grp: "(t, ids) \<in> set (expired_by_table now s)" for t ids
  proof -
    obtain ttl where "ids = map (snd \<circ> fst) (filter (\<lambda>(k, row). fst k = t \<and> expired now ttl row) (c_docs s))"
      using grp unfolding expired_by_table_iff by blast
    then show ?thesis
      using assms(1) unfolding hm_ok_def distinct_map
      by (fastforce simp: inj_on_def distinct_map intro!: distinct_filter)
  qed
  have docs: "(k, row) \<in> set (c_docs s) \<longleftrightarrow> map_of (c_docs s) k = Some row" for k row
    using assms(1) by (auto simp: hm_ok_def dest: map_of_SomeD)
  have tabs: "(t, td) \<in> set (c_tables s) \<longleftrightarrow> map_of (c_tables s) t = Some td" for t td
    using assms(2) by (auto simp: hm_ok_def dest: map_of_SomeD)
  define hits where "hits t ttl = map (snd \<circ> fst) (filter (\<lambda>(k, row). fst k = t \<and> expired now ttl row) (c_docs s))" for t ttl
  have hits: "i \<in> set (hits t ttl) \<longleftrightarrow> (\<exists>row. map_of (c_docs s) (t, i) = Some row \<and> expired now ttl row)" for t i ttl
    unfolding docs[symmetric] hits_def by force
  have "(t, i) \<in> group_keys (expired_by_table now s) \<longleftrightarrow> expired_key now s (t, i)" for t i
  proof -
    have "(t, i) \<in> group_keys (expired_by_table now s) \<longleftrightarrow> (\<exists>ids. (t, ids) \<in> set (expired_by_table now s) \<and> i \<in> set ids)"
      by (auto simp: group_keys_def)
    also have "\<dots> \<longleftrightarrow> (\<exists>td ttl. map_of (c_tables s) t = Some td \<and> td_ttl td = Some ttl \<and> i \<in> set (hits t ttl))"
      unfolding expired_by_table_iff hits_def[symmetric] tabs by fastforce
    finally show ?thesis
      unfolding expired_key_def hits by auto
  qed
  then show "group_keys (expired_by_table now s) = {k. expired_key now s k}"
    by auto
qed

text \<open>
  C21: the expiry sweep removes exactly the expired rows: when no table with a TTL has
  \<^verbatim>\<open>onDelete\<close> children, a row is gone afterwards if and only if its table declares a TTL and
  the TTL field holds a number below the current time; every other row, and everything else
  of the client, is as before, the count returned is the number of rows removed, and the
  tables reported to subscribers are those of the removed rows.
\<close>

theorem reap_ttl_exact:
  assumes "hm_ok (c_docs s)" "hm_ok (c_tables s)" "c_schema s = Some sch"
    and "\<And>t td. map_of (c_tables s) t = Some td \<Longrightarrow> td_ttl td \<noteq> None \<Longrightarrow> \<not> has_on_delete_children sch t"
    and "reap_ttl x now s = ((n, touched), s')"
  shows "map_of (c_docs s') = (\<lambda>k. if expired_key now s k then None else map_of (c_docs s) k)
     \<and> s' = s\<lparr>c_docs := c_docs s'\<rparr> \<and> n = card {k. expired_key now s k}
     \<and> set touched = fst ` {k. expired_key now s k}"
proof -
  let ?gs = "expired_by_table now s"
  note groups = expired_groups[OF assms(1,2), where now = now]
  have "\<not> has_on_delete_children sch t" if "(t, ids) \<in> set ?gs" for t ids
    using that assms(2,4) unfolding expired_by_table_iff hm_ok_def by fastforce
  then have run: "reap_ttl x now s = fold (\<lambda>(t, ids). reap_plain t ids) ?gs ((0, []), s)"
    unfolding reap_ttl_def assms(3) option.case by (intro fold_cong) (auto simp: reap_group_def)
  have "group_keys ?gs \<subseteq> dom (map_of (c_docs s))"
    unfolding groups(3) by (auto simp: expired_key_def)
  from reap_groups[OF groups(1,2) this, where n = 0 and tc = "[]"] show ?thesis
    using assms(5) unfolding run groups(3) by (auto simp: restrict_map_def fun_eq_iff)
qed

definition sound_steps :: "step set" where
  "sound_steps = {st. \<forall>d\<in>set (step_docs st). bt_ok d}"

lemma txn_ok_sound: "set (all_steps txn) \<subseteq> sound_steps \<Longrightarrow> txn_ok txn"
proof -
  have "st \<in> set (step_tree st)" for st
    by (cases st rule: step_tree.cases) auto
  then show "set (all_steps txn) \<subseteq> sound_steps \<Longrightarrow> txn_ok txn"
    by (cases txn) (force simp: txn_ok_def sound_steps_def)
qed


lemma tick_loop_store_inv:
  assumes "store_inv x ts s" "jobs_in sound_steps s"
  shows "store_inv x ts (tick_loop x now i s) \<and> jobs_in sound_steps (tick_loop x now i s)"
proof (rule tick_loop_inv[where I = "store_inv x ts", OF _ _ assms])
  fix s txn r s'
  assume "store_inv x ts s" "set (all_steps txn) \<subseteq> sound_steps" "execute_transaction x txn s = (r, s')"
  then show "store_inv x ts s'"
    using ensuresD[OF ensures_execute_transaction[OF txn_ok_sound]] by blast
next
  fix s js
  assume "store_inv x ts s"
  then show "store_inv x ts (s\<lparr>c_schedules := js\<rparr>)"
    by (subst store_inv_cong) (simp_all add: settings_def)
qed

lemma reap_store_inv:
  "store_inv x ts s \<Longrightarrow> reap_plain t ids ((n, tc), s) = (r, s') \<Longrightarrow> store_inv x ts s' \<and> c_schedules s' = c_schedules s"
  "store_inv x ts s \<Longrightarrow> reap_cascade x t ids vis ((n, tc), s) = (r, s') \<Longrightarrow> store_inv x ts s' \<and> c_schedules s' = c_schedules s"
proof (induction ids arbitrary: n tc s vis)
  case (Cons i ids)
  {
    case 1
    then show ?case
      using Cons.IH(1)[of "drop_row (t, i) s"] Cons.IH(1)[of s] store_inv_drop[of x ts s "(t, i)"]
      by (auto simp: drop_row_def split: option.splits)
  next
    case 2
    obtain q s1 c where run: "delete_row_cascade x True t i (s, \<lparr>cs_visited = vis, cs_rows = 0, cs_touched = []\<rparr>) = (q, (s1, c))"
      by (metis prod_cases3)
    have "store_inv x ts s1"
      using ensuresD[OF ensures_delete_row_cascade _ run] 2(1) by (simp add: fst_inv_def)
    moreover have "c_schedules s1 = c_schedules s"
      using keepsD[OF jobs.keeps_delete_row_cascade run] by (simp add: jobs.on_fst_def same_rel_def)
    ultimately show ?case
      using 2(2) Cons.IH(2)[of s1] by (auto simp: run split: sum.splits)
  }
qed auto

lemma reap_group_store_inv:
  "store_inv x ts s \<Longrightarrow> reap_group x sch g (r, s) = (r', s') \<Longrightarrow> store_inv x ts s' \<and> c_schedules s' = c_schedules s"
  using reap_store_inv[where t = "fst g" and ids = "snd g" and n = "fst r" and tc = "snd r" and s = s and r = r' and s' = s'
      and x = x and ts = ts]
  by (simp add: reap_group_def split: if_splits)

lemma reap_groups_store_inv:
  "store_inv x ts s \<Longrightarrow> fold (reap_group x sch) gs (r, s) = (r', s') \<Longrightarrow>
   store_inv x ts s' \<and> c_schedules s' = c_schedules s"
proof (induction gs arbitrary: r s)
  case (Cons g gs)
  obtain r1 s1 where "reap_group x sch g (r, s) = (r1, s1)"
    by (cases "reap_group x sch g (r, s)")
  then show ?case
    using reap_group_store_inv[of x ts s sch g r r1 s1] Cons.IH[of s1 r1] Cons.prems by simp
qed simp

lemma reap_ttl_store_inv:
  "store_inv x ts s \<Longrightarrow> reap_ttl x now s = (r, s') \<Longrightarrow> store_inv x ts s' \<and> c_schedules s' = c_schedules s"
  using reap_groups_store_inv[of x ts s] by (auto simp: reap_ttl_def split: option.splits)


text \<open>
  C20: a tick keeps the store invariant: firing every due job and reaping the expired rows,
  with any failures among them, leaves the stored documents valid and the unique indexes
  unique, and the schedules' transactions well-formed for the next tick.
\<close>

theorem tick_store_inv:
  assumes "store_inv x ts s" "jobs_in sound_steps s" "tick x now_ms s = (r, s')"
  shows "store_inv x ts s' \<and> jobs_in sound_steps s'"
proof -
  have tick: "store_inv x ts s' \<and> jobs_in sound_steps s'"
    if "store_inv x ts s0" "jobs_in sound_steps s0" "reap_ttl x now (tick_loop x now 0 s0) = (r, s')" for now s0
    using tick_loop_store_inv[OF that(1,2), of now 0] reap_ttl_store_inv[OF _ that(3)]
    by (auto simp: jobs_in_def)
  have "store_inv x ts (s\<lparr>c_now_reads := n\<rparr>)" "jobs_in sound_steps (s\<lparr>c_now_reads := n\<rparr>)" for n
    using assms(1,2) store_inv_cong[of "s\<lparr>c_now_reads := n\<rparr>" s x ts]
    by (simp_all add: settings_def jobs_in_def)
  then show ?thesis
    using assms tick unfolding tick_def Let_def by (auto split: option.splits)
qed

section \<open>The loop is a sweep\<close>

text \<open>
  What a tick should do: consider the jobs in the order of the list, each once; leave
  those that are not due, run the others, drop a one-shot that succeeded, re-arm a recurring job,
  mark a failed one.
\<close>

fun sweep :: "ext \<Rightarrow> int \<Rightarrow> scheduled_job list \<Rightarrow> scheduled_job list \<Rightarrow> client \<Rightarrow> client" where
  "sweep x now past [] s = s"
| "sweep x now past (j # rest) s =
     (if skip_job now j then sweep x now (past @ [j]) rest s
      else case execute_transaction x (job_txn j) s of
             (Inl e, s1) \<Rightarrow>
               let past = past @ [fire_failed now j e j]
               in sweep x now past rest (s1\<lparr>c_schedules := past @ rest\<rparr>)
           | (Inr _, s1) \<Rightarrow>
               let past = (if job_kind j = KOneshot then past else past @ [rearm now j j])
               in sweep x now past rest (s1\<lparr>c_schedules := past @ rest\<rparr>))"

lemma schedule_free_transaction:
  assumes "execute_transaction x txn s = (r, s')" "list_all (\<lambda>st. \<not> schedules_step st) (txn_steps txn)"
  shows "c_schedules s' = c_schedules s"
proof (cases r)
  case (Inl e)
  then show ?thesis
    using execute_transaction_rollback[of x txn s e s'] assms(1) by simp
next
  case (Inr res)
  then obtain dl s0 s1 outs where run: "check_deadline dl s = (Inr (), s0)"
    "mapM (execute_step x) (txn_steps txn) s0 = (Inr outs, s1)" "check_deadline dl s1 = (Inr (), s')"
    using execute_transaction_steps[of x txn s res s'] assms(1) by blast
  have "keeps (same_rel c_schedules) (mapM (execute_step x) (txn_steps txn))"
    using assms(2) unfolding execute_step_def
    by (intro same.keeps_rules jobs.keeps_row_step) (auto simp: list_all_iff)
  from keepsD[OF this run(2)] show ?thesis
    using check_deadline_data[OF run(1)] check_deadline_data[OF run(3)] by (simp add: same_rel_def)
qed

lemma update_first_append:
  "(\<And>j. j \<in> set js \<Longrightarrow> \<not> P j) \<Longrightarrow> P k \<Longrightarrow> update_first P f (js @ k # ks) = js @ f k # ks"
  by (induction js) auto

lemma fire_job_middle:
  assumes "c_schedules s = past @ j # rest" "distinct (map job_id (past @ j # rest))"
    and "list_all (\<lambda>st. \<not> schedules_step st) (txn_steps (job_txn j))"
  shows "fire_job x now j s =
     (case execute_transaction x (job_txn j) s of
        (Inl e, s1) \<Rightarrow> (False, s1\<lparr>c_schedules := past @ fire_failed now j e j # rest\<rparr>)
      | (Inr _, s1) \<Rightarrow>
          if job_kind j = KOneshot then (True, s1\<lparr>c_schedules := past @ rest\<rparr>)
          else (False, s1\<lparr>c_schedules := past @ rearm now j j # rest\<rparr>))"
proof -
  obtain r s1 where run: "execute_transaction x (job_txn j) s = (r, s1)"
    by (cases "execute_transaction x (job_txn j) s")
  then have js: "c_schedules s1 = past @ j # rest"
    using schedule_free_transaction[OF run assms(3)] assms(1) by simp
  have other: "\<And>k. k \<in> set past \<Longrightarrow> job_id k \<noteq> job_id j" "\<And>k. k \<in> set rest \<Longrightarrow> job_id k \<noteq> job_id j"
    using assms(2) by auto (metis image_eqI)+
  then have "find (\<lambda>k. job_id k = job_id j) (c_schedules s1) \<noteq> None"
    "filter (\<lambda>k. job_id k \<noteq> job_id j) (c_schedules s1) = past @ rest"
    "update_first (\<lambda>k. job_id k = job_id j) f (c_schedules s1) = past @ f j # rest" for f
    unfolding js by (auto simp: find_None_iff update_first_append)
  then show ?thesis
    using run by (auto simp: fire_job_def split: sum.splits option.splits)
qed


lemma rearm_id [simp]: "job_id (rearm now job j) = job_id j" "job_id (fire_failed now job e j) = job_id j"
  by (auto simp: rearm_def fire_failed_def Let_def split: schedule_kind.splits option.splits)

lemma tick_loop_sweep:
  assumes "c_schedules s = past @ rest" "distinct (map job_id (past @ rest))"
    and "\<And>j. j \<in> set rest \<Longrightarrow> list_all (\<lambda>st. \<not> schedules_step st) (txn_steps (job_txn j))"
  shows "tick_loop x now (length past) s = sweep x now past rest s"
  using assms
proof (induction rest arbitrary: past s)
  case Nil
  then show ?case
    by (simp add: tick_loop.simps)
next
  case (Cons j rest)
  have nth: "c_schedules s ! length past = j" "length past < length (c_schedules s)"
    using Cons.prems(1) by simp_all
  show ?case
  proof (cases "skip_job now j")
    case True
    then show ?thesis
      using Cons.IH[of s "past @ [j]"] Cons.prems nth by (subst tick_loop.simps) simp
  next
    case False
    have free: "list_all (\<lambda>st. \<not> schedules_step st) (txn_steps (job_txn j))"
      using Cons.prems(3) by simp
    obtain r s1 where run: "execute_transaction x (job_txn j) s = (r, s1)"
      by (cases "execute_transaction x (job_txn j) s")
    have step: "tick_loop x now (length past) s =
        (case fire_job x now j s of (stay, s') \<Rightarrow> tick_loop x now (if stay then length past else Suc (length past)) s')"
      using nth False by (subst tick_loop.simps) simp
    have IH: "tick_loop x now (length past') (s1\<lparr>c_schedules := past' @ rest\<rparr>)
        = sweep x now past' rest (s1\<lparr>c_schedules := past' @ rest\<rparr>)"
      if "map job_id past' = map job_id past \<or> map job_id past' = map job_id past @ [job_id j]" for past'
      using that Cons.prems(2,3) by (intro Cons.IH) (auto simp: distinct_append simp flip: set_map)
    show ?thesis
      unfolding step fire_job_middle[OF Cons.prems(1,2) free] using run False
        IH[of "past"] IH[of "past @ [rearm now j j]"] IH[of "past @ [fire_failed now j e j]" for e]
      by (auto simp: Let_def split: sum.splits)
  qed
qed

text \<open>
  C19: the index loop of a tick is a sweep over the jobs as they were when it began: when
  their transactions themselves schedule and cancel nothing, every due job that is neither
  paused nor external is run exactly once, in the order of the list, a one-shot that
  succeeds is removed, a recurring one re-armed, a failing one marked, and no other
  job is touched or skipped although the list shrinks under the index.
\<close>

theorem tick_is_sweep:
  assumes "distinct (map job_id (c_schedules s))"
    and "\<And>j. j \<in> set (c_schedules s) \<Longrightarrow> list_all (\<lambda>st. \<not> schedules_step st) (txn_steps (job_txn j))"
  shows "tick x (Some now) s = reap_ttl x now (sweep x now [] (c_schedules s) s)"
  using tick_loop_sweep[of s "[]" "c_schedules s"] assms by (simp add: tick_def)


section \<open>Examples\<close>

definition ttl_sessions :: table_def where
  "ttl_sessions = empty_table\<lparr>
     td_fields := [(''expires'', TyNumber), (''who'', TyString)],
     td_ttl := Some \<lparr>ttl_field = ''expires'', ttl_default_duration_ms = None\<rparr>\<rparr>"

definition ttl_schema :: schema_def where
  "ttl_schema = \<lparr>sd_tables = [(''sessions'', ttl_sessions)]\<rparr>"

definition ttl_doc :: "int \<Rightarrow> doc" where
  "ttl_doc n = [(''expires'', json_of_int n), (''who'', JString ''w'')]"

definition ttl_job :: "string \<Rightarrow> schedule_kind \<Rightarrow> step \<Rightarrow> scheduled_job" where
  "ttl_job i kind st =
     \<lparr>job_id = i, job_kind = kind, job_txn = Transaction [st], job_due_at = 100, job_cron = None,
      job_tz = None, job_every_ms = (if kind = KInterval then Some 60 else None), job_status = SPending,
      job_created_at = 0, job_fired_count = 0, job_last_error = None, job_external = False,
      job_missed_count = 0, job_last_missed_at = None\<rparr>"

definition ttl_client :: client where
  "ttl_client = (new_client (\<lambda>n. 1000 + int n) (\<lambda>n. Fin 0))
     \<lparr>c_schema := Some ttl_schema, c_tables := sd_tables ttl_schema,
      c_docs := [sample_entry ''sessions'' CHR ''a'' (ttl_doc 500), sample_entry ''sessions'' CHR ''b'' (ttl_doc 5000)],
      c_schedules := [ttl_job ''j1'' KOneshot (Insert ''sessions'' (ttl_doc 9000)),
                      ttl_job ''j2'' KOneshot (Delete ''sessions'' ''none''),
                      ttl_job ''j3'' KInterval (Insert ''sessions'' (ttl_doc 700))]\<rparr>"

lemma ttl_tables: "c_tables ttl_client = [(''sessions'', ttl_sessions)]" "c_schema ttl_client = Some ttl_schema"
  by (simp_all add: ttl_client_def ttl_schema_def)

lemma ttl_plain: "\<not> has_on_delete_children ttl_schema t"
  by (simp add: has_on_delete_children_def ttl_schema_def ttl_sessions_def)

lemma ttl_oks: "hm_ok (c_docs ttl_client)" "hm_ok (c_tables ttl_client)"
  by code_simp+

lemma ttl_sound: "jobs_in sound_steps ttl_client"
  by (auto simp: jobs_in_def sound_steps_def ttl_client_def ttl_job_def ttl_doc_def bt_ok_def)

theorem rearm_interval_witness:
  "job_missed_count (rearm 1000 (ttl_job ''j'' KInterval (Delete ''t'' ''i'')) (ttl_job ''j'' KInterval (Delete ''t'' ''i''))) = 14"
proof -
  let ?j = "ttl_job ''j'' KInterval (Delete ''t'' ''i'')"
  have "{k. 1 \<le> k \<and> 100 + k * 60 < (1000::int)} = {1..14}"
    by auto
  then have n: "card {k. 1 \<le> k \<and> job_due_at ?j + k * 60 < 1000} = 14"
    by (simp add: ttl_job_def)
  show ?thesis
    using rearm_interval[of ?j 60 1000 ?j] unfolding n by (simp add: ttl_job_def i64_ok_def)
qed

theorem reap_ttl_exact_witness:
  "map_of (c_docs (snd (reap_ttl sample_ext 1000 ttl_client))) (''sessions'', sample_id CHR ''a'') = None
   \<and> map_of (c_docs (snd (reap_ttl sample_ext 1000 ttl_client))) (''sessions'', sample_id CHR ''b'') \<noteq> None"
proof -
  have run: "reap_ttl sample_ext 1000 ttl_client =
      ((fst (fst (reap_ttl sample_ext 1000 ttl_client)), snd (fst (reap_ttl sample_ext 1000 ttl_client))),
       snd (reap_ttl sample_ext 1000 ttl_client))"
    by simp
  have "expired_key 1000 ttl_client (''sessions'', sample_id CHR ''a'')"
    "\<not> expired_key 1000 ttl_client (''sessions'', sample_id CHR ''b'')"
    "map_of (c_docs ttl_client) (''sessions'', sample_id CHR ''b'') \<noteq> None"
    unfolding expired_key_def ttl_tables(1)
    by (simp_all add: ttl_client_def ttl_sessions_def sample_entry_def sample_id_def sample_row_def expired_def
        ttl_doc_def as_f64_num_of_int i64_as_f64_exact)
  then show ?thesis
    using reap_ttl_exact[OF ttl_oks ttl_tables(2) ttl_plain run] by simp
qed

theorem tick_store_inv_witness:
  "store_inv sample_ext (sd_tables ttl_schema) (snd (tick sample_ext None ttl_client))
   \<and> fst (fst (tick sample_ext None ttl_client)) = 2
   \<and> map si_status (list_schedules (snd (tick sample_ext None ttl_client))) = [SError, SPending]"
proof (intro conjI)
  have "store_inv sample_ext (sd_tables ttl_schema) ttl_client"
    by code_simp
  then show "store_inv sample_ext (sd_tables ttl_schema) (snd (tick sample_ext None ttl_client))"
    using tick_store_inv[OF _ ttl_sound surjective_pairing] by blast
  show "fst (fst (tick sample_ext None ttl_client)) = 2"
    "map si_status (list_schedules (snd (tick sample_ext None ttl_client))) = [SError, SPending]"
    by code_simp+
qed

theorem tick_is_sweep_witness:
  "tick sample_ext (Some 1000) ttl_client = reap_ttl sample_ext 1000 (sweep sample_ext 1000 [] (c_schedules ttl_client) ttl_client)
   \<and> length (c_schedules (sweep sample_ext 1000 [] (c_schedules ttl_client) ttl_client)) = 2"
proof
  show "tick sample_ext (Some 1000) ttl_client = reap_ttl sample_ext 1000 (sweep sample_ext 1000 [] (c_schedules ttl_client) ttl_client)"
    by (rule tick_is_sweep) (auto simp: ttl_client_def ttl_job_def)
  show "length (c_schedules (sweep sample_ext 1000 [] (c_schedules ttl_client) ttl_client)) = 2"
    by code_simp
qed

end
