(* ===== verification/Pages.thy ===== *)
theory Pages
  imports Run_Query Scheduler "HOL-Library.Multiset"
begin

text \<open>
  Ordering and pagination of the scan: the comparator of a query orders the rows of a valid
  store strictly, the sort produces that order, and following the cursors reads every row
  once.
\<close>

section \<open>Sorting by a three-way comparison\<close>

lemma mset_insert_by [simp]: "mset (insert_by c a xs) = add_mset a (mset xs)"
  by (induction xs) auto

lemma mset_sort_by [simp]: "mset (sort_by c xs) = mset xs"
  by (induction xs) (auto simp: sort_by_def)

lemma set_sort_by [simp]: "set (sort_by c xs) = set xs"
  using mset_sort_by[of c xs] by (metis set_mset_mset)

lemma length_sort_by [simp]: "length (sort_by c xs) = length xs"
  using mset_sort_by[of c xs] by (metis size_mset)

lemma reverse_reverse [simp]: "reverse (reverse r) = r"
  by (cases r) simp_all

lemma reverse_eq [simp]: "reverse r = Less \<longleftrightarrow> r = Greater" "reverse r = Greater \<longleftrightarrow> r = Less"
  "reverse r = Equal \<longleftrightarrow> r = Equal"
  by (cases r; simp)+

context three_way
begin

lemma c_trans_less:
  assumes "a \<in> carrier" "b \<in> carrier" "d \<in> carrier" "c a b \<noteq> Greater" "c b d \<noteq> Greater" "c a d = Equal"
  shows "c a b = Equal" "c b d = Equal"
proof -
  have "c d a \<noteq> Greater"
    using c_rev[OF assms(1,3)] assms(6) by simp
  then have "c b a \<noteq> Greater" "c d b \<noteq> Greater"
    using c_trans[of b d a] c_trans[of d a b] assms by auto
  then show "c a b = Equal" "c b d = Equal"
    using c_rev[OF assms(1,2)] c_rev[OF assms(2,3)] assms(4,5) by (metis ordering.exhaust reverse.simps(1))+
qed

lemma sorted_insert_by:
  assumes "a \<in> carrier" "set xs \<subseteq> carrier" "sorted_wrt (\<lambda>a b. c a b \<noteq> Greater) xs"
  shows "sorted_wrt (\<lambda>a b. c a b \<noteq> Greater) (insert_by c a xs)"
  using assms
proof (induction xs)
  case (Cons b xs)
  have ab: "c a b = Greater \<Longrightarrow> c b a \<noteq> Greater"
    using Cons.prems(1,2) c_rev[of a b] by auto
  have "c a b \<noteq> Greater \<Longrightarrow> d \<in> set xs \<Longrightarrow> c a d \<noteq> Greater" for d
    using Cons.prems c_trans[of a b d] by auto
  moreover have "set (insert_by c a xs) = insert a (set xs)"
    using mset_insert_by[of c a xs] by (metis set_mset_add_mset_insert set_mset_mset)
  ultimately show ?case
    using Cons ab by auto
qed simp

lemma sorted_sort_by: "set xs \<subseteq> carrier \<Longrightarrow> sorted_wrt (\<lambda>a b. c a b \<noteq> Greater) (sort_by c xs)"
proof (induction xs)
  case (Cons a xs)
  have "sorted_wrt (\<lambda>a b. c a b \<noteq> Greater) (insert_by c a (sort_by c xs))"
    using Cons by (intro sorted_insert_by) auto
  then show ?case
    by (simp add: sort_by_def)
qed (simp add: sort_by_def)

text \<open>What is left after an element of a strictly sorted list.\<close>

lemma filter_after:
  assumes "set (xs @ a # ys) \<subseteq> carrier" "sorted_wrt (\<lambda>a b. c a b = Less) (xs @ a # ys)"
  shows "filter (\<lambda>b. c b a = Greater) (xs @ a # ys) = ys"
proof -
  have "c b a \<noteq> Greater" if "b \<in> set xs" for b
    using assms(2) that by (auto simp: sorted_wrt_append)
  moreover have "c b a = Greater" if "b \<in> set ys" for b
    using assms that c_rev[of a b] by (auto simp: sorted_wrt_append)
  moreover have "c a a \<noteq> Greater"
    using assms(1) c_refl[of a] by auto
  ultimately show ?thesis
    by (auto simp: filter_empty_conv)
qed

end

lemma three_way_reverse: "three_way c A \<Longrightarrow> three_way (\<lambda>a b. reverse (c a b)) A"
  unfolding three_way_def by (metis reverse_eq(2) reverse_reverse)

lemma three_way_dir: "three_way c A \<Longrightarrow> three_way (\<lambda>a b. dir_order (c a b) dir) A"
  by (cases dir) (simp_all add: dir_order_def three_way_reverse)

lemma three_way_image: "three_way c A \<Longrightarrow> (\<And>a. a \<in> B \<Longrightarrow> f a \<in> A) \<Longrightarrow> three_way (\<lambda>a b. c (f a) (f b)) B"
  unfolding three_way_def by blast

lemma three_way_cong:
  "three_way c A \<Longrightarrow> (\<And>a b. a \<in> A \<Longrightarrow> b \<in> A \<Longrightarrow> c' a b = c a b) \<Longrightarrow> three_way c' A"
  unfolding three_way_def by metis

lemma three_way_cmp: "three_way cmp A"
  by unfold_locales (auto simp: reverse_cmp[symmetric] not_less)

lemma three_way_then:
  assumes f: "three_way f A" and g: "three_way g A"
  shows "three_way (\<lambda>a b. if f a b = Equal then g a b else f a b) A"
proof
  fix a b
  assume "a \<in> A" "b \<in> A"
  then show "(if f b a = Equal then g b a else f b a) = reverse (if f a b = Equal then g a b else f a b)"
    using three_way.c_rev[OF f, of a b] three_way.c_rev[OF g, of a b] by simp
next
  fix a b d
  assume A: "a \<in> A" "b \<in> A" "d \<in> A"
    and ab: "(if f a b = Equal then g a b else f a b) \<noteq> Greater"
    and bd: "(if f b d = Equal then g b d else f b d) \<noteq> Greater"
  then have le: "f a b \<noteq> Greater" "f b d \<noteq> Greater"
    by (auto split: if_splits)
  show "(if f a d = Equal then g a d else f a d) \<noteq> Greater"
  proof (cases "f a d = Equal")
    case True
    then show ?thesis
      using three_way.c_trans_less[OF f A le] three_way.c_trans[OF g A] ab bd by auto
  next
    case False
    then show ?thesis
      using three_way.c_trans[OF f A le] by simp
  qed
qed

lemma three_way_first_diff:
  "(\<And>f. f \<in> set fs \<Longrightarrow> three_way f A) \<Longrightarrow> three_way (\<lambda>a b. first_diff (map (\<lambda>f. f a b) fs)) A"
proof (induction fs)
  case Nil
  then show ?case
    by unfold_locales auto
next
  case (Cons f fs)
  then show ?case
    using three_way_then[of f A "\<lambda>a b. first_diff (map (\<lambda>f. f a b) fs)"] by simp
qed


section \<open>Keysets\<close>

definition keyset :: "scan_plan \<Rightarrow> stored_row \<Rightarrow> json list" where
  "keyset plan row = map (sort_value row) (sort_cols plan)"

definition compare_cols :: "table_def \<Rightarrow> scan_plan \<Rightarrow> stored_row \<Rightarrow> stored_row \<Rightarrow> ordering" where
  "compare_cols td plan a b =
     first_diff (map (\<lambda>col. compare_index_values (sort_value a col) (sort_value b col) (col_type td col)) (sort_cols plan))"

lemma first_diff_iff:
  "g \<noteq> Equal \<Longrightarrow> first_diff (map r xs) = g \<longleftrightarrow> (\<exists>i<length xs. (\<forall>j<i. r (xs ! j) = Equal) \<and> r (xs ! i) = g)"
proof (induction xs)
  case (Cons y xs)
  have "(\<exists>i<length (y # xs). (\<forall>j<i. r ((y # xs) ! j) = Equal) \<and> r ((y # xs) ! i) = g) \<longleftrightarrow>
    r y = g \<or> (r y = Equal \<and> (\<exists>i<length xs. (\<forall>j<i. r (xs ! j) = Equal) \<and> r (xs ! i) = g))"
    by (auto simp: Ex_less_Suc2 All_less_Suc2)
  then show ?case
    using Cons by auto
qed simp

lemma is_after_cursor_iff:
  "is_after_cursor a (keyset plan b) (sort_cols plan) (map (col_type td) (sort_cols plan)) dir
   \<longleftrightarrow> dir_order (compare_cols td plan a b) dir = Greater"
proof -
  let ?g = "case dir of Asc \<Rightarrow> Greater | Desc \<Rightarrow> Less"
  have "dir_order r dir = Greater \<longleftrightarrow> r = ?g" for r
    by (cases dir) (auto simp: dir_order_def)
  moreover have "?g \<noteq> Equal"
    by (cases dir) auto
  moreover have "keyset_is_after (map f cols) (map g cols) (map h cols) dir \<longleftrightarrow>
      (\<exists>i<length cols. (\<forall>j<i. compare_index_values (f (cols ! j)) (g (cols ! j)) (h (cols ! j)) = Equal)
         \<and> compare_index_values (f (cols ! i)) (g (cols ! i)) (h (cols ! i)) = ?g)"
    for f g :: "sort_col \<Rightarrow> json" and h cols
  proof -
    have "(\<forall>j\<in>set [0..<i]. compare_index_values (map f cols ! j) (map g cols ! j) (map h cols ! j) = Equal)
        \<longleftrightarrow> (\<forall>j<i. compare_index_values (f (cols ! j)) (g (cols ! j)) (h (cols ! j)) = Equal)"
      if "i < length cols" for i
      using that by auto
    then show ?thesis
      by (auto simp: keyset_is_after_def list_ex_iff list_all_iff simp del: set_upt) auto
  qed
  ultimately show ?thesis
    by (simp add: is_after_cursor_def keyset_def compare_cols_def first_diff_iff)
qed

lemma compare_small_ints:
  assumes "\<bar>i\<bar> \<le> 2 ^ 53" "\<bar>j\<bar> \<le> 2 ^ 53"
  shows "compare_index_values (json_of_int i) (json_of_int j) Number = cmp i j"
  using assms
  by (simp add: compare_index_values_eqs as_f64_num_of_int i64_as_f64_exact f64_cmp_def f64_partial_cmp_def
      f64_eq_def cmp_def)

text \<open>The rows a scan can order: what it compares are values of their columns.\<close>

definition ordered_row :: "table_def \<Rightarrow> scan_plan \<Rightarrow> stored_row \<Rightarrow> bool" where
  "ordered_row td plan row \<longleftrightarrow>
     \<bar>row_created_at row\<bar> \<le> 2 ^ 53
     \<and> (\<forall>f\<in>set (unbound_fields plan). field_or_null (row_doc row) f \<in> column_carrier (column_pg td f))"

lemma sort_value_carrier:
  "ordered_row td plan row \<Longrightarrow> col \<in> set (sort_cols plan) \<Longrightarrow> sort_value row col \<in> column_carrier (col_type td col)"
  by (auto simp: sort_cols_def ordered_row_def) (auto simp: column_carrier_def column_value_def)

lemma three_way_cols: "three_way (compare_cols td plan) {row. ordered_row td plan row}"
proof -
  have "three_way (\<lambda>a b. compare_index_values (sort_value a col) (sort_value b col) (col_type td col)) {row. ordered_row td plan row}"
    if "col \<in> set (sort_cols plan)" for col
    using sort_value_carrier[OF _ that]
    by (intro three_way_image[OF column.three_way_axioms, where f = "\<lambda>row. sort_value row col"]) auto
  then have "three_way (\<lambda>a b. first_diff (map (\<lambda>f. f a b)
      (map (\<lambda>col a b. compare_index_values (sort_value a col) (sort_value b col) (col_type td col)) (sort_cols plan))))
      {row. ordered_row td plan row}"
    by (intro three_way_first_diff) auto
  then show ?thesis
    by (simp add: compare_cols_def[abs_def] comp_def)
qed

lemma compare_rows_cols:
  assumes "ordered_row td plan a" "ordered_row td plan b"
  shows "compare_rows td plan dir a b = dir_order (compare_cols td plan a b) dir"
  using assms compare_small_ints[of "row_created_at a" "row_created_at b"]
  by (simp add: compare_rows_def compare_cols_def sort_cols_def comp_def ordered_row_def
      compare_index_values_eqs(4))

lemma three_way_rows: "three_way (compare_rows td plan dir) {row. ordered_row td plan row}"
  by (rule three_way_cong[OF three_way_dir[OF three_way_cols]]) (simp add: compare_rows_cols)

lemma first_diff_Equal: "first_diff rs = Equal \<longleftrightarrow> (\<forall>r\<in>set rs. r = Equal)"
  by (induction rs) auto

lemma compare_rows_Equal: "compare_rows td plan dir a b = Equal \<Longrightarrow> row_id a = row_id b"
  by (cases dir) (auto simp: compare_rows_def dir_order_def first_diff_Equal)

lemma sorted_rows_strict:
  assumes "\<forall>row\<in>set rows. ordered_row td plan row" "distinct (map row_id rows)"
  shows "sorted_wrt (\<lambda>a b. compare_rows td plan dir a b = Less) (sort_filtered_rows td plan dir rows)"
proof -
  let ?xs = "sort_filtered_rows td plan dir rows"
  have le: "sorted_wrt (\<lambda>a b. compare_rows td plan dir a b \<noteq> Greater) ?xs"
    unfolding sort_filtered_rows_def using assms(1) by (intro three_way.sorted_sort_by[OF three_way_rows]) auto
  have "mset (map row_id ?xs) = mset (map row_id rows)"
    by (simp add: sort_filtered_rows_def)
  then have "distinct (map row_id ?xs)"
    using assms(2) mset_eq_imp_distinct_iff by blast
  then have "sorted_wrt (\<lambda>a b. row_id a \<noteq> row_id b) ?xs"
    by (simp add: sorted_wrt_iff_nth_less distinct_conv_nth)
  with le have "sorted_wrt (\<lambda>a b. compare_rows td plan dir a b \<noteq> Greater \<and> row_id a \<noteq> row_id b) ?xs"
    by (simp add: sorted_wrt_iff_nth_less)
  then show ?thesis
    by (rule sorted_wrt_mono_rel[rotated]) (metis compare_rows_Equal ordering.exhaust)
qed


section \<open>Following the cursors\<close>

definition indexable :: "table_def \<Rightarrow> string \<Rightarrow> bool" where
  "indexable td f =
     (case map_of (td_fields td) f of None \<Rightarrow> False | Some ty \<Rightarrow> is_ok (index_column_type ty))"

lemma coerce_carrier:
  assumes "indexable td f" "v \<in> column_carrier (column_pg td f)" "\<not> is_null v"
  shows "coerce_index_value td f v = Inr v"
proof -
  obtain ty it where ty: "map_of (td_fields td) f = Some ty" "index_column_type ty = Inr it"
    using assms(1) by (auto simp: indexable_def split: option.splits elim!: is_okE)
  then have "column_value (it_pg it) v"
    using assms(2,3) by (simp add: column_pg_def column_carrier_def)
  then show ?thesis
    using ty by (cases "it_pg it") (simp_all add: coerce_index_value_def column_value_def)
qed

lemma validate_keyset:
  assumes "ordered_row td plan row" "\<forall>f\<in>set (unbound_fields plan). indexable td f"
  shows "validate_cursor_values (keyset plan row) (sort_cols plan) td = Inr ()"
proof -
  have "validate_cursor_value td col (sort_value row col) = Inr ()" if "col \<in> set (sort_cols plan)" for col
    using that assms coerce_carrier[of td] by (auto simp: sort_cols_def ordered_row_def)
  then show ?thesis
    by (auto simp: validate_cursor_values_def keyset_def zip_map2 zip_same split: prod.splits)
qed

text \<open>The cursor codec on the keysets of the rows, from the documented behaviour of the crates.\<close>

lemma cursor_roundtrip:
  assumes "\<And>bytes. b64_decode x (b64_encode x bytes) = Some bytes"
    and "json_parse x (json_text x (JArray vs)) = Some (JArray vs)"
  shows "decode_cursor x (encode_cursor x vs) = Inr vs"
  using assms by (simp add: decode_cursor_def encode_cursor_def)

definition page_of :: "string option \<Rightarrow> nat \<Rightarrow> paginate" where
  "page_of cursor n = \<lparr>pg_cursor = cursor, pg_num_items = n\<rparr>"

text \<open>Where a client stands after the rows it has read: at the last of them.\<close>

definition cursor_after :: "ext \<Rightarrow> scan_plan \<Rightarrow> stored_row list \<Rightarrow> string option" where
  "cursor_after x plan xs = (if xs = [] then None else Some (encode_cursor x (keyset plan (last xs))))"

lemma page_step:
  assumes carrier: "\<forall>row\<in>set (xs @ ys). ordered_row td plan row"
    and strict: "sorted_wrt (\<lambda>a b. compare_rows td plan dir a b = Less) (xs @ ys)"
    and ix: "\<forall>f\<in>set (unbound_fields plan). indexable td f"
    and codec: "\<And>row. row \<in> set xs \<Longrightarrow> decode_cursor x (encode_cursor x (keyset plan row)) = Inr (keyset plan row)"
    and n: "0 < n" "n \<le> MAX_TAKE"
  shows "execute_paginate_terminal x (page_of (cursor_after x plan xs) n) td (xs @ ys) plan dir =
     Inr (page_envelope (map merge_doc (take n ys))
            (if n < length ys then cursor_after x plan (xs @ take n ys) else None))"
proof -
  let ?cols = "sort_cols plan" and ?types = "map (col_type td) (sort_cols plan)"
  have vals: "cursor_values x (cursor_after x plan xs) (length ?cols) (\<lambda>vs. validate_cursor_values vs ?cols td)
      = Inr (if xs = [] then None else Some (keyset plan (last xs)))"
    using codec[of "last xs"] validate_keyset[OF _ ix, of "last xs"] carrier
    by (auto simp: cursor_values_def cursor_after_def keyset_def)
  have rest: "filter (\<lambda>row. is_after_cursor row (keyset plan (last xs)) ?cols ?types dir) (xs @ ys) = ys" if "xs \<noteq> []"
  proof -
    obtain ws w where xs: "xs = ws @ [w]"
      using \<open>xs \<noteq> []\<close> by (metis rev_exhaust)
    have "filter (\<lambda>row. compare_rows td plan dir row w = Greater) (ws @ w # ys) = ys"
      using carrier strict by (intro three_way.filter_after[OF three_way_rows]) (auto simp: xs)
    moreover have "filter (\<lambda>row. is_after_cursor row (keyset plan w) ?cols ?types dir) (ws @ w # ys)
        = filter (\<lambda>row. compare_rows td plan dir row w = Greater) (ws @ w # ys)"
      using carrier by (intro filter_cong) (auto simp: xs is_after_cursor_iff compare_rows_cols)
    ultimately show ?thesis
      by (simp add: xs)
  qed
  have "n < length ys \<Longrightarrow> cursor_after x plan (xs @ take n ys) = Some (encode_cursor x (keyset plan (last (take n ys))))"
    using n(1) by (subst cursor_after_def) (auto simp: last_append)
  then show ?thesis
    using n vals rest
    by (auto simp: execute_paginate_terminal_def paginate_result_def page_of_def keyset_def min_def Let_def)
qed

text \<open>
  A client that reads page after page: the documents it collects, or \<open>None\<close> when a page
  fails or the pages do not end within the given number.
\<close>

fun read_pages :: "nat \<Rightarrow> (string option \<Rightarrow> json res) \<Rightarrow> string option \<Rightarrow> json list option" where
  "read_pages 0 run cursor = None"
| "read_pages (Suc k) run cursor =
     (case run cursor of
        Inr (JObject m) \<Rightarrow>
          (case (map_of m ''docs'', map_of m ''nextCursor'') of
             (Some (JArray docs), None) \<Rightarrow> Some docs
           | (Some (JArray docs), Some (JString c)) \<Rightarrow> map_option ((@) docs) (read_pages k run (Some c))
           | _ \<Rightarrow> None)
      | _ \<Rightarrow> None)"

lemma read_pages_suffix:
  assumes carrier: "\<forall>row\<in>set (xs @ ys). ordered_row td plan row"
    and strict: "sorted_wrt (\<lambda>a b. compare_rows td plan dir a b = Less) (xs @ ys)"
    and ix: "\<forall>f\<in>set (unbound_fields plan). indexable td f"
    and codec: "\<And>row. row \<in> set (xs @ ys) \<Longrightarrow> decode_cursor x (encode_cursor x (keyset plan row)) = Inr (keyset plan row)"
    and n: "0 < n" "n \<le> MAX_TAKE"
    and run: "\<And>c. run c = execute_paginate_terminal x (page_of c n) td (xs @ ys) plan dir"
    and fuel: "length ys < k"
  shows "read_pages k run (cursor_after x plan xs) = Some (map (JObject \<circ> merge_doc) ys)"
  using assms
proof (induction k arbitrary: xs ys)
  case (Suc k)
  note step = page_step[OF Suc.prems(1,2,3) Suc.prems(4) Suc.prems(5,6)]
  have page: "run (cursor_after x plan xs) = Inr (page_envelope (map merge_doc (take n ys))
      (if n < length ys then cursor_after x plan (xs @ take n ys) else None))"
    unfolding Suc.prems(7) by (rule step) simp
  show ?case
  proof (cases "n < length ys")
    case True
    then obtain c where c: "cursor_after x plan (xs @ take n ys) = Some c"
      using n(1) by (cases "xs @ take n ys = []") (simp_all add: cursor_after_def)
    have "read_pages k run (Some c) = Some (map (JObject \<circ> merge_doc) (drop n ys))"
      using Suc.prems True unfolding c[symmetric] by (intro Suc.IH) auto
    then show ?thesis
      using page True c by (simp add: page_envelope_def comp_def map_append[symmetric] del: map_append)
  next
    case False
    then show ?thesis
      using page by (simp add: page_envelope_def comp_def)
  qed
qed simp


section \<open>Rows of a valid store\<close>

lemma valid_column_value:
  "index_column_type ty = Inr it \<Longrightarrow> validate_value ty v \<Longrightarrow> v \<in> column_carrier (it_pg it)"
proof (induction ty arbitrary: it rule: index_column_type.induct)
  case (8 variants)
  then obtain t s where "t \<in> set variants" "t = TyLiteral (JString s)" "validate_value t v" "it_pg it = Text"
    by (auto simp: list_all_iff split: if_splits elim!: is_string_literal.elims)
  then show ?case
    by (simp add: column_carrier_def column_value_def)
qed (auto simp: column_carrier_def column_value_def is_hex_id_def is_int64_string_def int64_of_def
      split: option.splits elim!: as_str.elims)

lemma store_row_carrier:
  assumes "store_inv x ts s" "map_of ts t = Some td" "row \<in> set (live_rows s t)" "indexable td f"
  shows "field_or_null (row_doc row) f \<in> column_carrier (column_pg td f)"
proof -
  obtain k where "(k, row) \<in> set (c_docs s)" "fst k = t"
    using assms(3) by (auto simp: live_rows_def)
  then have ok: "validate_doc x td (JObject (row_doc row)) = Inr ()"
    using assms(1,2) by (force simp: store_inv_def row_ok_def)
  obtain ty it where ty: "map_of (td_fields td) f = Some ty" "index_column_type ty = Inr it"
    using assms(4) by (auto simp: indexable_def split: option.splits elim!: is_okE)
  have "validate_field x td (row_doc row) (f, ty) = Inr ()"
    using ok map_of_SomeD[OF ty(1)] unfolding validate_doc_iff by blast
  then show ?thesis
    using ty valid_column_value[OF ty(2)]
    by (auto simp: field_or_null_def column_pg_def validate_field_def column_carrier_def split: option.splits if_splits)
qed

lemma live_rows_distinct:
  assumes "store_inv x ts s"
  shows "distinct (map row_id (live_rows s t))"
proof -
  have "distinct (c_docs s)" and "\<And>k row. (k, row) \<in> set (c_docs s) \<Longrightarrow> row_id row = snd k"
    and "inj_on fst (set (c_docs s))"
    using assms by (auto simp: store_inv_def hm_ok_def distinct_map row_ok_def)
  then show ?thesis
    unfolding live_rows_def map_map distinct_map by (fastforce simp: inj_on_def)
qed

lemma fetched_rows_ordered:
  assumes "store_inv x ts s" "map_of ts (q_table q) = Some td"
    and "\<forall>f\<in>set (unbound_fields plan). indexable td f"
    and "\<forall>row\<in>set (live_rows s (q_table q)). \<bar>row_created_at row\<bar> \<le> 2 ^ 53"
  shows "\<forall>row\<in>set (fetch_filtered_rows x s q plan td). ordered_row td plan row"
    and "distinct (map row_id (fetch_filtered_rows x s q plan td))"
proof -
  show "\<forall>row\<in>set (fetch_filtered_rows x s q plan td). ordered_row td plan row"
    using assms store_row_carrier[OF assms(1,2)] by (auto simp: fetch_filtered_rows_def ordered_row_def)
  show "distinct (map row_id (fetch_filtered_rows x s q plan td))"
    using live_rows_distinct[OF assms(1)] by (simp add: fetch_filtered_rows_def distinct_map_filter)
qed

section \<open>Combinations\<close>

lemma combinations_ok:
  "check_query_combinations q = Inr () \<longleftrightarrow>
     (\<forall>r\<in>set RULES. \<not> forbid_violated (query_clauses q) r \<and> \<not> at_most_one_violated (query_clauses q) r)"
  unfolding check_query_combinations_def rule_violation_def
  by (auto simp: find_None_iff split: option.splits) (auto simp: find_Some_iff)

lemma set_filter_snd: "k \<in> set (map fst (filter snd kbs)) \<longleftrightarrow> (k, True) \<in> set kbs"
  by force

lemma clause_iffs:
  "''get'' \<in> set (query_clauses q) \<longleftrightarrow> q_get q \<noteq> None"
  "''take'' \<in> set (query_clauses q) \<longleftrightarrow> q_take q \<noteq> None"
  "''unique'' \<in> set (query_clauses q) \<longleftrightarrow> q_unique q"
  "''first'' \<in> set (query_clauses q) \<longleftrightarrow> q_first q"
  "''count'' \<in> set (query_clauses q) \<longleftrightarrow> q_count q"
  "''distinct'' \<in> set (query_clauses q) \<longleftrightarrow> q_distinct q"
  "''aggregate'' \<in> set (query_clauses q) \<longleftrightarrow> q_aggregate q \<noteq> None"
  "''paginate'' \<in> set (query_clauses q) \<longleftrightarrow> q_paginate q \<noteq> None"
  "''search'' \<in> set (query_clauses q) \<longleftrightarrow> q_search q \<noteq> None"
  "''vectorSearch'' \<in> set (query_clauses q) \<longleftrightarrow> q_vector_search q \<noteq> None"
  "''hybridSearch'' \<in> set (query_clauses q) \<longleftrightarrow> q_hybrid_search q \<noteq> None"
  unfolding query_clauses_def set_filter_snd by simp_all

text \<open>The terminals a query asks for.\<close>

definition terminals :: "query \<Rightarrow> bool list" where
  "terminals q =
     [q_aggregate q \<noteq> None, q_count q, q_distinct q, q_first q, q_get q \<noteq> None, q_paginate q \<noteq> None,
      q_take q \<noteq> None, q_unique q]"

lemma length_filter_id: "length (filter P xs) = length (filter id (map P xs))"
  by (induction xs) auto

lemma accepted_terminals:
  assumes "check_query_combinations q = Inr ()"
  shows "length (filter id (terminals q)) \<le> 1"
proof -
  let ?cs = "[''aggregate'', ''count'', ''distinct'', ''first'', ''get'', ''paginate'', ''take'', ''unique'']"
  have "AtMostOne ?cs \<in> set RULES"
    by (simp add: RULES_def)
  then have "\<not> at_most_one_violated (query_clauses q) (AtMostOne ?cs)"
    using assms unfolding combinations_ok by blast
  moreover have "map (\<lambda>c. c \<in> set (query_clauses q)) ?cs = terminals q"
    by (simp only: list.map terminals_def clause_iffs)
  then have "length (filter (\<lambda>c. c \<in> set (query_clauses q)) ?cs) = length (filter id (terminals q))"
    using length_filter_id[of "\<lambda>c. c \<in> set (query_clauses q)" ?cs] by (simp only:)
  ultimately show ?thesis
    by (simp only: at_most_one_violated.simps not_less)
qed


lemma at_most_one_true:
  assumes "length (filter id bs) \<le> 1" "i < length bs" "j < length bs" "i \<noteq> j" "bs ! i"
  shows "\<not> bs ! j"
proof
  assume "bs ! j"
  then have "card {i, j} \<le> card {k. k < length bs \<and> id (bs ! k)}"
    using assms by (intro card_mono) auto
  then show False
    using assms(1,4) by (simp add: length_filter_conv_card)
qed

lemma paginate_alone:
  assumes "check_query_combinations q = Inr ()" "q_paginate q \<noteq> None"
  shows "q_get q = None \<and> \<not> q_count q \<and> \<not> q_distinct q \<and> q_aggregate q = None"
  using at_most_one_true[OF accepted_terminals[OF assms(1)], of 5 4]
    at_most_one_true[OF accepted_terminals[OF assms(1)], of 5 1]
    at_most_one_true[OF accepted_terminals[OF assms(1)], of 5 2]
    at_most_one_true[OF accepted_terminals[OF assms(1)], of 5 0] assms(2)
  by (simp add: terminals_def)

section \<open>Reading a table page by page\<close>

definition scan_only :: "query \<Rightarrow> bool" where
  "scan_only q \<longleftrightarrow>
     q_search q = None \<and> q_vector_search q = None \<and> q_hybrid_search q = None \<and> q_fields q = None \<and> q_lookups q = []"

definition order_of :: "query \<Rightarrow> order" where
  "order_of q = (case q_order q of Some d \<Rightarrow> d | None \<Rightarrow> Asc)"

lemma prepare_scan_page [simp]:
  "prepare_scan (q\<lparr>q_paginate := p\<rparr>) td = prepare_scan q td"
  "fetch_filtered_rows x s (q\<lparr>q_paginate := p\<rparr>) plan td = fetch_filtered_rows x s q plan td"
  by (simp_all add: prepare_scan_def has_range_def fetch_filtered_rows_def row_selected_def
      cong: option.case_cong if_cong)

lemma query_clauses_page:
  "p \<noteq> None \<Longrightarrow> p' \<noteq> None \<Longrightarrow> query_clauses (q\<lparr>q_paginate := p\<rparr>) = query_clauses (q\<lparr>q_paginate := p'\<rparr>)"
  by (simp add: query_clauses_def)

lemma run_query_page:
  assumes "run_query x s (q\<lparr>q_paginate := Some p\<rparr>) = Inr r" "scan_only q" "require_table s (q_table q) = Inr td"
  obtains plan where "prepare_scan q td = Inr plan"
    "\<And>p'. run_query x s (q\<lparr>q_paginate := Some p'\<rparr>)
       = execute_paginate_terminal x p' td (sort_filtered_rows td plan (order_of q) (fetch_filtered_rows x s q plan td))
           plan (order_of q)"
proof -
  let ?q = "\<lambda>p. q\<lparr>q_paginate := Some p\<rparr>"
  have run: "run_query x s (?q p') = execute_query x s (?q p') td" for p'
    using assms(2,3)
    by (cases "execute_query x s (?q p') td")
       (auto simp: run_query_def scan_only_def validate_lookups_def project_result_def)
  have "check_query_combinations (?q p) = Inr ()" and take: "case q_take q of Some t \<Rightarrow> t \<le> MAX_TAKE | None \<Rightarrow> True"
    using assms(1) unfolding run by (auto simp: execute_query_def)
  then have ok: "check_query_combinations (?q p') = Inr ()" for p'
    by (simp add: check_query_combinations_def query_clauses_page[of "Some p'" "Some p"])
  note alone = paginate_alone[OF ok, simplified]
  have exec: "execute_query x s (?q p') td = bindE (prepare_scan q td) (\<lambda>plan.
      execute_paginate_terminal x p' td (sort_filtered_rows td plan (order_of q) (fetch_filtered_rows x s q plan td))
        plan (order_of q))" for p'
    using assms(2) ok take alone by (simp add: execute_query_def scan_only_def Let_def order_of_def)
  moreover obtain plan where "prepare_scan q td = Inr plan"
    using assms(1) unfolding run exec by (cases "prepare_scan q td") auto
  ultimately show thesis
    using that[of plan] run by simp
qed

text \<open>
  C13: reading a query page by page, each time with the cursor of the page before, ends and
  returns every matching row exactly once, in the order of the query: whatever the page size,
  the pages put together are the sorted result.
\<close>

theorem pages_complete:
  assumes inv: "store_inv x ts s" and td: "map_of ts (q_table q) = Some td"
    and first: "run_query x s (q\<lparr>q_paginate := Some (page_of None n)\<rparr>) = Inr r"
    and scan: "scan_only q" "prepare_scan q td = Inr plan" and n: "0 < n"
    and indexable: "\<forall>f\<in>set (unbound_fields plan). indexable td f"
    and ages: "\<forall>row\<in>set (live_rows s (q_table q)). \<bar>row_created_at row\<bar> \<le> 2 ^ 53"
    and base64: "\<And>bytes. b64_decode x (b64_encode x bytes) = Some bytes"
    and json: "\<And>row. row \<in> set (live_rows s (q_table q)) \<Longrightarrow>
      json_parse x (json_text x (JArray (keyset plan row))) = Some (JArray (keyset plan row))"
  shows "read_pages (Suc (length (fetch_filtered_rows x s q plan td)))
      (\<lambda>cursor. run_query x s (q\<lparr>q_paginate := Some (page_of cursor n)\<rparr>)) None
    = Some (map (JObject \<circ> merge_doc) (sort_filtered_rows td plan (order_of q) (fetch_filtered_rows x s q plan td)))"
proof -
  let ?rows = "fetch_filtered_rows x s q plan td"
  let ?xs = "sort_filtered_rows td plan (order_of q) ?rows"
  have tables: "require_table s (q_table q) = Inr td"
    using inv td by (rule require_table_inv)
  obtain plan' where plan': "prepare_scan q td = Inr plan'" and run:
    "\<And>p. run_query x s (q\<lparr>q_paginate := Some p\<rparr>) = execute_paginate_terminal x p td
       (sort_filtered_rows td plan' (order_of q) (fetch_filtered_rows x s q plan' td)) plan' (order_of q)"
    using run_query_page[OF first scan(1) tables] by blast
  have [simp]: "plan' = plan"
    using plan' scan(2) by simp
  have cap: "execute_paginate_terminal x (page_of c n) td ?xs plan (order_of q)
      = execute_paginate_terminal x (page_of c (min n MAX_TAKE)) td ([] @ ?xs) plan (order_of q)" for c
    by (simp add: execute_paginate_terminal_def paginate_result_def page_of_def)
  note rows = fetched_rows_ordered[OF inv td indexable ages]
  have "set ?xs = set ?rows" "length ?xs = length ?rows"
    by (simp_all add: sort_filtered_rows_def)
  moreover have "set ?rows \<subseteq> set (live_rows s (q_table q))"
    by (auto simp: fetch_filtered_rows_def)
  ultimately have "read_pages (Suc (length ?rows)) (\<lambda>c. run_query x s (q\<lparr>q_paginate := Some (page_of c n)\<rparr>))
      (cursor_after x plan []) = Some (map (JObject \<circ> merge_doc) ?xs)"
    using rows sorted_rows_strict[OF rows] indexable cursor_roundtrip[OF base64 json] n
    by (intro read_pages_suffix[where n = "min n MAX_TAKE" and td = td and dir = "order_of q"])
       (auto simp: run cap MAX_TAKE_def)
  then show ?thesis
    by (simp add: cursor_after_def)
qed


definition users_query :: query where
  "users_query = (table_query ''users'')\<lparr>q_index := Some ''by_email'', q_order := Some Desc\<rparr>"

definition users_plan :: scan_plan where
  "users_plan = \<lparr>sp_index = Some (plain_index ''by_email'' [''email''] True), sp_typed_eq = [],
     sp_range_field = None, sp_range_pg = Text, sp_gt = None, sp_gte = None, sp_lt = None, sp_lte = None\<rparr>"

text \<open>A codec for the keysets at hand: the id stands for the keyset.\<close>

definition users_ext :: ext where
  "users_ext = sample_ext\<lparr>
     json_text := (\<lambda>v. case v of JArray vs \<Rightarrow> (case last vs of JString i \<Rightarrow> i | _ \<Rightarrow> []) | _ \<Rightarrow> []),
     json_parse := map_of (map (\<lambda>row. (row_id row, JArray (keyset users_plan row))) (live_rows sample_client ''users''))\<rparr>"

lemma users_facts:
  "store_inv users_ext (sd_tables sample_schema) sample_client"
  "map_of (sd_tables sample_schema) (q_table users_query) = Some sample_users"
  "is_ok (run_query users_ext sample_client (users_query\<lparr>q_paginate := Some (page_of None 1)\<rparr>))"
  "scan_only users_query" "prepare_scan users_query sample_users = Inr users_plan"
  "\<forall>f\<in>set (unbound_fields users_plan). indexable sample_users f"
  "\<forall>row\<in>set (live_rows sample_client (q_table users_query)). \<bar>row_created_at row\<bar> \<le> 2 ^ 53"
  "\<forall>row\<in>set (live_rows sample_client (q_table users_query)).
     json_parse users_ext (json_text users_ext (JArray (keyset users_plan row))) = Some (JArray (keyset users_plan row))"
  "length (fetch_filtered_rows users_ext sample_client users_query users_plan sample_users) = 2"
  by code_simp+

theorem pages_complete_witness:
  "read_pages 3 (\<lambda>cursor. run_query users_ext sample_client (users_query\<lparr>q_paginate := Some (page_of cursor 1)\<rparr>)) None
   = Some (map (JObject \<circ> merge_doc)
       (sort_filtered_rows sample_users users_plan Desc
         (fetch_filtered_rows users_ext sample_client users_query users_plan sample_users)))"
proof -
  obtain r where "run_query users_ext sample_client (users_query\<lparr>q_paginate := Some (page_of None 1)\<rparr>) = Inr r"
    using users_facts(3) by (rule is_okE)
  moreover have "b64_decode users_ext (b64_encode users_ext bytes) = Some bytes" for bytes
    by (simp add: users_ext_def sample_ext_def)
  moreover have "order_of users_query = Desc"
    by code_simp
  ultimately show ?thesis
    using pages_complete[OF users_facts(1,2) _ users_facts(4,5) _ users_facts(6,7)] users_facts(8,9)
    by (simp add: numeral_eq_Suc)
qed

end
