(* ===== verification/Query_Props.thy ===== *)
theory Query_Props
  imports Pages
begin

text \<open>
  What the terminals of a query return: aggregation partitions the rows, distinct lists the
  values, a unique index makes unique lookups unambiguous, a projection drops fields and
  nothing else, and no result shows a row that is not live.
\<close>

section \<open>Groups\<close>

lemma keys_add_to_group: "fst ` set (add_to_group k a gs) = insert k (fst ` set gs)"
  by (induction k a gs rule: add_to_group.induct) auto

lemma distinct_add_to_group: "distinct (map fst gs) \<Longrightarrow> distinct (map fst (add_to_group k a gs))"
  by (induction k a gs rule: add_to_group.induct) (auto simp: keys_add_to_group)

lemma map_of_add_to_group:
  "map_of (add_to_group k a gs) k' =
     (if k' = k then Some ((case map_of gs k of None \<Rightarrow> [] | Some as \<Rightarrow> as) @ [a]) else map_of gs k')"
  by (induction gs) auto

lemma group_rows_snoc: "group_rows key (rows @ [r]) = add_to_group (key r) r (group_rows key rows)"
  by (simp add: group_rows_def)

lemma group_rows_distinct: "distinct (map fst (group_rows key rows))"
  by (induction rows rule: rev_induct) (simp_all add: group_rows_snoc distinct_add_to_group group_rows_def)

text \<open>The group of a key holds exactly the rows with that key, in their order.\<close>

lemma map_of_group_rows:
  "map_of (group_rows key rows) k =
     (if k \<in> key ` set rows then Some (filter (\<lambda>r. key r = k) rows) else None)"
proof (induction rows rule: rev_induct)
  case (snoc r rows)
  then show ?case
    by (auto simp: group_rows_snoc map_of_add_to_group filter_empty_conv intro!: filter_False[symmetric])
       (metis imageI)
qed (simp add: group_rows_def)

lemma group_rows_iff: "(k, g) \<in> set (group_rows key rows) \<longleftrightarrow> k \<in> key ` set rows \<and> g = filter (\<lambda>r. key r = k) rows"
  using map_of_group_rows[of key rows k] group_rows_distinct[of key rows]
  by (metis map_of_eq_Some_iff option.distinct(1) option.inject)

lemma sum_add_to_group:
  "sum_list (map (\<lambda>g. length (snd g)) (add_to_group k a gs)) = Suc (sum_list (map (\<lambda>g. length (snd g)) gs))"
  by (induction gs) auto

lemma sum_group_rows: "sum_list (map (\<lambda>g. length (snd g)) (group_rows key rows)) = length rows"
  by (induction rows rule: rev_induct) (simp_all add: group_rows_snoc sum_add_to_group group_rows_def)

text \<open>Equal text means equal value, for the values of a column.\<close>

definition text_exact :: "ext \<Rightarrow> json set \<Rightarrow> bool" where
  "text_exact x vs \<longleftrightarrow> inj_on (json_text x) vs"

definition column_of :: "string \<Rightarrow> stored_row list \<Rightarrow> json list" where
  "column_of f rows = map (\<lambda>row. field_or_null (row_doc row) f) rows"

lemma group_by_field_iff:
  assumes "text_exact x (set (column_of f rows))"
  shows "g \<in> set (group_by_field x f rows) \<longleftrightarrow>
     (\<exists>v\<in>set (column_of f rows). g = filter (\<lambda>row. field_or_null (row_doc row) f = v) rows)"
proof -
  have eq: "filter (\<lambda>row. json_text x (field_or_null (row_doc row) f) = json_text x v) rows
      = filter (\<lambda>row. field_or_null (row_doc row) f = v) rows" if "v \<in> set (column_of f rows)" for v
    using assms that by (intro filter_cong) (auto simp: text_exact_def column_of_def inj_on_def)
  have "g \<in> set (group_by_field x f rows) \<longleftrightarrow>
      (\<exists>v\<in>set (column_of f rows). g = filter (\<lambda>row. json_text x (field_or_null (row_doc row) f) = json_text x v) rows)"
    unfolding group_by_field_def set_map image_iff column_of_def
    by (auto simp: Bex_def group_rows_iff split_paired_Ex)
  then show ?thesis
    using eq by auto
qed


lemma group_value_filter:
  "v \<in> set (column_of f rows) \<Longrightarrow> group_value f (filter (\<lambda>row. field_or_null (row_doc row) f = v) rows) = v"
  using hd_in_set[of "filter (\<lambda>row. field_or_null (row_doc row) f = v) rows"]
  by (auto simp: group_value_def column_of_def filter_empty_conv)

lemma map_sort_by: "(\<And>a b. c' (f a) (f b) = c a b) \<Longrightarrow> map f (sort_by c xs) = sort_by c' (map f xs)"
proof -
  assume c: "\<And>a b. c' (f a) (f b) = c a b"
  have "map f (insert_by c a ys) = insert_by c' (f a) (map f ys)" for a ys
    by (induction ys) (simp_all add: c)
  then show ?thesis
    by (induction xs) (simp_all add: sort_by_def)
qed

lemma length_filter_column:
  "length (filter (\<lambda>row. field_or_null (row_doc row) f = v) rows) = count_list (column_of f rows) v"
  by (induction rows) (simp_all add: column_of_def)

text \<open>The values of a column in the order of the groups.\<close>

definition group_values :: "ext \<Rightarrow> string \<Rightarrow> stored_row list \<Rightarrow> json list" where
  "group_values x f rows = map (group_value f) (group_by_field x f rows)"

lemma group_values_exact:
  assumes "text_exact x (set (column_of f rows))"
  shows "set (group_values x f rows) = set (column_of f rows)"
    and "distinct (group_values x f rows)"
    and "map length (group_by_field x f rows) = map (count_list (column_of f rows)) (group_values x f rows)"
proof -
  note iff = group_by_field_iff[OF assms]
  show "set (group_values x f rows) = set (column_of f rows)"
    using group_value_filter[of _ f rows] by (force simp: group_values_def iff image_iff)
  have "json_text x (group_value f g) = k" if "(k, g) \<in> set (group_rows (\<lambda>row. json_text x (field_or_null (row_doc row) f)) rows)" for k g
    using that hd_in_set[of g] by (auto simp: group_rows_iff group_value_def filter_empty_conv)
  then have "map (json_text x) (group_values x f rows) = map fst (group_rows (\<lambda>row. json_text x (field_or_null (row_doc row) f)) rows)"
    by (auto simp: group_values_def group_by_field_def)
  then show "distinct (group_values x f rows)"
    using group_rows_distinct distinct_map by metis
  show "map length (group_by_field x f rows) = map (count_list (column_of f rows)) (group_values x f rows)"
    using group_value_filter[of _ f rows] length_filter_column[of f _ rows]
    by (auto simp: group_values_def iff)
qed

section \<open>Samples\<close>

definition texts_ext :: ext where
  "texts_ext = sample_ext\<lparr>json_text := (\<lambda>v. case v of JString t \<Rightarrow> t | _ \<Rightarrow> ''null'')\<rparr>"

definition user_rows :: "stored_row list" where
  "user_rows = live_rows sample_client ''users''"

definition email_index :: index_def where
  "email_index = plain_index ''by_email'' [''email''] True"

definition count_emails :: aggregate_spec where
  "count_emails = \<lparr>ag_op = Some CountOp, ag_aggregates = None, ag_group_by = GroupBool True, ag_having = None\<rparr>"

lemma email_facts:
  "column_of ''email'' user_rows = [JString ''a@x'', JNull]"
  "ix_fields email_index = [''email'']" "column_pg sample_users ''email'' = Text"
  "text_exact texts_ext {JString ''a@x'', JNull}"
  by (code_simp, code_simp, code_simp, simp add: text_exact_def texts_ext_def inj_on_def)

text \<open>
  C15: a grouped count partitions the matching rows: there is one group for each value of the
  group field among them, rows without the field forming the null group, the count of a group
  is the number of rows with its value, and the counts add up to the number of rows.
\<close>

theorem grouped_count_exact:
  assumes "text_exact x (set (column_of f rows))"
    and "ag_op agg = Some CountOp" "ag_aggregates agg = None" "ag_group_by agg = GroupBool True" "ag_having agg = None"
    and "length typed_eq < length (ix_fields ix)" "f = ix_fields ix ! length typed_eq"
    and "card (set (column_of f rows)) \<le> MAX_TAKE"
  shows "\<exists>vs. execute_aggregate_terminal x agg td (Some ix) typed_eq rows
        = Inr (JArray (map (\<lambda>v. key_value v (json_of_int (int (count_list (column_of f rows) v)))) vs))
     \<and> distinct vs \<and> set vs = set (column_of f rows)
     \<and> (\<Sum>v\<leftarrow>vs. count_list (column_of f rows) v) = length rows"
proof -
  let ?n = "count_list (column_of f rows)"
  let ?vs = "sort_by (\<lambda>a b. compare_index_values a b (column_pg td f)) (group_values x f rows)"
  note exact = group_values_exact[OF assms(1)]
  have mset: "mset ?vs = mset (group_values x f rows)"
    by simp
  have groups: "map (\<lambda>g. (group_value f g, json_of_int (int (length g)))) (group_by_field x f rows)
      = map (\<lambda>v. (v, json_of_int (int (?n v)))) (group_values x f rows)"
    using exact(3) by (simp add: group_values_def list_eq_iff_nth_eq)
  have sort: "sort_by (\<lambda>a b. compare_index_values (fst a) (fst b) (column_pg td f))
      (map (\<lambda>v. (v, json_of_int (int (?n v)))) (group_values x f rows)) = map (\<lambda>v. (v, json_of_int (int (?n v)))) ?vs"
    by (rule map_sort_by[symmetric]) simp
  have rows: "sort_key_values (column_pg td f) (map (\<lambda>g. (group_value f g, json_of_int (int (length g)))) (group_by_field x f rows))
      = map (\<lambda>v. key_value v (json_of_int (int (?n v)))) ?vs"
    unfolding sort_key_values_def groups sort by simp
  have vs: "distinct ?vs" "set ?vs = set (column_of f rows)"
    using exact(1,2) mset_eq_imp_distinct_iff[OF mset] by simp_all
  moreover have "length ?vs \<le> MAX_TAKE"
    using assms(8) vs distinct_card by fastforce
  moreover have "(\<Sum>v\<leftarrow>?vs. ?n v) = length rows"
  proof -
    have "(\<Sum>v\<leftarrow>?vs. ?n v) = sum_mset (image_mset ?n (mset ?vs))"
      by (simp only: mset_map[symmetric] sum_mset_sum_list)
    also have "\<dots> = sum_list (map length (group_by_field x f rows))"
      unfolding mset exact(3) by (simp only: mset_map[symmetric] sum_mset_sum_list)
    also have "\<dots> = length rows"
      unfolding group_by_field_def map_map comp_def by (rule sum_group_rows)
    finally show ?thesis .
  qed
  ultimately show ?thesis
    using assms rows
    by (intro exI[of _ ?vs]) (simp add: execute_aggregate_terminal_def aggregate_legacy_def legacy_count_def finish_groups_def Let_def)
qed

theorem grouped_count_exact_witness:
  "\<exists>vs. execute_aggregate_terminal texts_ext count_emails sample_users (Some email_index) [] user_rows
        = Inr (JArray (map (\<lambda>v. key_value v (json_of_int (int (count_list (column_of ''email'' user_rows) v)))) vs))
     \<and> distinct vs \<and> set vs = set [JString ''a@x'', JNull]"
proof -
  have "text_exact texts_ext (set (column_of ''email'' user_rows))" "card (set (column_of ''email'' user_rows)) \<le> MAX_TAKE"
    "length ([] :: json list) < length (ix_fields email_index)" "''email'' = ix_fields email_index ! length ([] :: json list)"
    by (simp_all add: email_facts MAX_TAKE_def)
  moreover have "ag_op count_emails = Some CountOp" "ag_aggregates count_emails = None"
    "ag_group_by count_emails = GroupBool True" "ag_having count_emails = None"
    by (simp_all add: count_emails_def)
  ultimately show ?thesis
    using grouped_count_exact[of texts_ext "''email''" user_rows count_emails "[]" email_index sample_users]
    unfolding email_facts(1)[symmetric] by blast
qed


section \<open>Distinct values\<close>

lemma set_dedup_by: "inj_on key (set vs) \<Longrightarrow> set (dedup_by key (map key seen) vs) = set vs - {v. key v \<in> key ` set seen}"
proof (induction vs arbitrary: seen)
  case (Cons v vs)
  have "set (dedup_by key (map key (v # seen)) vs) = set vs - {w. key w \<in> key ` set (v # seen)}"
    using Cons.prems by (intro Cons.IH) (auto simp: inj_on_def)
  moreover have "set (dedup_by key (map key seen) vs) = set vs - {w. key w \<in> key ` set seen}"
    using Cons.prems by (intro Cons.IH) (auto simp: inj_on_def)
  moreover have "key w = key v \<longleftrightarrow> w = v" if "w \<in> set vs" for w
    using Cons.prems that by (auto simp: inj_on_def)
  ultimately show ?case
    by auto
qed simp

lemma distinct_dedup_by: "distinct (map key (dedup_by key seen vs)) \<and> key ` set (dedup_by key seen vs) \<inter> set seen = {}"
  by (induction key seen vs rule: dedup_by.induct) auto

text \<open>
  C16: the distinct terminal lists the values of the index field after the equality prefix:
  each value of the matching rows once, null once for the rows without the field, in the
  order of the index column.
\<close>

theorem distinct_exact:
  assumes "text_exact x (set (column_of f rows))" "set (column_of f rows) \<subseteq> column_carrier (column_pg td f)"
    and "length typed_eq < length (ix_fields ix)" "f = ix_fields ix ! length typed_eq"
    and "card (set (column_of f rows)) \<le> MAX_TAKE"
  shows "\<exists>vs. execute_distinct_terminal x td (Some ix) typed_eq rows = Inr (JArray vs)
     \<and> distinct vs \<and> set vs = set (column_of f rows)
     \<and> sorted_wrt (\<lambda>a b. compare_index_values a b (column_pg td f) \<noteq> Greater) vs"
proof -
  let ?us = "dedup_by (json_text x) [] (column_of f rows)"
  let ?vs = "sort_by (\<lambda>a b. compare_index_values a b (column_pg td f)) ?us"
  have us: "set ?us = set (column_of f rows)" "distinct ?us"
    using set_dedup_by[of "json_text x" "column_of f rows" "[]"] assms(1)
      distinct_dedup_by[of "json_text x" "[]" "column_of f rows"]
    by (auto simp: text_exact_def distinct_map)
  then have "length ?us \<le> MAX_TAKE"
    using assms(5) distinct_card by fastforce
  moreover have "sorted_wrt (\<lambda>a b. compare_index_values a b (column_pg td f) \<noteq> Greater) ?vs"
    using assms(2) us by (intro column.sorted_sort_by) simp
  moreover have "distinct ?vs"
    using us(2) mset_eq_imp_distinct_iff[OF mset_sort_by] by blast
  ultimately show ?thesis
    using assms(3,4) us(1)
    by (intro exI[of _ ?vs]) (simp add: execute_distinct_terminal_def column_of_def Let_def not_le)
qed

theorem distinct_exact_witness:
  "\<exists>vs. execute_distinct_terminal texts_ext sample_users (Some email_index) [] user_rows = Inr (JArray vs)
     \<and> distinct vs \<and> set vs = set [JString ''a@x'', JNull]"
proof -
  have "text_exact texts_ext (set (column_of ''email'' user_rows))" "card (set (column_of ''email'' user_rows)) \<le> MAX_TAKE"
    "length ([] :: json list) < length (ix_fields email_index)" "''email'' = ix_fields email_index ! length ([] :: json list)"
    "set (column_of ''email'' user_rows) \<subseteq> column_carrier (column_pg sample_users ''email'')"
    by (simp_all add: email_facts MAX_TAKE_def column_carrier_def column_value_def)
  then show ?thesis
    using distinct_exact[of texts_ext "''email''" user_rows sample_users "[]" email_index]
    unfolding email_facts(1)[symmetric] by blast
qed

section \<open>Unique indexes\<close>

lemma eq_matches_key:
  "length fs = length vs \<Longrightarrow> eq_matches fs vs d \<longleftrightarrow> collect_index_key fs (JObject d) = Some vs"
proof (induction fs arbitrary: vs)
  case (Cons f fs)
  then obtain v ws where "vs = v # ws" "length fs = length ws"
    by (cases vs) auto
  then show ?case
    using Cons.IH[of ws] by (auto simp: eq_matches_def split: option.splits)
qed (simp add: eq_matches_def)

lemma stored_id: "store_inv x ts s \<Longrightarrow> (k, row) \<in> set (c_docs s) \<Longrightarrow> row_id row = snd k"
  by (fastforce simp: store_inv_def row_ok_def)

lemma unique_index_rows:
  assumes "store_inv x ts s" "map_of ts (q_table q) = Some td"
    and "sp_index plan = Some ix" "ix \<in> set (td_indexes td)" "ix_unique ix" "ix_where ix = None"
    and "length (sp_typed_eq plan) = length (ix_fields ix)"
  shows "length (fetch_filtered_rows x s q plan td) \<le> 1"
proof (rule ccontr)
  let ?rows = "fetch_filtered_rows x s q plan td"
  assume "\<not> length ?rows \<le> 1"
  then have two: "0 < length ?rows" "1 < length ?rows"
    by linarith+
  define a b where "a = ?rows ! 0" and "b = ?rows ! 1"
  have "distinct (map row_id ?rows)"
    using live_rows_distinct[OF assms(1)] by (simp add: fetch_filtered_rows_def distinct_map_filter)
  then have ne: "row_id a \<noteq> row_id b"
    using two nth_eq_iff_index_eq[of "map row_id ?rows" 0 1] by (simp add: a_def b_def)
  have key: "unique_key x td ix (row_doc r) = Some (sp_typed_eq plan)" "\<exists>i. ((q_table q, i), r) \<in> set (c_docs s)" "is_live r"
    if "r \<in> set ?rows" for r
    using that assms(3,6,7) eq_matches_key[of "ix_fields ix" "sp_typed_eq plan"]
    by (auto simp: fetch_filtered_rows_def row_selected_def live_rows_def unique_key_def)
  have ab: "a \<in> set ?rows" "b \<in> set ?rows"
    using two nth_mem by (auto simp: a_def b_def)
  obtain i j where ij: "((q_table q, i), a) \<in> set (c_docs s)" "((q_table q, j), b) \<in> set (c_docs s)"
    using key(2)[OF ab(1)] key(2)[OF ab(2)] by blast
  then have "row_id a = i" "row_id b = j"
    using stored_id[OF assms(1)] by auto
  then have "\<not> rows_clash x td a b"
    using assms(1,2) ij ne by (fastforce simp: store_inv_def unique_ok_def)
  then show False
    using key(1,3)[OF ab(1)] key(1,3)[OF ab(2)] assms(4,5) by (auto simp: rows_clash_def)
qed



definition user_by_email :: query where
  "user_by_email = (table_query ''users'')\<lparr>q_index := Some ''by_email'', q_eq := [JString ''a@x''], q_unique := True\<rparr>"

definition email_plan :: scan_plan where
  "email_plan = \<lparr>sp_index = Some email_index, sp_typed_eq = [JString ''a@x''],
     sp_range_field = None, sp_range_pg = Text, sp_gt = None, sp_gte = None, sp_lt = None, sp_lte = None\<rparr>"



section \<open>Projection\<close>

lemma terminal_fields:
  "check_query_combinations (q\<lparr>q_fields := fs\<rparr>) = check_query_combinations q"
  "execute_vector_search_terminal x s (q\<lparr>q_fields := fs\<rparr>) v td = execute_vector_search_terminal x s q v td"
  "execute_hybrid_search_terminal x s (q\<lparr>q_fields := fs\<rparr>) h = execute_hybrid_search_terminal x s q h"
  "execute_search_terminal x s (q\<lparr>q_fields := fs\<rparr>) e td = execute_search_terminal x s q e td"
  "prepare_scan (q\<lparr>q_fields := fs\<rparr>) td = prepare_scan q td"
  "fetch_filtered_rows x s (q\<lparr>q_fields := fs\<rparr>) plan td = fetch_filtered_rows x s q plan td"
  "execute_collect_terminal (q\<lparr>q_fields := fs\<rparr>) rows = execute_collect_terminal q rows"
proof -
  show "check_query_combinations (q\<lparr>q_fields := fs\<rparr>) = check_query_combinations q"
    unfolding check_query_combinations_def by (simp only: query_clauses_def query.simps query.ext_inject, simp)
  show "execute_search_terminal x s (q\<lparr>q_fields := fs\<rparr>) e td = execute_search_terminal x s q e td"
    unfolding execute_search_terminal_def by (simp cong: option.case_cong if_cong)
qed (simp_all add: execute_vector_search_terminal_def execute_hybrid_search_terminal_def
      prepare_scan_def has_range_def fetch_filtered_rows_def row_selected_def execute_collect_terminal_def
      cong: option.case_cong if_cong)

lemma execute_query_fields: "execute_query x s (q\<lparr>q_fields := fs\<rparr>) td = execute_query x s q td"
  unfolding execute_query_def terminal_fields by (simp cong: option.case_cong if_cong)

lemma lookups_fields:
  "validate_lookups (q\<lparr>q_fields := fs\<rparr>) td tables = validate_lookups q td tables"
  "expand_lookups s (q\<lparr>q_fields := fs\<rparr>) td r = expand_lookups s q td r"
  "map_result_docs (q\<lparr>q_fields := fs\<rparr>) f r = map_result_docs q f r"
  by (simp_all add: validate_lookups_def expand_lookups_def lookup_docs_def set_lookup_docs_def doc_less_def
      map_result_docs_def cong: option.case_cong if_cong)

lemma map_of_project_doc: "map_of (project_doc names d) k = (if starts_with ''_'' k \<or> k \<in> set names then map_of d k else None)"
  by (induction d) (auto simp: project_doc_def)


text \<open>The posts with the author each of them names.\<close>

definition posts_query :: query where
  "posts_query = (table_query ''posts'')
     \<lparr>q_lookups := [\<lparr>lk_field = ''author'', lk_table = ''users'', lk_as = ''by'', lk_cap = None\<rparr>]\<rparr>"


section \<open>Only live rows are shown\<close>

text \<open>A document that shows a live row: its id, and current values in the declared fields it has.\<close>

definition shows_row :: "client \<Rightarrow> string \<Rightarrow> table_def \<Rightarrow> doc \<Rightarrow> bool" where
  "shows_row s t td d \<longleftrightarrow>
     (\<exists>row. live_row s t (row_id row) = Some row \<and> map_of d ''_id'' = Some (JString (row_id row))
        \<and> (\<forall>k. \<not> starts_with ''_'' k \<and> map_of (td_fields td) k \<noteq> None \<and> map_of d k \<noteq> None
              \<longrightarrow> map_of d k = map_of (row_doc row) k))"

lemma underscore_names: "starts_with ''_'' ''_id''" "starts_with ''_'' ''_creationTime''" "starts_with ''_'' ''_version''"
  "starts_with ''_'' ''_searchSnippet''"
  by (simp_all add: starts_with_def)

lemma shows_merge_doc:
  assumes "store_inv x ts s" "row \<in> set (live_rows s t)"
  shows "shows_row s t td (merge_doc row)"
proof -
  obtain i where mem: "((t, i), row) \<in> set (c_docs s)" and live: "is_live row"
    using assms(2) by (auto simp: live_rows_def)
  have "map_of (c_docs s) (t, row_id row) = Some row"
    using mem stored_id[OF assms(1) mem] assms(1) by (simp add: store_inv_def hm_ok_def)
  then have "live_row s t (row_id row) = Some row"
    using live by (simp add: live_row_def)
  then show ?thesis
    unfolding shows_row_def using underscore_names by (intro exI[of _ row]) (auto simp: merge_doc_def)
qed

lemma shows_insert:
  "shows_row s t td d \<Longrightarrow> k \<noteq> ''_id'' \<Longrightarrow> starts_with ''_'' k \<or> map_of (td_fields td) k = None \<Longrightarrow>
   shows_row s t td (bt_insert k v d)"
  unfolding shows_row_def by (auto split: if_splits)

lemma shows_project: "shows_row s t td d \<Longrightarrow> shows_row s t td (project_doc names d)"
  unfolding shows_row_def using underscore_names(1) by (auto simp: map_of_project_doc split: if_splits)

lemma object_docs_map [simp]: "object_docs (map JObject ds) = ds" "object_docs (map (\<lambda>a. JObject (f a)) as) = map f as"
proof -
  show "object_docs (map (\<lambda>a. JObject (f a)) as) = map f as"
    by (induction as) simp_all
qed (induction ds, simp_all)

lemma lookup_docs_page: "q_paginate q \<noteq> None \<Longrightarrow> set (lookup_docs q (page_envelope ds next)) \<subseteq> set ds"
  by (auto simp: lookup_docs_def page_envelope_def split: option.splits if_splits)

lemma lookup_docs_array: "q_paginate q = None \<Longrightarrow> set (lookup_docs q (docs_array ds)) \<subseteq> set ds"
  by (auto simp: lookup_docs_def docs_array_def split: if_splits)

lemma paginate_ranked_docs:
  assumes "paginate_ranked x pag rows h = Inr r"
  shows "\<exists>ds next. r = page_envelope ds next \<and> set ds \<subseteq> rr_doc ` set rows"
  using assms unfolding paginate_ranked_def Let_def bindE_eq_Inr sum.inject
  by (elim exE conjE, intro exI conjI) (rule sym, assumption, auto split: option.splits dest!: in_set_takeD)

lemma paginate_result_docs:
  assumes "paginate_result x pag td rows cols types dir = Inr r"
  shows "\<exists>ds next. r = page_envelope ds next \<and> set ds \<subseteq> merge_doc ` set rows"
  using assms unfolding paginate_result_def Let_def bindE_eq_Inr sum.inject
  by (elim exE conjE, intro exI conjI) (rule sym, assumption, auto split: option.splits dest!: in_set_takeD)

lemma keep_matching_subset: "set (keep_matching x f td ds) \<subseteq> set ds"
  by (auto simp: keep_matching_def split: option.splits)

text \<open>A terminal whose documents all satisfy a predicate, page or array.\<close>

definition serves :: "query \<Rightarrow> (doc \<Rightarrow> bool) \<Rightarrow> json \<Rightarrow> bool" where
  "serves q P r \<longleftrightarrow> (\<forall>d\<in>set (lookup_docs q r). P d)"

lemma serves_page: "q_paginate q \<noteq> None \<Longrightarrow> (\<And>d. d \<in> set ds \<Longrightarrow> P d) \<Longrightarrow> serves q P (page_envelope ds next)"
  unfolding serves_def using lookup_docs_page by blast

lemma serves_array: "q_paginate q = None \<Longrightarrow> (\<And>d. d \<in> set ds \<Longrightarrow> P d) \<Longrightarrow> serves q P (docs_array ds)"
  unfolding serves_def using lookup_docs_array by blast

lemma serves_ranked:
  assumes "paginate_ranked x pag rows h = Inr r" "q_paginate q \<noteq> None" "\<And>row. row \<in> set rows \<Longrightarrow> P (rr_doc row)"
  shows "serves q P r"
  using paginate_ranked_docs[OF assms(1)] assms(2,3) serves_page[of q _ P] by (metis image_iff subsetD)

lemma shows_collected:
  "store_inv x ts s \<Longrightarrow> d \<in> set (collect_all s t) \<Longrightarrow> shows_row s t td d"
  using shows_merge_doc by (auto simp: collect_all_def)

lemma shows_snippets:
  "(\<And>d. d \<in> set ds \<Longrightarrow> shows_row s t td d) \<Longrightarrow> d \<in> set (attach_search_snippets x fs parsed ds) \<Longrightarrow> shows_row s t td d"
  using shows_insert[of s t td] underscore_names(4) by (auto simp: attach_search_snippets_def)

lemma serves_vector:
  assumes "store_inv x ts s" "execute_vector_search_terminal x s q v td = Inr r"
  shows "serves q (shows_row s (q_table q) td) r"
proof -
  let ?rows = "keep_matching x (vq_filter v) td (collect_all s (q_table q))"
  have rows: "shows_row s (q_table q) td d" if "d \<in> set ?rows" for d
    using that keep_matching_subset shows_collected[OF assms(1)] by blast
  show ?thesis
  proof (cases "q_paginate q")
    case None
    then have "r = docs_array (take (vq_limit v) ?rows)"
      using assms(2) by (auto simp: execute_vector_search_terminal_def Let_def)
    then show ?thesis
      using None rows by (auto intro!: serves_array dest: in_set_takeD)
  next
    case (Some pag)
    then have "paginate_ranked x pag (take (vq_limit v) (sort_ranked_rows (map (new_ranked None) ?rows))) False = Inr r"
      using assms(2) by (auto simp: execute_vector_search_terminal_def Let_def)
    then show ?thesis
      using Some rows
      by (auto intro!: serves_ranked simp: sort_ranked_rows_def new_ranked_def dest!: in_set_takeD)
  qed
qed

lemma serves_hybrid:
  assumes "store_inv x ts s" "execute_hybrid_search_terminal x s q h = Inr r"
  shows "serves q (shows_row s (q_table q) td) r"
  using assms(2) shows_collected[OF assms(1)]
  by (auto simp: execute_hybrid_search_terminal_def split: option.splits
      intro!: serves_array serves_ranked dest: in_set_takeD)


lemma mapE_set: "mapE f xs = Inr ys \<Longrightarrow> y \<in> set ys \<Longrightarrow> \<exists>a\<in>set xs. f a = Inr y"
  by (induction xs arbitrary: ys) auto

lemma trgm_hits_subset: "(score, d) \<in> set (trgm_hits x search fs ds) \<Longrightarrow> d \<in> set ds"
  by (auto simp: trgm_hits_def set_map_filter split: option.splits if_splits)

lemma serves_search:
  assumes "store_inv x ts s" "execute_search_terminal x s q e td = Inr r"
  shows "serves q (shows_row s (q_table q) td) r"
proof -
  obtain ix where ix: "check_search e td = Inr ix"
    using assms(2) by (auto simp: execute_search_terminal_def)
  have kept: "shows_row s (q_table q) td d" if "d \<in> set (keep_matching x f td (filter Q (collect_all s (q_table q))))" for d f Q
    using that keep_matching_subset shows_collected[OF assms(1)] by fastforce
  show ?thesis
  proof (cases "sq_mode e = Some Trgm")
    case True
    define hits where "hits = sort_by compare_hits (trgm_hits x e (ix_fields ix) (keep_matching x (sq_filter e) td (collect_all s (q_table q))))"
    have hit: "shows_row s (q_table q) td d" if "(score, d) \<in> set hits" for score d
      using that kept[where Q = "\<lambda>_. True"] trgm_hits_subset by (fastforce simp: hits_def)
    show ?thesis
    proof (cases "q_paginate q")
      case None
      then have "r = docs_array (map snd (take (case q_take q of Some t \<Rightarrow> t | None \<Rightarrow> MAX_TAKE) hits))"
        using assms(2) True ix by (simp add: execute_search_terminal_def hits_def Let_def)
      then show ?thesis
        using None hit by (auto intro!: serves_array dest!: in_set_takeD)
    next
      case (Some pag)
      then obtain ranked where ranked: "mapE (\<lambda>(score, d). bindE (rank_value score) (\<lambda>v. Inr (new_ranked (Some v) d))) hits = Inr ranked"
        "paginate_ranked x pag ranked True = Inr r"
        using assms(2) True ix by (auto simp: execute_search_terminal_def hits_def Let_def)
      have "shows_row s (q_table q) td (rr_doc row)" if "row \<in> set ranked" for row
        using mapE_set[OF ranked(1) that] hit by (auto simp: new_ranked_def)
      then show ?thesis
        using Some ranked(2) by (auto intro!: serves_ranked)
    qed
  next
    case False
    define hits where "hits = keep_matching x (sq_filter e) td
      (filter (\<lambda>d. websearch_matches (parse_websearch_query x (sq_query e)) (search_field_texts x d (ix_fields ix))) (collect_all s (q_table q)))"
    define shown where "shown = (if sq_snippet e = Some True
      then attach_search_snippets x (ix_fields ix) (parse_websearch_query x (sq_query e)) hits else hits)"
    have shown: "shows_row s (q_table q) td d" if "d \<in> set shown" for d
      using that kept shows_snippets[of hits s "q_table q" td d] by (auto simp: hits_def shown_def split: if_splits)
    show ?thesis
      using assms(2) False ix shown[unfolded shown_def hits_def] unfolding execute_search_terminal_def
      by (auto simp: Let_def sort_ranked_rows_def new_ranked_def split: option.splits
          intro!: serves_array serves_ranked simp del: set_simps)
  qed
qed

lemma serves_scan:
  assumes "store_inv x ts s" "set rows \<subseteq> set (live_rows s (q_table q))"
  shows "q_paginate q = Some pag \<Longrightarrow> execute_paginate_terminal x pag td rows plan dir = Inr r \<Longrightarrow>
      serves q (shows_row s (q_table q) td) r"
    and "q_paginate q = None \<Longrightarrow> execute_collect_terminal q rows = Inr r \<Longrightarrow> serves q (shows_row s (q_table q) td) r"
proof -
  have row: "shows_row s (q_table q) td (merge_doc row)" if "row \<in> set rows" for row
    using that assms(2) shows_merge_doc[OF assms(1)] by blast
  show "serves q (shows_row s (q_table q) td) r"
    if "q_paginate q = Some pag" "execute_paginate_terminal x pag td rows plan dir = Inr r"
    using paginate_result_docs[OF that(2)[unfolded execute_paginate_terminal_def]] that(1) row
    by (auto intro!: serves_page)
  show "serves q (shows_row s (q_table q) td) r" if "q_paginate q = None" "execute_collect_terminal q rows = Inr r"
    using that row
    by (auto simp: execute_collect_terminal_def first_or_null_def serves_def lookup_docs_def Let_def comp_def
        split: if_splits list.splits json.splits dest!: in_set_takeD)
qed


lemma shows_get:
  assumes "store_inv x ts s" "get_doc s t i = Some d"
  shows "shows_row s t td d"
proof -
  obtain row where row: "live_row s t i = Some row" "d = merge_doc row"
    using assms(2) by (auto simp: get_doc_def)
  then have "row \<in> set (live_rows s t)"
    by (fastforce simp: live_row_def live_rows_def image_iff split: option.splits if_splits dest: map_of_SomeD)
  then show ?thesis
    using shows_merge_doc[OF assms(1)] row(2) by simp
qed

lemma serves_execute:
  assumes inv: "store_inv x ts s" and run: "execute_query x s q td = Inr r"
  shows "serves q (shows_row s (q_table q) td) r"
proof (cases "doc_less q")
  case False
  then have plain: "\<not> q_count q" "\<not> q_distinct q" "q_aggregate q = None"
    by (auto simp: doc_less_def)
  have rows: "set (sort_filtered_rows td plan dir (fetch_filtered_rows x s q plan td)) \<subseteq> set (live_rows s (q_table q))" for plan dir
    by (auto simp: fetch_filtered_rows_def sort_filtered_rows_def)
  have ok: "check_query_combinations q = Inr ()"
    using run by (auto simp: execute_query_def)
  show ?thesis
  proof (cases "q_get q")
    case (Some i)
    then have "q_paginate q = None"
      using at_most_one_true[OF accepted_terminals[OF ok], of 4 5] by (simp add: terminals_def)
    then show ?thesis
      using run Some shows_get[OF inv, of "q_table q" i]
      by (auto simp: execute_query_def serves_def lookup_docs_def split: option.splits if_splits)
  next
    case None
    consider (vector) e where "q_vector_search q = Some e" "execute_vector_search_terminal x s q e td = Inr r"
      | (hybrid) e where "q_hybrid_search q = Some e" "execute_hybrid_search_terminal x s q e = Inr r"
      | (search) e where "q_search q = Some e" "execute_search_terminal x s q e td = Inr r"
      | (page) pag plan dir where "q_paginate q = Some pag"
          "execute_paginate_terminal x pag td (sort_filtered_rows td plan dir (fetch_filtered_rows x s q plan td)) plan dir = Inr r"
      | (collect) plan dir where "q_paginate q = None"
          "execute_collect_terminal q (sort_filtered_rows td plan dir (fetch_filtered_rows x s q plan td)) = Inr r"
      using run plain None unfolding execute_query_def Let_def
      by (cases "q_vector_search q"; cases "q_hybrid_search q"; cases "q_search q"; cases "q_paginate q") auto
    then show ?thesis
      using serves_vector[OF inv] serves_hybrid[OF inv] serves_search[OF inv] serves_scan[OF inv rows] by cases blast+
  qed
qed (simp add: serves_def lookup_docs_def)

lemma refill_docs: "set (object_docs (refill vs ds)) \<subseteq> set (object_docs vs) \<union> set ds"
  by (induction vs ds rule: refill.induct) auto

lemma set_lookup_docs_subset:
  "set (lookup_docs q (set_lookup_docs q r ds)) \<subseteq> set (lookup_docs q r) \<union> set ds"
  using refill_docs
  by (auto simp: set_lookup_docs_def lookup_docs_def split: if_splits json.splits option.splits list.splits)

lemma object_docs_map_object: "object_docs (map (map_object f) vs) = map f (object_docs vs)"
  by (induction vs rule: object_docs.induct) simp_all

lemma map_result_docs_subset: "set (lookup_docs q (map_result_docs q f r)) \<subseteq> f ` set (lookup_docs q r)"
  by (auto simp: map_result_docs_def lookup_docs_def object_docs_map_object split: if_splits json.splits option.splits)


lemma validate_lookups_aliases:
  "foldE (\<lambda>lk aliases. bindE (validate_lookup td ts aliases lk) (\<lambda>_. Inr (aliases @ [lk_as lk]))) lks aliases = Inr out \<Longrightarrow>
   \<forall>lk\<in>set lks. \<not> starts_with ''_'' (lk_as lk) \<and> map_of (td_fields td) (lk_as lk) = None"
proof (induction lks arbitrary: aliases)
  case (Cons lk lks)
  have ok: "validate_lookup td ts aliases lk = Inr ()"
    and rest: "\<forall>lk\<in>set lks. \<not> starts_with ''_'' (lk_as lk) \<and> map_of (td_fields td) (lk_as lk) = None"
    using Cons.prems Cons.IH[of "aliases @ [lk_as lk]"] by (auto simp del: not_None_eq)
  have "\<not> starts_with ''_'' (lk_as lk)" "map_of (td_fields td) (lk_as lk) = None"
    using ok unfolding validate_lookup_def by auto
  with rest show ?case by simp
qed simp

lemma shows_expand_docs:
  assumes "\<not> starts_with ''_'' (lk_as lk)" "map_of (td_fields td) (lk_as lk) = None"
  shows "expand_docs fetched af lk ds budget = (ds', left) \<Longrightarrow> \<forall>d\<in>set ds. shows_row s t td d \<Longrightarrow> \<forall>d\<in>set ds'. shows_row s t td d"
proof (induction ds arbitrary: budget ds')
  case (Cons d ds)
  have "lk_as lk \<noteq> ''_id''"
    using assms(1) underscore_names(1) by auto
  then have "shows_row s t td (fst (expand_doc fetched af lk d budget))"
    using Cons.prems(2) assms(2) shows_insert[of s t td d "lk_as lk"]
    by (auto simp: expand_doc_def Let_def split: option.splits json.splits prod.splits if_splits)
  then show ?case
    using Cons by (auto split: prod.splits)
qed simp

lemma shows_expand:
  assumes "\<forall>lk\<in>set lks. \<not> starts_with ''_'' (lk_as lk) \<and> map_of (td_fields td) (lk_as lk) = None"
  shows "foldE (expand_lookup s td) lks st = Inr st' \<Longrightarrow> \<forall>d\<in>set (fst st). shows_row s t td d \<Longrightarrow>
    \<forall>d\<in>set (fst st'). shows_row s t td d"
  using assms
proof (induction lks arbitrary: st)
  case (Cons lk lks)
  obtain st1 where st1: "expand_lookup s td lk st = Inr st1" "foldE (expand_lookup s td) lks st1 = Inr st'"
    using Cons.prems(1) by auto
  have "\<forall>d\<in>set (fst st1). shows_row s t td d"
    using st1(1) Cons.prems(2,3) shows_expand_docs[of lk td _ _ "fst st" "snd st" "fst st1" "snd st1"]
    by (auto simp: expand_lookup_def)
  then show ?case
    using Cons.IH[OF st1(2)] Cons.prems(3) by simp
qed simp



end
