(* ===== verification/Schema_Check.thy ===== *)
theory Schema_Check
  imports Search Samples
begin

text \<open>
  The schema rules a push runs (\<^verbatim>\<open>validate\<close>, \<^verbatim>\<open>validate_computed\<close> and their helpers) of
  \<^verbatim>\<open>rust-client/src/in_memory/migrate.rs\<close>.  The rules are checked in the order of the code,
  so that the first violation decides the error.
\<close>

section \<open>Filters inside a schema\<close>

text \<open>\<^verbatim>\<open>iter().find_map(f)\<close>.\<close>

fun find_map :: "('a \<Rightarrow> 'b option) \<Rightarrow> 'a list \<Rightarrow> 'b option" where
  "find_map f [] = None"
| "find_map f (y # ys) = (case f y of Some b \<Rightarrow> Some b | None \<Rightarrow> find_map f ys)"

lemma find_map_cong [fundef_cong]:
  "xs = ys \<Longrightarrow> (\<And>x. x \<in> set ys \<Longrightarrow> f x = g x) \<Longrightarrow> find_map f xs = find_map g ys"
  by (induction ys arbitrary: xs) (auto split: option.splits)

fun is_true :: "json option \<Rightarrow> bool" where
  "is_true (Some (JBool b)) = b"
| "is_true _ = False"

fun is_principal_marker :: "json \<Rightarrow> bool" where
  "is_principal_marker (JObject m) =
     (length m = 1 \<and> (is_true (map_of m ''$user'') \<or> is_true (map_of m ''$email'')))"
| "is_principal_marker _ = False"

definition marked_field :: "string \<Rightarrow> json \<Rightarrow> string option" where
  "marked_field field v = (if is_principal_marker v then Some field else None)"

fun filter_expr_marker_field :: "filter_expr \<Rightarrow> string option" where
  "filter_expr_marker_field (FEq field v) = marked_field field v"
| "filter_expr_marker_field (FNeq field v) = marked_field field v"
| "filter_expr_marker_field (FGt field v) = marked_field field v"
| "filter_expr_marker_field (FGte field v) = marked_field field v"
| "filter_expr_marker_field (FLt field v) = marked_field field v"
| "filter_expr_marker_field (FLte field v) = marked_field field v"
| "filter_expr_marker_field (FContains field v) = marked_field field v"
| "filter_expr_marker_field (FIn field vs) =
     (if list_ex is_principal_marker vs then Some field else None)"
| "filter_expr_marker_field (FExists field) = None"
| "filter_expr_marker_field (FOlderThan field ms) = None"
| "filter_expr_marker_field (FAnd es) = find_map filter_expr_marker_field es"
| "filter_expr_marker_field (FOr es) = find_map filter_expr_marker_field es"
| "filter_expr_marker_field (FNot e) = filter_expr_marker_field e"

fun filter_expr_has_older_than :: "filter_expr \<Rightarrow> bool" where
  "filter_expr_has_older_than (FOlderThan field ms) = True"
| "filter_expr_has_older_than (FAnd es) = list_ex filter_expr_has_older_than es"
| "filter_expr_has_older_than (FOr es) = list_ex filter_expr_has_older_than es"
| "filter_expr_has_older_than (FNot e) = filter_expr_has_older_than e"
| "filter_expr_has_older_than _ = False"

section \<open>Computed fields\<close>

fun validate_computed_case_whens :: "value_expr \<Rightarrow> unit res"
  and validate_case_when :: "case_when \<Rightarrow> unit res" where
  "validate_computed_case_whens (VCase whens otherwise) =
     bindE (eachE validate_case_when whens) (\<lambda>_. validate_computed_case_whens otherwise)"
| "validate_computed_case_whens (VConcat parts) = eachE validate_computed_case_whens parts"
| "validate_computed_case_whens (VCoalesce parts) = eachE validate_computed_case_whens parts"
| "validate_computed_case_whens (VAdd l r) =
     bindE (validate_computed_case_whens l) (\<lambda>_. validate_computed_case_whens r)"
| "validate_computed_case_whens (VSub l r) =
     bindE (validate_computed_case_whens l) (\<lambda>_. validate_computed_case_whens r)"
| "validate_computed_case_whens (VMul l r) =
     bindE (validate_computed_case_whens l) (\<lambda>_. validate_computed_case_whens r)"
| "validate_computed_case_whens (VDiv l r) =
     bindE (validate_computed_case_whens l) (\<lambda>_. validate_computed_case_whens r)"
| "validate_computed_case_whens (VLower v) = validate_computed_case_whens v"
| "validate_computed_case_whens (VUpper v) = validate_computed_case_whens v"
| "validate_computed_case_whens (VTrim v) = validate_computed_case_whens v"
| "validate_computed_case_whens (VCast v to) = validate_computed_case_whens v"
| "validate_computed_case_whens (VField field) = Inr ()"
| "validate_computed_case_whens (VLiteral v) = Inr ()"
| "validate_computed_case_whens VNow = Inr ()"
| "validate_case_when (CaseWhen w t) =
     bindE (ensure (filter_expr_marker_field w = None) BadRequest) (\<lambda>_.
     bindE (ensure (\<not> filter_expr_has_older_than w) BadRequest) (\<lambda>_.
     validate_computed_case_whens t))"

datatype static_kind = KindString | KindNumber | KindBoolean

fun literal_kind :: "json \<Rightarrow> static_kind option" where
  "literal_kind (JString s) = Some KindString"
| "literal_kind (JNumber n) = Some KindNumber"
| "literal_kind (JBool b) = Some KindBoolean"
| "literal_kind _ = None"

fun cast_kind :: "cast \<Rightarrow> static_kind" where
  "cast_kind ToString = KindString"
| "cast_kind ToNumber = KindNumber"
| "cast_kind ToInt64 = KindNumber"
| "cast_kind ToBoolean = KindBoolean"

fun infer_static_kind :: "value_expr \<Rightarrow> static_kind option" where
  "infer_static_kind (VField field) = None"
| "infer_static_kind (VCoalesce parts) = None"
| "infer_static_kind (VCase whens otherwise) = None"
| "infer_static_kind (VLiteral v) = literal_kind v"
| "infer_static_kind (VConcat parts) = Some KindString"
| "infer_static_kind (VLower v) = Some KindString"
| "infer_static_kind (VUpper v) = Some KindString"
| "infer_static_kind (VTrim v) = Some KindString"
| "infer_static_kind (VCast v to) = Some (cast_kind to)"
| "infer_static_kind (VAdd l r) = Some KindNumber"
| "infer_static_kind (VSub l r) = Some KindNumber"
| "infer_static_kind (VMul l r) = Some KindNumber"
| "infer_static_kind (VDiv l r) = Some KindNumber"
| "infer_static_kind VNow = Some KindNumber"

fun kind_sample :: "static_kind \<Rightarrow> json" where
  "kind_sample KindString = JString ''s''"
| "kind_sample KindNumber = json_of_int 1"
| "kind_sample KindBoolean = JBool True"

definition accepts_kind :: "field_type \<Rightarrow> static_kind \<Rightarrow> bool" where
  "accepts_kind ty kind \<longleftrightarrow>
     validate_value ty (kind_sample kind) \<or> strip_optional ty = TyInt64 \<and> kind = KindString"

definition validate_computed_entry :: "table_def \<Rightarrow> string \<times> value_expr \<Rightarrow> unit res" where
  "validate_computed_entry table entry =
     (case map_of (td_fields table) (fst entry) of
        None \<Rightarrow> Inl BadRequest
      | Some ty \<Rightarrow>
          bindE (ensure (td_owner_field table \<noteq> Some (fst entry)) BadRequest) (\<lambda>_.
          bindE (ensure (td_collaborators_field table \<noteq> Some (fst entry)) BadRequest) (\<lambda>_.
          bindE (ensure (td_auto_increment_field table \<noteq> Some (fst entry)) BadRequest) (\<lambda>_.
          bindE (ensure (list_all (\<lambda>r. map_of (td_fields table) r \<noteq> None \<and> map_of (td_computed table) r = None)
              (walk_value_expr_fields (snd entry))) BadRequest) (\<lambda>_.
          bindE (validate_computed_case_whens (snd entry)) (\<lambda>_.
          case infer_static_kind (snd entry) of
            None \<Rightarrow> Inr ()
          | Some kind \<Rightarrow> ensure (accepts_kind ty kind) BadRequest))))))"

definition validate_computed :: "table_def \<Rightarrow> unit res" where
  "validate_computed table =
     bindE (eachE (validate_computed_entry table) (td_computed table)) (\<lambda>_.
     case td_authorize table of
       None \<Rightarrow> Inr ()
     | Some authorize \<Rightarrow>
         ensure (list_all (\<lambda>r. map_of (td_computed table) r = None) (walk_filter_expr_fields authorize)) BadRequest)"

section \<open>The rules of a table\<close>

definition validate_index_field :: "table_def \<Rightarrow> index_def \<Rightarrow> string \<Rightarrow> unit res" where
  "validate_index_field table index field =
     (case map_of (td_fields table) field of
        None \<Rightarrow> Inl SchemaViolation
      | Some ty \<Rightarrow>
          bindE (index_column_type ty) (\<lambda>indexed.
          ensure (\<not> (ix_search index \<and> it_pg indexed \<noteq> Text)) SchemaViolation))"

definition validate_index :: "table_def \<Rightarrow> index_def \<Rightarrow> unit res" where
  "validate_index table index =
     bindE (ensure (case ix_where index of Some p \<Rightarrow> \<not> filter_expr_has_older_than p | None \<Rightarrow> True) BadRequest) (\<lambda>_.
     bindE (ensure (ix_fields index \<noteq> []) SchemaViolation) (\<lambda>_.
     if ix_vector index \<noteq> None then Inr ()
     else eachE (validate_index_field table index) (ix_fields index)))"

definition is_numeric :: "field_type \<Rightarrow> bool" where
  "is_numeric ty \<longleftrightarrow> ty = TyNumber \<or> ty = TyInt64"

definition is_ttl_index :: "string \<Rightarrow> index_def \<Rightarrow> bool" where
  "is_ttl_index field idx \<longleftrightarrow>
     \<not> ix_search idx \<and> ix_vector idx = None \<and> \<not> ix_unique idx \<and> ix_where idx = None \<and> ix_fields idx = [field]"

definition validate_ttl :: "table_def \<Rightarrow> ttl_def \<Rightarrow> unit res" where
  "validate_ttl table ttl =
     (case map_of (td_fields table) (ttl_field ttl) of
        None \<Rightarrow> Inl SchemaViolation
      | Some ty \<Rightarrow>
          bindE (ensure (is_numeric ty) SchemaViolation) (\<lambda>_.
          bindE (ensure (list_ex (is_ttl_index (ttl_field ttl)) (td_indexes table)) SchemaViolation) (\<lambda>_.
          ensure (case ttl_default_duration_ms ttl of Some d \<Rightarrow> 0 < d | None \<Rightarrow> True) SchemaViolation)))"

definition is_ttl_field :: "table_def \<Rightarrow> string \<Rightarrow> bool" where
  "is_ttl_field table field = (case td_ttl table of Some ttl \<Rightarrow> ttl_field ttl = field | None \<Rightarrow> False)"

definition validate_updated_at :: "table_def \<Rightarrow> string \<Rightarrow> unit res" where
  "validate_updated_at table field =
     (case map_of (td_fields table) field of
        None \<Rightarrow> Inl SchemaViolation
      | Some ty \<Rightarrow>
          bindE (ensure (is_numeric ty) SchemaViolation) (\<lambda>_.
          ensure (\<not> is_ttl_field table field) SchemaViolation))"

definition validate_auto_increment :: "table_def \<Rightarrow> string \<Rightarrow> unit res" where
  "validate_auto_increment table field =
     (case map_of (td_fields table) field of
        None \<Rightarrow> Inl SchemaViolation
      | Some ty \<Rightarrow>
          bindE (ensure (ty = TyInt64) SchemaViolation) (\<lambda>_.
          bindE (ensure (\<not> is_ttl_field table field) SchemaViolation) (\<lambda>_.
          ensure (td_updated_at_field table \<noteq> Some field) SchemaViolation)))"

definition each_option :: "('a \<Rightarrow> unit res) \<Rightarrow> 'a option \<Rightarrow> unit res" where
  "each_option f v = (case v of None \<Rightarrow> Inr () | Some y \<Rightarrow> f y)"

lemma each_option_ok [simp]: "each_option f v = Inr () \<longleftrightarrow> (\<forall>y. v = Some y \<longrightarrow> f y = Inr ())"
  by (simp add: each_option_def split: option.split)

definition validate_table :: "ext \<Rightarrow> table_def \<Rightarrow> unit res" where
  "validate_table x table =
     bindE (validate_constraints x table) (\<lambda>_.
     bindE (each_option (\<lambda>a. ensure (\<not> filter_expr_has_older_than a) SchemaViolation) (td_authorize table)) (\<lambda>_.
     bindE (eachE (validate_index table) (td_indexes table)) (\<lambda>_.
     bindE (each_option (validate_ttl table) (td_ttl table)) (\<lambda>_.
     bindE (each_option (validate_updated_at table) (td_updated_at_field table)) (\<lambda>_.
     bindE (each_option (validate_auto_increment table) (td_auto_increment_field table)) (\<lambda>_.
     validate_computed table))))))"

definition validate_schema :: "ext \<Rightarrow> schema_def \<Rightarrow> unit res" where
  "validate_schema x schema = eachE (validate_table x \<circ> snd) (sd_tables schema)"

end
