(* ===== verification/Migrate.thy ===== *)
theory Migrate
  imports Schema_Check
begin

text \<open>
  Schema changes of the in-memory engine: \<^verbatim>\<open>push_schema\<close> and \<^verbatim>\<open>migrate_schema\<close> of
  \<^verbatim>\<open>rust-client/src/in_memory/mod.rs\<close> with the directives of
  \<^verbatim>\<open>rust-client/src/in_memory/migrate.rs\<close>.  A report carries the operation and the number of
  affected rows; its other two lists are always empty in this engine.
\<close>

section \<open>Directives\<close>

datatype expr_source = TypedExpr value_expr | LegacyExpr string

datatype cond_source = TypedCond filter_expr | LegacyCond string

datatype directive =
    RenameField string string string
  | RenameTable string string
  | ChangeType string string field_type cast "json option"
  | DropField string string
  | DropTable string
  | DropIndex string string
  | SetDefault string string json
  | EvalExpr string string expr_source "cond_source option"

record directive_report =
  dr_op :: string
  dr_affected_rows :: nat

record migrate_result =
  mr_applied :: bool
  mr_schema :: schema_def
  mr_directives :: "directive_report list"

definition migrate_table :: "schema_def \<Rightarrow> string \<Rightarrow> table_def res" where
  "migrate_table schema table =
     (case map_of (sd_tables schema) table of None \<Rightarrow> Inl BadRequest | Some t \<Rightarrow> Inr t)"

definition put_table :: "string \<Rightarrow> table_def \<Rightarrow> schema_def \<Rightarrow> schema_def" where
  "put_table table t schema = schema\<lparr>sd_tables := bt_insert table t (sd_tables schema)\<rparr>"

text \<open>\<^verbatim>\<open>if let Some(v) = m.remove(from) { m.insert(to, v) }\<close>.\<close>

definition rekey :: "string \<Rightarrow> string \<Rightarrow> (string \<times> 'a) list \<Rightarrow> (string \<times> 'a) list" where
  "rekey from to m = (case map_of m from of Some v \<Rightarrow> bt_insert to v (bt_remove from m) | None \<Rightarrow> m)"

text \<open>The rows of one table, rewritten in place, and how many of them a predicate counts.\<close>

definition map_rows :: "string \<Rightarrow> (doc \<Rightarrow> doc) \<Rightarrow> (row_key \<times> stored_row) list \<Rightarrow> (row_key \<times> stored_row) list" where
  "map_rows table f docs =
     map (\<lambda>(k, row). (k, if fst k = table then row\<lparr>row_doc := f (row_doc row)\<rparr> else row)) docs"

definition count_rows :: "string \<Rightarrow> (doc \<Rightarrow> bool) \<Rightarrow> (row_key \<times> stored_row) list \<Rightarrow> nat" where
  "count_rows table p docs = length (filter (\<lambda>(k, row). fst k = table \<and> p (row_doc row)) docs)"

type_synonym directive_out = "schema_def \<times> directive_report \<times> string option"

definition rewrite_rows ::
  "string \<Rightarrow> string \<Rightarrow> (doc \<Rightarrow> doc) \<Rightarrow> (doc \<Rightarrow> bool) \<Rightarrow> schema_def \<Rightarrow> directive_out m" where
  "rewrite_rows op table f p planned =
     bindM (getM (\<lambda>s. count_rows table p (c_docs s))) (\<lambda>affected.
     bindM (modifyM (\<lambda>s. s\<lparr>c_docs := map_rows table f (c_docs s)\<rparr>)) (\<lambda>_.
     returnM (planned, \<lparr>dr_op = op, dr_affected_rows = affected\<rparr>, Some table)))"

section \<open>Renaming\<close>

definition rename_table_field :: "string \<Rightarrow> string \<Rightarrow> field_type \<Rightarrow> table_def \<Rightarrow> table_def" where
  "rename_table_field from to ft t =
     t\<lparr>td_fields := bt_insert to ft (bt_remove from (td_fields t)),
       td_indexes := map (\<lambda>ix. ix\<lparr>ix_fields := map (rename_name from to) (ix_fields ix)\<rparr>) (td_indexes t),
       td_owner_field := map_option (rename_name from to) (td_owner_field t),
       td_collaborators_field := map_option (rename_name from to) (td_collaborators_field t),
       td_auto_increment_field := map_option (rename_name from to) (td_auto_increment_field t),
       td_updated_at_field := map_option (rename_name from to) (td_updated_at_field t),
       td_ttl := map_option (\<lambda>ttl. ttl\<lparr>ttl_field := rename_name from to (ttl_field ttl)\<rparr>) (td_ttl t),
       td_authorize := map_option (rename_filter_fields from to) (td_authorize t),
       td_computed := map (\<lambda>(k, e). (k, rename_value_expr_fields from to e)) (rekey from to (td_computed t)),
       td_defaults := rekey from to (td_defaults t)\<rparr>"

definition apply_rename_field_directive :: "schema_def \<Rightarrow> string \<Rightarrow> string \<Rightarrow> string \<Rightarrow> directive_out m" where
  "apply_rename_field_directive planned table from to =
     bindM (liftM (migrate_table planned table)) (\<lambda>t.
     bindM (liftM (ensure (map_of (td_fields t) to = None) BadRequest)) (\<lambda>_.
     case map_of (td_fields t) from of
       None \<Rightarrow> throwM BadRequest
     | Some ft \<Rightarrow>
         rewrite_rows ''renameField'' table (rekey from to) (\<lambda>d. map_of d from \<noteq> None)
           (put_table table (rename_table_field from to ft t) planned)))"

fun retarget :: "string \<Rightarrow> string \<Rightarrow> field_type \<Rightarrow> field_type" where
  "retarget from to (TyId table od) = TyId (if table = from then to else table) od"
| "retarget from to ft = ft"

definition retarget_table :: "string \<Rightarrow> string \<Rightarrow> table_def \<Rightarrow> table_def" where
  "retarget_table from to t = t\<lparr>td_fields := map (\<lambda>(f, ft). (f, retarget from to ft)) (td_fields t)\<rparr>"

definition move_row :: "string \<Rightarrow> string \<Rightarrow> string \<Rightarrow> (row_key \<times> stored_row) list \<Rightarrow> (row_key \<times> stored_row) list" where
  "move_row from to i docs =
     (case map_of docs (from, i) of
        None \<Rightarrow> docs
      | Some row \<Rightarrow> hm_insert (to, i) row (hm_remove (from, i) docs))"

definition table_ids :: "string \<Rightarrow> (row_key \<times> stored_row) list \<Rightarrow> string list" where
  "table_ids table docs = map (snd \<circ> fst) (filter (\<lambda>e. fst (fst e) = table) docs)"

definition apply_rename_table_directive :: "schema_def \<Rightarrow> string \<Rightarrow> string \<Rightarrow> directive_out m" where
  "apply_rename_table_directive planned from to =
     bindM (liftM (ensure (map_of (sd_tables planned) to = None) BadRequest)) (\<lambda>_.
     bindM (liftM (migrate_table planned from)) (\<lambda>def.
     let others = map (\<lambda>(n, t). (n, retarget_table from to t)) (bt_remove from (sd_tables planned))
     in bindM (modifyM (\<lambda>s. s\<lparr>c_docs := fold (move_row from to) (table_ids from (c_docs s)) (c_docs s)\<rparr>)) (\<lambda>_.
        returnM (planned\<lparr>sd_tables := bt_insert to def others\<rparr>,
          \<lparr>dr_op = ''renameTable'', dr_affected_rows = 0\<rparr>, Some to))))"

section \<open>Changing a type\<close>

fun cast_valid_for :: "cast \<Rightarrow> field_type \<Rightarrow> bool" where
  "cast_valid_for ToString old = (old \<in> {TyString, TyNumber, TyBoolean, TyInt64})"
| "cast_valid_for ToNumber old = (old \<in> {TyString, TyBoolean, TyInt64})"
| "cast_valid_for ToInt64 old = (old \<in> {TyString, TyNumber})"
| "cast_valid_for ToBoolean old = (old \<in> {TyString, TyNumber})"

fun coerce_value :: "ext \<Rightarrow> cast \<Rightarrow> json \<Rightarrow> json option" where
  "coerce_value x ToString (JString s) = Some (JString s)"
| "coerce_value x ToString (JNumber n) = Some (JString (json_text x (JNumber n)))"
| "coerce_value x ToString (JBool b) = Some (JString (if b then ''true'' else ''false''))"
| "coerce_value x ToNumber (JString s) =
     (case parse_f64 s of Some (Fin r) \<Rightarrow> Some (JNumber (Float r)) | _ \<Rightarrow> None)"
| "coerce_value x ToNumber (JNumber n) = Some (JNumber n)"
| "coerce_value x ToNumber (JBool b) = Some (JNumber (Float (if b then 1 else 0)))"
| "coerce_value x ToInt64 (JString s) = map_option (JString \<circ> int_to_string) (parse_i64 s)"
| "coerce_value x ToInt64 (JNumber n) = map_option (JString \<circ> int_to_string) (as_i64 n)"
| "coerce_value x ToBoolean (JString s) =
     (if s \<in> {''true'', ''1''} then Some (JBool True)
      else if s \<in> {''false'', ''0''} then Some (JBool False) else None)"
| "coerce_value x ToBoolean (JNumber n) = Some (JBool (\<not> f64_eq (as_f64 n) (Fin 0)))"
| "coerce_value x _ _ = None"

definition coerce_or_default :: "ext \<Rightarrow> cast \<Rightarrow> json option \<Rightarrow> json \<Rightarrow> json option" where
  "coerce_or_default x c dflt v =
     (case coerce_value x c v of
        Some v' \<Rightarrow> Some v'
      | None \<Rightarrow>
          map_option (\<lambda>d. case coerce_value x c d of Some d' \<Rightarrow> d' | None \<Rightarrow> d) dflt)"

text \<open>The row loop stops at the first value without a coercion, with the rows before it rewritten.\<close>

fun change_rows ::
  "ext \<Rightarrow> string \<Rightarrow> string \<Rightarrow> cast \<Rightarrow> json option \<Rightarrow> (row_key \<times> stored_row) list \<Rightarrow>
   nat res \<times> (row_key \<times> stored_row) list" where
  "change_rows x table field c dflt [] = (Inr 0, [])"
| "change_rows x table field c dflt ((k, row) # docs) =
     (case (if fst k = table then map_of (row_doc row) field else None) of
        None \<Rightarrow> (case change_rows x table field c dflt docs of (r, docs') \<Rightarrow> (r, (k, row) # docs'))
      | Some v \<Rightarrow>
          (case coerce_or_default x c dflt v of
             None \<Rightarrow> (Inl BadRequest, (k, row) # docs)
           | Some v' \<Rightarrow>
               (case change_rows x table field c dflt docs of
                  (r, docs') \<Rightarrow>
                    (bindE r (\<lambda>n. Inr (Suc n)),
                     (k, row\<lparr>row_doc := bt_insert field v' (row_doc row)\<rparr>) # docs'))))"

definition apply_change_type_directive ::
  "ext \<Rightarrow> schema_def \<Rightarrow> string \<Rightarrow> string \<Rightarrow> field_type \<Rightarrow> cast \<Rightarrow> json option \<Rightarrow> directive_out m" where
  "apply_change_type_directive x planned table field to c dflt =
     bindM (liftM (migrate_table planned table)) (\<lambda>t.
     case map_of (td_fields t) field of
       None \<Rightarrow> throwM BadRequest
     | Some old_ty \<Rightarrow>
         bindM (liftM (ensure (cast_valid_for c old_ty) BadRequest)) (\<lambda>_.
         bindM (\<lambda>s. case change_rows x table field c dflt (c_docs s) of (r, docs) \<Rightarrow> (r, s\<lparr>c_docs := docs\<rparr>)) (\<lambda>affected.
         returnM (put_table table (t\<lparr>td_fields := bt_insert field to (td_fields t)\<rparr>) planned,
           \<lparr>dr_op = ''changeType'', dr_affected_rows = affected\<rparr>, Some table))))"

section \<open>Dropping and filling\<close>

definition clear_name :: "string \<Rightarrow> string option \<Rightarrow> string option" where
  "clear_name field v = (if v = Some field then None else v)"

definition drop_table_field :: "string \<Rightarrow> table_def \<Rightarrow> table_def" where
  "drop_table_field field t =
     t\<lparr>td_fields := bt_remove field (td_fields t),
       td_indexes := map (\<lambda>ix. ix\<lparr>ix_fields := filter (\<lambda>f. f \<noteq> field) (ix_fields ix)\<rparr>) (td_indexes t),
       td_owner_field := clear_name field (td_owner_field t),
       td_collaborators_field := clear_name field (td_collaborators_field t),
       td_computed := bt_remove field (td_computed t)\<rparr>"

definition computed_reads :: "table_def \<Rightarrow> string \<Rightarrow> bool" where
  "computed_reads t field = list_ex (\<lambda>(k, e). field \<in> set (walk_value_expr_fields e)) (td_computed t)"

definition apply_drop_field_directive :: "schema_def \<Rightarrow> string \<Rightarrow> string \<Rightarrow> directive_out m" where
  "apply_drop_field_directive planned table field =
     bindM (liftM (migrate_table planned table)) (\<lambda>t.
     bindM (liftM (ensure (map_of (td_fields t) field \<noteq> None) BadRequest)) (\<lambda>_.
     bindM (liftM (ensure (\<not> computed_reads t field) BadRequest)) (\<lambda>_.
     rewrite_rows ''dropField'' table (bt_remove field) (\<lambda>d. map_of d field \<noteq> None)
       (put_table table (drop_table_field field t) planned))))"

definition apply_drop_table_directive :: "schema_def \<Rightarrow> string \<Rightarrow> directive_out m" where
  "apply_drop_table_directive planned name =
     bindM (liftM (migrate_table planned name)) (\<lambda>_.
     bindM (getM (\<lambda>s. table_ids name (c_docs s))) (\<lambda>ids.
     bindM (modifyM (\<lambda>s. s\<lparr>c_docs := fold (\<lambda>i. hm_remove (name, i)) ids (c_docs s)\<rparr>)) (\<lambda>_.
     returnM (planned\<lparr>sd_tables := bt_remove name (sd_tables planned)\<rparr>,
       \<lparr>dr_op = ''dropTable'', dr_affected_rows = length ids\<rparr>, Some name))))"

definition drop_index :: "string \<Rightarrow> table_def \<Rightarrow> table_def" where
  "drop_index name t = t\<lparr>td_indexes := filter (\<lambda>ix. ix_name ix \<noteq> name) (td_indexes t)\<rparr>"

definition has_index :: "string \<Rightarrow> table_def \<Rightarrow> bool" where
  "has_index name t = list_ex (\<lambda>ix. ix_name ix = name) (td_indexes t)"

definition apply_drop_index_directive :: "schema_def \<Rightarrow> string \<Rightarrow> string \<Rightarrow> directive_out m" where
  "apply_drop_index_directive planned table name =
     bindM (liftM (migrate_table planned table)) (\<lambda>t.
     bindM (liftM (ensure (has_index name t) BadRequest)) (\<lambda>_.
     returnM (put_table table (drop_index name t) planned,
       \<lparr>dr_op = ''dropIndex'', dr_affected_rows = 0\<rparr>, Some table)))"

definition fill_field :: "string \<Rightarrow> json \<Rightarrow> doc \<Rightarrow> doc" where
  "fill_field field v d = (if map_of d field = None then bt_insert field v d else d)"

definition apply_set_default_directive :: "schema_def \<Rightarrow> string \<Rightarrow> string \<Rightarrow> json \<Rightarrow> directive_out m" where
  "apply_set_default_directive planned table field v =
     bindM (liftM (migrate_table planned table)) (\<lambda>t.
     bindM (liftM (ensure (map_of (td_fields t) field \<noteq> None) BadRequest)) (\<lambda>_.
     rewrite_rows ''setDefault'' table (fill_field field v) (\<lambda>d. map_of d field = None) planned))"

definition apply_eval_expr_directive :: "string \<Rightarrow> directive_out m" where
  "apply_eval_expr_directive table = throwM BadRequest"

section \<open>Migrations and pushes\<close>

fun apply_migration_directive :: "ext \<Rightarrow> schema_def \<Rightarrow> directive \<Rightarrow> directive_out m" where
  "apply_migration_directive x planned (RenameField table from to) = apply_rename_field_directive planned table from to"
| "apply_migration_directive x planned (RenameTable from to) = apply_rename_table_directive planned from to"
| "apply_migration_directive x planned (ChangeType table field to c dflt) =
     apply_change_type_directive x planned table field to c dflt"
| "apply_migration_directive x planned (DropField table field) = apply_drop_field_directive planned table field"
| "apply_migration_directive x planned (DropTable name) = apply_drop_table_directive planned name"
| "apply_migration_directive x planned (DropIndex table name) = apply_drop_index_directive planned table name"
| "apply_migration_directive x planned (SetDefault table field v) = apply_set_default_directive planned table field v"
| "apply_migration_directive x planned (EvalExpr table f e w) = apply_eval_expr_directive table"

fun apply_directives ::
  "ext \<Rightarrow> schema_def \<Rightarrow> directive list \<Rightarrow> (schema_def \<times> directive_report list \<times> string set) m" where
  "apply_directives x planned [] = returnM (planned, [], {})"
| "apply_directives x planned (d # ds) =
     bindM (apply_migration_directive x planned d) (\<lambda>(planned', report, table).
     bindM (apply_directives x planned' ds) (\<lambda>(planned'', reports, touched).
     returnM (planned'', report # reports, set_option table \<union> touched)))"

text \<open>The snapshot of the rows, put back when the method fails.\<close>

definition restoring_docs :: "'a m \<Rightarrow> 'a m" where
  "restoring_docs m =
     (\<lambda>saved. case m saved of
        (Inl e, s) \<Rightarrow> (Inl e, s\<lparr>c_docs := c_docs saved\<rparr>)
      | (Inr r, s) \<Rightarrow> (Inr r, s))"

definition insert_tables :: "(string \<times> table_def) list \<Rightarrow> (string \<times> table_def) list \<Rightarrow> (string \<times> table_def) list" where
  "insert_tables ts m = fold (\<lambda>(name, def). hm_insert name def) ts m"

definition migrate_schema :: "ext \<Rightarrow> directive list \<Rightarrow> bool \<Rightarrow> (migrate_result \<times> string set) m" where
  "migrate_schema x directives dry_run =
     bindM (askM (\<lambda>s. case c_schema s of None \<Rightarrow> Inl BadRequest | Some old \<Rightarrow> Inr old)) (\<lambda>old.
     bindM (getM c_docs) (\<lambda>snapshot.
     bindM (restoring_docs
        (bindM (apply_directives x old directives) (\<lambda>(planned, reports, touched).
         bindM (liftM (validate_schema x planned)) (\<lambda>_.
         returnM (planned, reports, touched))))) (\<lambda>(planned, reports, touched).
     if dry_run
     then bindM (modifyM (\<lambda>s. s\<lparr>c_docs := snapshot\<rparr>)) (\<lambda>_.
          returnM (\<lparr>mr_applied = False, mr_schema = planned, mr_directives = reports\<rparr>, {}))
     else bindM (modifyM (\<lambda>s. s\<lparr>c_schema := Some planned, c_tables := insert_tables (sd_tables planned) []\<rparr>)) (\<lambda>_.
          returnM (\<lparr>mr_applied = True, mr_schema = planned, mr_directives = reports\<rparr>, touched)))))"

definition push_schema :: "ext \<Rightarrow> schema_def \<Rightarrow> unit m" where
  "push_schema x schema =
     bindM (liftM (validate_schema x schema)) (\<lambda>_.
     bindM (getM c_schema) (\<lambda>prev.
     let schema' = grandfather_trgm prev schema
     in bindM (case prev of
                 None \<Rightarrow> returnM ()
               | Some old \<Rightarrow>
                   (case detect_destructive_changes old schema' of
                      Inl _ \<Rightarrow> throwM BadRequest
                    | Inr _ \<Rightarrow> returnM ())) (\<lambda>_.
        modifyM (\<lambda>s. s\<lparr>c_schema := Some schema', c_tables := insert_tables (sd_tables schema') (c_tables s)\<rparr>))))"

text \<open>A condition on the definition of a table, if it is declared.\<close>

definition on_table :: "schema_def \<Rightarrow> string \<Rightarrow> (table_def \<Rightarrow> bool) \<Rightarrow> bool" where
  "on_table schema table p = (case map_of (sd_tables schema) table of Some t \<Rightarrow> p t | None \<Rightarrow> True)"

end
