(* ===== verification/Server_Schema.thy ===== *)
theory Server_Schema
  imports Schema_Check
begin

text \<open>
  The schema module of the server (\<^verbatim>\<open>server/src/schema\<close>): value and document validation
  (\<^verbatim>\<open>value.rs\<close>), the field rules of filters (\<^verbatim>\<open>filter.rs\<close>), computed fields
  (\<^verbatim>\<open>computed.rs\<close>) and the structural rules of a push (\<^verbatim>\<open>validate.rs\<close>).  The in-memory
  engine ports these rules; names that both sides use carry \<open>srv_\<close> here.
\<close>

section \<open>Values\<close>

fun is_scalar_string :: "field_type \<Rightarrow> bool" where
  "is_scalar_string (TyLiteral v) = is_string v"
| "is_scalar_string _ = False"

definition is_string_literal_union :: "field_type list \<Rightarrow> bool" where
  "is_string_literal_union variants \<longleftrightarrow> variants \<noteq> [] \<and> list_all is_scalar_string variants"

fun indexed_column_type :: "field_type \<Rightarrow> (pg_type \<times> bool) res" where
  "indexed_column_type TyString = Inr (Text, False)"
| "indexed_column_type TyNumber = Inr (Number, False)"
| "indexed_column_type TyInt64 = Inr (Int64, False)"
| "indexed_column_type TyBoolean = Inr (Boolean, False)"
| "indexed_column_type (TyId t od) = Inr (Text, False)"
| "indexed_column_type (TyLiteral v) = (if is_string v then Inr (Text, False) else Inl SchemaViolation)"
| "indexed_column_type (TyUnion variants) =
     (if is_string_literal_union variants then Inr (Text, False) else Inl SchemaViolation)"
| "indexed_column_type (TyOptional inner) = bindE (indexed_column_type inner) (\<lambda>(pg, _). Inr (pg, True))"
| "indexed_column_type _ = Inl SchemaViolation"

fun unwrap_optional :: "field_type \<Rightarrow> field_type" where
  "unwrap_optional (TyOptional inner) = inner"
| "unwrap_optional ty = ty"

definition is_string_array_field :: "field_type \<Rightarrow> bool" where
  "is_string_array_field ty =
     (case unwrap_optional ty of
        TyArray element \<Rightarrow> (case indexed_column_type element of Inr (pg, _) \<Rightarrow> pg = Text | Inl _ \<Rightarrow> False)
      | _ \<Rightarrow> False)"

definition is_valid_id :: "json \<Rightarrow> bool" where
  "is_valid_id v = (case as_str v of Some s \<Rightarrow> length s = 32 \<and> list_all is_hex_digit s | None \<Rightarrow> False)"

definition is_valid_int64 :: "json \<Rightarrow> bool" where
  "is_valid_int64 v = (case as_str v of Some s \<Rightarrow> parse_i64 s \<noteq> None | None \<Rightarrow> False)"

definition is_valid_base64 :: "ext \<Rightarrow> json \<Rightarrow> bool" where
  "is_valid_base64 x v = (case as_str v of Some s \<Rightarrow> b64_decode x s \<noteq> None | None \<Rightarrow> False)"

fun srv_validate_value :: "ext \<Rightarrow> field_type \<Rightarrow> json \<Rightarrow> bool" where
  "srv_validate_value x TyString v = is_string v"
| "srv_validate_value x TyNumber v = is_number v"
| "srv_validate_value x TyBoolean v = is_boolean v"
| "srv_validate_value x TyNull v = is_null v"
| "srv_validate_value x (TyId table od) v = is_valid_id v"
| "srv_validate_value x (TyLiteral expected) v = (v = expected)"
| "srv_validate_value x (TyOptional inner) v = (is_null v \<or> srv_validate_value x inner v)"
| "srv_validate_value x (TyUnion variants) v = (\<exists>t\<in>set variants. srv_validate_value x t v)"
| "srv_validate_value x (TyArray element) v =
     (case as_array v of Some items \<Rightarrow> \<forall>item\<in>set items. srv_validate_value x element item | None \<Rightarrow> False)"
| "srv_validate_value x (TyObject fs) v =
     (case as_object v of
        Some obj \<Rightarrow>
          \<not> (\<exists>key\<in>fst ` set obj. map_of fs key = None)
          \<and> (\<forall>p\<in>set fs.
                case map_of obj (fst p) of
                  Some w \<Rightarrow> srv_validate_value x (snd p) w
                | None \<Rightarrow> is_optional (snd p))
      | None \<Rightarrow> False)"
| "srv_validate_value x TyInt64 v = is_valid_int64 v"
| "srv_validate_value x TyBytes v = is_valid_base64 x v"
| "srv_validate_value x TyAny v = True"
| "srv_validate_value x (TyRecord t) v =
     (case as_object v of Some obj \<Rightarrow> \<forall>w\<in>snd ` set obj. srv_validate_value x t w | None \<Rightarrow> False)"
| "srv_validate_value x (TyVector dimensions) v =
     (case as_array v of
        Some items \<Rightarrow>
          length items = dimensions
          \<and> list_all (\<lambda>el. case json_as_f64 el of Some n \<Rightarrow> is_finite n | None \<Rightarrow> False) items
      | None \<Rightarrow> False)"

definition srv_check_constraints_for_field :: "ext \<Rightarrow> table_def \<Rightarrow> string \<Rightarrow> json \<Rightarrow> unit res" where
  "srv_check_constraints_for_field x table field_name v =
     (case map_of (td_constraints table) field_name of
        None \<Rightarrow> Inr ()
      | Some fc \<Rightarrow>
          if is_null v then Inr ()
          else
            (case map_option strip_optional (map_of (td_fields table) field_name) of
               Some TyNumber \<Rightarrow>
                 let n = (case json_as_f64 v of Some f \<Rightarrow> f | None \<Rightarrow> NaN)
                 in bindE (ensure (\<not> violates (\<lambda>m. f64_lt n (as_f64 m)) (fc_min fc)) SchemaViolation) (\<lambda>_.
                    ensure (\<not> violates (\<lambda>m. f64_lt (as_f64 m) n) (fc_max fc)) SchemaViolation)
             | Some TyInt64 \<Rightarrow>
                 (case int64_of v of
                    None \<Rightarrow> Inr ()
                  | Some n \<Rightarrow>
                      bindE (ensure (\<not> violates (\<lambda>m. n < int64_bound m) (fc_min fc)) SchemaViolation) (\<lambda>_.
                      ensure (\<not> violates (\<lambda>m. int64_bound m < n) (fc_max fc)) SchemaViolation))
             | Some TyString \<Rightarrow>
                 let s = (case as_str v of Some s \<Rightarrow> s | None \<Rightarrow> []); len = chars_count s
                 in bindE (ensure (\<not> violates (\<lambda>lo. len < lo) (fc_min_length fc)) SchemaViolation) (\<lambda>_.
                    bindE (ensure (\<not> violates (\<lambda>hi. hi < len) (fc_max_length fc)) SchemaViolation) (\<lambda>_.
                    ensure (\<not> violates (\<lambda>p. regex_match x p s \<noteq> Some True) (fc_pattern fc)) SchemaViolation))
             | _ \<Rightarrow> Inr ()))"

definition srv_validate_field :: "ext \<Rightarrow> table_def \<Rightarrow> doc \<Rightarrow> string \<times> field_type \<Rightarrow> unit res" where
  "srv_validate_field x table d p =
     (case map_of d (fst p) of
        Some v \<Rightarrow>
          bindE (ensure (srv_validate_value x (snd p) v) SchemaViolation) (\<lambda>_.
          srv_check_constraints_for_field x table (fst p) v)
      | None \<Rightarrow> ensure (is_optional (snd p)) SchemaViolation)"

definition srv_validate_doc :: "ext \<Rightarrow> table_def \<Rightarrow> doc \<Rightarrow> unit res" where
  "srv_validate_doc x table d =
     bindE (eachE (\<lambda>key.
        bindE (ensure (\<not> starts_with ''_'' key) SchemaViolation) (\<lambda>_.
        ensure (map_of (td_fields table) key \<noteq> None) SchemaViolation)) (map fst d)) (\<lambda>_.
     eachE (srv_validate_field x table d) (td_fields table))"

definition srv_validate_constraints_entry :: "ext \<Rightarrow> field_type \<Rightarrow> field_constraints \<Rightarrow> unit res" where
  "srv_validate_constraints_entry x field_type fc =
     (let base = strip_optional field_type;
          bounds_ok = (base = TyNumber \<or> base = TyInt64);
          string_ok = (base = TyString)
      in bindE (eachE (\<lambda>bound. each_option (\<lambda>n.
             bindE (ensure bounds_ok SchemaViolation) (\<lambda>_.
             ensure (\<not> (base = TyInt64 \<and> is_float n)) SchemaViolation)) bound) [fc_min fc, fc_max fc]) (\<lambda>_.
         bindE (eachE (\<lambda>present. ensure (\<not> (present \<and> \<not> string_ok)) SchemaViolation)
             [fc_min_length fc \<noteq> None, fc_max_length fc \<noteq> None, fc_pattern fc \<noteq> None]) (\<lambda>_.
         bindE (case (fc_min fc, fc_max fc) of
                  (Some lo, Some hi) \<Rightarrow> ensure (\<not> f64_lt (as_f64 hi) (as_f64 lo)) SchemaViolation
                | _ \<Rightarrow> Inr ()) (\<lambda>_.
         bindE (case (fc_min_length fc, fc_max_length fc) of
                  (Some lo, Some hi) \<Rightarrow> ensure (\<not> hi < lo) SchemaViolation
                | _ \<Rightarrow> Inr ()) (\<lambda>_.
         each_option (\<lambda>p. ensure (regex_match x p [] \<noteq> None) SchemaViolation) (fc_pattern fc))))))"

section \<open>Filters\<close>

definition MAX_FILTER_DEPTH_SRV :: nat where "MAX_FILTER_DEPTH_SRV = 32"
definition MAX_IN_VALUES_SRV :: nat where "MAX_IN_VALUES_SRV = 1000"

definition check_field_declared :: "string \<Rightarrow> table_def \<Rightarrow> field_type res" where
  "check_field_declared field table =
     (case map_of (td_fields table) field of None \<Rightarrow> Inl SchemaViolation | Some ty \<Rightarrow> Inr ty)"

definition check_no_marker :: "bool \<Rightarrow> json \<Rightarrow> unit res" where
  "check_no_marker allow_markers v = ensure (allow_markers \<or> \<not> is_principal_marker v) SchemaViolation"

definition check_scalar_leaf :: "table_def \<Rightarrow> bool \<Rightarrow> bool \<Rightarrow> string \<Rightarrow> json \<Rightarrow> unit res" where
  "check_scalar_leaf table allow_markers ordered field v =
     bindE (check_field_declared field table) (\<lambda>fty.
     bindE (check_no_marker allow_markers v) (\<lambda>_.
     if ordered then ensure (is_ok (indexed_column_type fty)) SchemaViolation else Inr ()))"

fun validate_leaf :: "table_def \<Rightarrow> bool \<Rightarrow> bool \<Rightarrow> filter_expr \<Rightarrow> unit res" where
  "validate_leaf table markers relative (FEq field v) = check_scalar_leaf table markers False field v"
| "validate_leaf table markers relative (FNeq field v) = check_scalar_leaf table markers False field v"
| "validate_leaf table markers relative (FGt field v) = check_scalar_leaf table markers True field v"
| "validate_leaf table markers relative (FGte field v) = check_scalar_leaf table markers True field v"
| "validate_leaf table markers relative (FLt field v) = check_scalar_leaf table markers True field v"
| "validate_leaf table markers relative (FLte field v) = check_scalar_leaf table markers True field v"
| "validate_leaf table markers relative (FOlderThan field ms) =
     bindE (ensure relative SchemaViolation) (\<lambda>_.
     bindE (ensure (0 \<le> ms) SchemaViolation) (\<lambda>_.
     bindE (check_field_declared field table) (\<lambda>fty.
     ensure (is_numeric (unwrap_optional fty)) SchemaViolation)))"
| "validate_leaf table markers relative (FIn field values) =
     bindE (check_field_declared field table) (\<lambda>_.
     bindE (ensure (length values \<le> MAX_IN_VALUES_SRV) BadRequest) (\<lambda>_.
     eachE (check_no_marker markers) values))"
| "validate_leaf table markers relative (FContains field v) =
     bindE (check_field_declared field table) (\<lambda>fty.
     bindE (ensure (is_string_array_field fty) SchemaViolation) (\<lambda>_.
     check_no_marker markers v))"
| "validate_leaf table markers relative (FExists field) =
     bindE (check_field_declared field table) (\<lambda>_. Inr ())"
| "validate_leaf table markers relative _ = Inr ()"

fun srv_validate_filter_at :: "table_def \<Rightarrow> bool \<Rightarrow> bool \<Rightarrow> nat \<Rightarrow> filter_expr \<Rightarrow> unit res" where
  "srv_validate_filter_at table markers relative depth (FAnd es) =
     bindE (ensure (depth \<le> MAX_FILTER_DEPTH_SRV) BadRequest) (\<lambda>_.
     eachE (srv_validate_filter_at table markers relative (Suc depth)) es)"
| "srv_validate_filter_at table markers relative depth (FOr es) =
     bindE (ensure (depth \<le> MAX_FILTER_DEPTH_SRV) BadRequest) (\<lambda>_.
     eachE (srv_validate_filter_at table markers relative (Suc depth)) es)"
| "srv_validate_filter_at table markers relative depth (FNot e) =
     bindE (ensure (depth \<le> MAX_FILTER_DEPTH_SRV) BadRequest) (\<lambda>_.
     srv_validate_filter_at table markers relative (Suc depth) e)"
| "srv_validate_filter_at table markers relative depth leaf =
     bindE (ensure (depth \<le> MAX_FILTER_DEPTH_SRV) BadRequest) (\<lambda>_. validate_leaf table markers relative leaf)"

definition srv_validate_filter_expr_fields :: "filter_expr \<Rightarrow> table_def \<Rightarrow> bool \<Rightarrow> bool \<Rightarrow> unit res" where
  "srv_validate_filter_expr_fields e table markers relative = srv_validate_filter_at table markers relative 1 e"

section \<open>Computed fields\<close>

text \<open>\<^verbatim>\<open>map_err(|e| RtDbError::bad_request(e.message))\<close>.\<close>

definition as_bad_request :: "'a res \<Rightarrow> 'a res" where
  "as_bad_request r = (case r of Inl _ \<Rightarrow> Inl BadRequest | Inr y \<Rightarrow> Inr y)"

lemma as_bad_request_ok [simp]: "as_bad_request r = Inr y \<longleftrightarrow> r = Inr y"
  by (simp add: as_bad_request_def split: sum.split)

fun srv_validate_case_whens :: "table_def \<Rightarrow> value_expr \<Rightarrow> unit res"
  and srv_validate_case_when :: "table_def \<Rightarrow> case_when \<Rightarrow> unit res" where
  "srv_validate_case_whens table (VCase whens otherwise) =
     bindE (eachE (srv_validate_case_when table) whens) (\<lambda>_. srv_validate_case_whens table otherwise)"
| "srv_validate_case_whens table (VConcat parts) = eachE (srv_validate_case_whens table) parts"
| "srv_validate_case_whens table (VCoalesce parts) = eachE (srv_validate_case_whens table) parts"
| "srv_validate_case_whens table (VAdd l r) =
     bindE (srv_validate_case_whens table l) (\<lambda>_. srv_validate_case_whens table r)"
| "srv_validate_case_whens table (VSub l r) =
     bindE (srv_validate_case_whens table l) (\<lambda>_. srv_validate_case_whens table r)"
| "srv_validate_case_whens table (VMul l r) =
     bindE (srv_validate_case_whens table l) (\<lambda>_. srv_validate_case_whens table r)"
| "srv_validate_case_whens table (VDiv l r) =
     bindE (srv_validate_case_whens table l) (\<lambda>_. srv_validate_case_whens table r)"
| "srv_validate_case_whens table (VLower v) = srv_validate_case_whens table v"
| "srv_validate_case_whens table (VUpper v) = srv_validate_case_whens table v"
| "srv_validate_case_whens table (VTrim v) = srv_validate_case_whens table v"
| "srv_validate_case_whens table (VCast v to) = srv_validate_case_whens table v"
| "srv_validate_case_whens table (VField field) = Inr ()"
| "srv_validate_case_whens table (VLiteral v) = Inr ()"
| "srv_validate_case_whens table VNow = Inr ()"
| "srv_validate_case_when table (CaseWhen w t) =
     bindE (as_bad_request (srv_validate_filter_expr_fields w table False False)) (\<lambda>_.
     srv_validate_case_whens table t)"

definition srv_accepts_kind :: "ext \<Rightarrow> field_type \<Rightarrow> static_kind \<Rightarrow> bool" where
  "srv_accepts_kind x ty kind \<longleftrightarrow>
     srv_validate_value x ty (kind_sample kind) \<or> strip_optional ty = TyInt64 \<and> kind = KindString"

definition srv_validate_computed_entry :: "ext \<Rightarrow> table_def \<Rightarrow> string \<times> value_expr \<Rightarrow> unit res" where
  "srv_validate_computed_entry x table entry =
     (case map_of (td_fields table) (fst entry) of
        None \<Rightarrow> Inl BadRequest
      | Some ty \<Rightarrow>
          bindE (ensure (td_owner_field table \<noteq> Some (fst entry)) BadRequest) (\<lambda>_.
          bindE (ensure (td_collaborators_field table \<noteq> Some (fst entry)) BadRequest) (\<lambda>_.
          bindE (ensure (td_auto_increment_field table \<noteq> Some (fst entry)) BadRequest) (\<lambda>_.
          bindE (ensure (list_all (\<lambda>r. map_of (td_fields table) r \<noteq> None \<and> map_of (td_computed table) r = None)
              (walk_value_expr_fields (snd entry))) BadRequest) (\<lambda>_.
          bindE (srv_validate_case_whens table (snd entry)) (\<lambda>_.
          each_option (\<lambda>kind. ensure (srv_accepts_kind x ty kind) BadRequest) (infer_static_kind (snd entry))))))))"

definition srv_validate_computed :: "ext \<Rightarrow> table_def \<Rightarrow> unit res" where
  "srv_validate_computed x table =
     bindE (eachE (srv_validate_computed_entry x table) (td_computed table)) (\<lambda>_.
     each_option (\<lambda>authorize.
        ensure (list_all (\<lambda>r. map_of (td_computed table) r = None) (walk_filter_expr_fields authorize)) BadRequest)
       (td_authorize table))"

end
