(* ===== verification/Server_Structure.thy ===== *)
theory Server_Structure
  imports Server_Schema
begin

text \<open>
  \<^verbatim>\<open>server/src/schema/validate.rs\<close>: identifiers, the structural rules of a table and of a
  schema, and the table quota, in the order in which the server checks them.
\<close>

section \<open>Identifiers and types\<close>

definition is_ascii_lowercase :: "char \<Rightarrow> bool" where
  "is_ascii_lowercase c \<longleftrightarrow> 97 \<le> (of_char c :: nat) \<and> (of_char c :: nat) \<le> 122"

definition is_valid_identifier :: "string \<Rightarrow> nat \<Rightarrow> bool" where
  "is_valid_identifier s max_len \<longleftrightarrow>
     length s \<le> max_len
     \<and> (case s of [] \<Rightarrow> False | c # cs \<Rightarrow> is_alpha c \<and> list_all (\<lambda>c. is_ascii_alphanumeric c \<or> c = CHR ''_'') cs)"

definition is_valid_regconfig :: "string \<Rightarrow> bool" where
  "is_valid_regconfig s \<longleftrightarrow>
     length s \<le> 63
     \<and> (case s of
          [] \<Rightarrow> False
        | c # cs \<Rightarrow> is_ascii_lowercase c \<and> list_all (\<lambda>c. is_ascii_lowercase c \<or> is_digit c \<or> c = CHR ''_'') cs)"

fun validate_field_type :: "field_type \<Rightarrow> unit res" where
  "validate_field_type (TyLiteral v) = ensure (is_string v \<or> is_number v \<or> is_boolean v) SchemaViolation"
| "validate_field_type (TyOptional inner) =
     bindE (ensure (\<not> is_optional inner) SchemaViolation) (\<lambda>_. validate_field_type inner)"
| "validate_field_type (TyUnion variants) =
     bindE (ensure (variants \<noteq> []) SchemaViolation) (\<lambda>_. eachE validate_field_type variants)"
| "validate_field_type (TyArray element) = validate_field_type element"
| "validate_field_type (TyObject fs) = eachE (\<lambda>p. validate_field_type (snd p)) fs"
| "validate_field_type (TyRecord v) = validate_field_type v"
| "validate_field_type _ = Inr ()"

text \<open>\<^verbatim>\<open>if !seen.insert(k) { return Err }\<close>: the names seen so far, with the rest of the check of each item.\<close>

definition check_distinct :: "('a \<Rightarrow> 'k) \<Rightarrow> ('a \<Rightarrow> unit res) \<Rightarrow> ('a \<Rightarrow> unit res) \<Rightarrow> 'a list \<Rightarrow> unit res" where
  "check_distinct key pre post items =
     bindE (foldE (\<lambda>item seen.
        bindE (pre item) (\<lambda>_.
        bindE (ensure (key item \<notin> set seen) SchemaViolation) (\<lambda>_.
        bindE (post item) (\<lambda>_.
        Inr (key item # seen))))) items []) (\<lambda>_. Inr ())"

section \<open>The rules of a table\<close>

definition validate_field_names :: "ext \<Rightarrow> table_def \<Rightarrow> unit res" where
  "validate_field_names x table =
     check_distinct (\<lambda>p. to_lowercase x (fst p))
       (\<lambda>p. ensure (is_valid_identifier (fst p) MAX_FIELD_NAME_LEN) SchemaViolation)
       (\<lambda>p. validate_field_type (snd p)) (td_fields table)"

definition declared_identifier :: "table_def \<Rightarrow> string \<Rightarrow> field_type res" where
  "declared_identifier table field =
     bindE (ensure (is_valid_identifier field MAX_FIELD_NAME_LEN) SchemaViolation) (\<lambda>_.
     check_field_declared field table)"

definition validate_owner_field :: "table_def \<Rightarrow> unit res" where
  "validate_owner_field table =
     each_option (\<lambda>owner.
        bindE (declared_identifier table owner) (\<lambda>fty.
        bindE (indexed_column_type fty) (\<lambda>(pg, _).
        ensure (pg = Text) SchemaViolation))) (td_owner_field table)"

definition validate_collaborators_field :: "table_def \<Rightarrow> unit res" where
  "validate_collaborators_field table =
     each_option (\<lambda>collab.
        bindE (declared_identifier table collab) (\<lambda>fty.
        ensure (is_string_array_field fty) SchemaViolation)) (td_collaborators_field table)"

definition validate_vector_spec :: "table_def \<Rightarrow> index_def \<Rightarrow> vector_index_spec \<Rightarrow> unit res" where
  "validate_vector_spec table index spec =
     bindE (ensure (vs_dimensions spec \<noteq> 0) SchemaViolation) (\<lambda>_.
     bindE (ensure (length (ix_fields index) = 1) SchemaViolation) (\<lambda>_.
     bindE (check_field_declared (hd (ix_fields index)) table) (\<lambda>fty.
     bindE (ensure (fty = TyVector (vs_dimensions spec)) SchemaViolation) (\<lambda>_.
     eachE (\<lambda>ff.
        bindE (check_field_declared ff table) (\<lambda>fty.
        ensure (is_ok (indexed_column_type fty)) SchemaViolation)) (vs_filter_fields spec)))))"

definition validate_btree_field :: "table_def \<Rightarrow> index_def \<Rightarrow> string \<Rightarrow> unit res" where
  "validate_btree_field table index field =
     bindE (check_field_declared field table) (\<lambda>fty.
     bindE (indexed_column_type fty) (\<lambda>(pg, _).
     ensure (\<not> (ix_search index \<and> pg \<noteq> Text)) SchemaViolation))"

definition validate_index_body :: "table_def \<Rightarrow> index_def \<Rightarrow> unit res" where
  "validate_index_body table index =
     bindE (ensure (ix_fields index \<noteq> []) SchemaViolation) (\<lambda>_.
     bindE (ensure (\<not> (ix_search index \<and> ix_vector index \<noteq> None)) SchemaViolation) (\<lambda>_.
     bindE (ensure (\<not> ((ix_unique index \<or> ix_where index \<noteq> None) \<and> (ix_search index \<or> ix_vector index \<noteq> None)))
         SchemaViolation) (\<lambda>_.
     bindE (ensure (\<not> (ix_trgm index \<and> \<not> ix_search index)) SchemaViolation) (\<lambda>_.
     bindE (each_option (\<lambda>lang.
         bindE (ensure (ix_search index) SchemaViolation) (\<lambda>_.
         ensure (is_valid_regconfig lang) SchemaViolation)) (ix_language index)) (\<lambda>_.
     case ix_vector index of
       Some spec \<Rightarrow> validate_vector_spec table index spec
     | None \<Rightarrow>
         check_distinct (\<lambda>f. f) (\<lambda>_. Inr ()) (validate_btree_field table index) (ix_fields index))))))"

definition validate_indexes :: "ext \<Rightarrow> table_def \<Rightarrow> unit res" where
  "validate_indexes x table =
     check_distinct (\<lambda>ix. to_lowercase x (ix_name ix))
       (\<lambda>ix. ensure (is_valid_identifier (ix_name ix) MAX_INDEX_NAME_LEN) SchemaViolation)
       (validate_index_body table) (td_indexes table)"

definition srv_validate_ttl :: "table_def \<Rightarrow> unit res" where
  "srv_validate_ttl table =
     each_option (\<lambda>ttl.
        bindE (declared_identifier table (ttl_field ttl)) (\<lambda>fty.
        bindE (ensure (is_numeric fty) SchemaViolation) (\<lambda>_.
        bindE (ensure (list_ex (is_ttl_index (ttl_field ttl)) (td_indexes table)) SchemaViolation) (\<lambda>_.
        each_option (\<lambda>d. ensure (\<not> d \<le> 0) SchemaViolation) (ttl_default_duration_ms ttl))))) (td_ttl table)"

definition srv_validate_updated_at :: "table_def \<Rightarrow> unit res" where
  "srv_validate_updated_at table =
     each_option (\<lambda>field.
        bindE (declared_identifier table field) (\<lambda>fty.
        bindE (ensure (is_numeric fty) SchemaViolation) (\<lambda>_.
        ensure (\<not> is_ttl_field table field) SchemaViolation))) (td_updated_at_field table)"

definition srv_validate_auto_increment :: "table_def \<Rightarrow> unit res" where
  "srv_validate_auto_increment table =
     each_option (\<lambda>field.
        bindE (declared_identifier table field) (\<lambda>fty.
        bindE (ensure (fty = TyInt64) SchemaViolation) (\<lambda>_.
        bindE (ensure (\<not> is_ttl_field table field) SchemaViolation) (\<lambda>_.
        ensure (td_updated_at_field table \<noteq> Some field) SchemaViolation)))) (td_auto_increment_field table)"

definition validate_defaults :: "ext \<Rightarrow> table_def \<Rightarrow> unit res" where
  "validate_defaults x table =
     eachE (\<lambda>(field, v).
        bindE (check_field_declared field table) (\<lambda>fty.
        bindE (ensure (\<not> is_null v) SchemaViolation) (\<lambda>_.
        bindE (ensure (srv_validate_value x fty v) SchemaViolation) (\<lambda>_.
        srv_check_constraints_for_field x table field v)))) (td_defaults table)"

definition srv_validate_constraints :: "ext \<Rightarrow> table_def \<Rightarrow> unit res" where
  "srv_validate_constraints x table =
     eachE (\<lambda>(field, fc).
        bindE (check_field_declared field table) (\<lambda>fty. srv_validate_constraints_entry x fty fc)) (td_constraints table)"

fun field_has_nested_on_delete :: "field_type \<Rightarrow> bool" where
  "field_has_nested_on_delete (TyId table od) = (od \<noteq> None)"
| "field_has_nested_on_delete (TyOptional inner) = field_has_nested_on_delete inner"
| "field_has_nested_on_delete (TyArray inner) = field_has_nested_on_delete inner"
| "field_has_nested_on_delete (TyRecord inner) = field_has_nested_on_delete inner"
| "field_has_nested_on_delete (TyUnion variants) = list_ex field_has_nested_on_delete variants"
| "field_has_nested_on_delete (TyObject fs) = list_ex (\<lambda>p. field_has_nested_on_delete (snd p)) fs"
| "field_has_nested_on_delete _ = False"

text \<open>The action of a top-level reference, the table it names, and whether the field is optional.\<close>

fun top_level_ref :: "field_type \<Rightarrow> (string \<times> on_delete_action option \<times> bool) option" where
  "top_level_ref (TyId table od) = Some (table, od, False)"
| "top_level_ref (TyOptional (TyId table od)) = Some (table, od, True)"
| "top_level_ref _ = None"

definition validate_on_delete_field :: "table_def \<Rightarrow> string \<times> field_type \<Rightarrow> unit res" where
  "validate_on_delete_field table p =
     (case top_level_ref (snd p) of
        None \<Rightarrow> ensure (\<not> field_has_nested_on_delete (snd p)) SchemaViolation
      | Some (_, None, _) \<Rightarrow> Inr ()
      | Some (_, Some action, optional) \<Rightarrow>
          bindE (ensure (\<not> (action = SetNull \<and> \<not> optional)) SchemaViolation) (\<lambda>_.
          ensure (list_ex (is_ttl_index (fst p)) (td_indexes table)) SchemaViolation))"

definition validate_on_delete :: "table_def \<Rightarrow> unit res" where
  "validate_on_delete table = eachE (validate_on_delete_field table) (td_fields table)"

definition validate_structure :: "ext \<Rightarrow> table_def \<Rightarrow> unit res" where
  "validate_structure x table =
     bindE (validate_field_names x table) (\<lambda>_.
     bindE (validate_owner_field table) (\<lambda>_.
     bindE (validate_collaborators_field table) (\<lambda>_.
     bindE (each_option (\<lambda>a. srv_validate_filter_expr_fields a table True False) (td_authorize table)) (\<lambda>_.
     bindE (validate_indexes x table) (\<lambda>_.
     bindE (srv_validate_ttl table) (\<lambda>_.
     bindE (srv_validate_updated_at table) (\<lambda>_.
     bindE (srv_validate_auto_increment table) (\<lambda>_.
     bindE (validate_defaults x table) (\<lambda>_.
     bindE (srv_validate_constraints x table) (\<lambda>_.
     bindE (srv_validate_computed x table) (\<lambda>_.
     validate_on_delete table)))))))))))"

section \<open>The rules of a schema\<close>

definition check_on_delete_target :: "schema_def \<Rightarrow> string \<times> field_type \<Rightarrow> unit res" where
  "check_on_delete_target schema p =
     (case top_level_ref (snd p) of
        Some (ref_table, Some _, _) \<Rightarrow> ensure (map_of (sd_tables schema) ref_table \<noteq> None) SchemaViolation
      | _ \<Rightarrow> Inr ())"

definition srv_validate :: "ext \<Rightarrow> schema_def \<Rightarrow> unit res" where
  "srv_validate x schema =
     bindE (check_distinct (\<lambda>p. to_lowercase x (fst p))
        (\<lambda>p. ensure (is_valid_identifier (fst p) MAX_TABLE_NAME_LEN) SchemaViolation)
        (\<lambda>p. validate_structure x (snd p)) (sd_tables schema)) (\<lambda>_.
     eachE (\<lambda>p. eachE (check_on_delete_target schema) (td_fields (snd p))) (sd_tables schema))"

definition check_table_quota :: "schema_def \<Rightarrow> nat \<Rightarrow> unit res" where
  "check_table_quota schema cap = ensure (\<not> (0 < cap \<and> cap < length (sd_tables schema))) QuotaExceeded"

section \<open>What an accepted schema satisfies\<close>

lemma check_distinct_ok:
  "check_distinct key pre post items = Inr () \<longleftrightarrow>
   distinct (map key items) \<and> (\<forall>item\<in>set items. pre item = Inr () \<and> post item = Inr ())"
proof -
  have "(\<exists>seen'. foldE (\<lambda>item seen.
        bindE (pre item) (\<lambda>_. bindE (ensure (key item \<notin> set seen) SchemaViolation) (\<lambda>_.
        bindE (post item) (\<lambda>_. Inr (key item # seen))))) items seen = Inr seen')
     \<longleftrightarrow> distinct (map key items) \<and> key ` set items \<inter> set seen = {}
       \<and> (\<forall>item\<in>set items. pre item = Inr () \<and> post item = Inr ())" for seen
    by (induction items arbitrary: seen) auto
  from this[of "[]"] show ?thesis
    by (simp add: check_distinct_def)
qed

lemma check_field_declared_ok [simp]: "check_field_declared f td = Inr ty \<longleftrightarrow> map_of (td_fields td) f = Some ty"
  by (simp add: check_field_declared_def split: option.split)

lemma indexed_column_type_client:
  "indexed_column_type ty = Inr (pg, nullable) \<Longrightarrow> index_column_type ty = Inr \<lparr>it_pg = pg, it_nullable = nullable\<rparr>"
proof (induction ty arbitrary: pg nullable rule: indexed_column_type.induct)
  case (6 v)
  then show ?case
    by (cases v) (auto split: if_splits)
next
  case (7 variants)
  have "is_scalar_string t \<Longrightarrow> is_string_literal t" for t
    by (cases t rule: is_scalar_string.cases; cases t rule: is_string_literal.cases) auto
  then have "list_all is_string_literal variants"
    using 7 by (auto simp: is_string_literal_union_def list_all_iff split: if_splits)
  then show ?case
    using 7 by (auto split: if_splits)
qed (auto split: prod.splits)

lemma ensure_not:
  "ensure (\<not> b) e = (if b then Inl e else Inr ())"
  "bindE (if b then Inl e else r) f = (if b then Inl e else bindE r f)"
  by (simp_all add: ensure_def)

lemma srv_check_constraints_eq: "srv_check_constraints_for_field x td f v = check_constraints_for_field x td f v"
  unfolding srv_check_constraints_for_field_def check_constraints_for_field_def Let_def ensure_not bindE_simps ..

lemma srv_constraints_entry_ok:
  "srv_validate_constraints_entry x ty fc = Inr () \<longleftrightarrow> validate_constraints_entry x ty fc = Inr ()"
  by (auto simp: srv_validate_constraints_entry_def validate_constraints_entry_def check_bound_def Let_def
      split: option.splits if_splits)

lemma leaf_markers:
  "srv_validate_filter_at td False rel depth e = Inr () \<Longrightarrow> filter_expr_marker_field e = None"
proof (induction td "False" rel depth e rule: srv_validate_filter_at.induct)
  case (1 td rel depth es)
  then have "filter_expr_marker_field e = None" if "e \<in> set es" for e
    using that by simp
  then show ?case
    by (induction es) auto
next
  case (2 td rel depth es)
  then have "filter_expr_marker_field e = None" if "e \<in> set es" for e
    using that by simp
  then show ?case
    by (induction es) auto
qed (auto simp: marked_field_def check_scalar_leaf_def check_no_marker_def list_ex_iff)

lemma leaf_relative:
  "srv_validate_filter_at td m False depth e = Inr () \<Longrightarrow> \<not> filter_expr_has_older_than e"
  by (induction td m "False" depth e rule: srv_validate_filter_at.induct) (auto simp: list_ex_iff)

lemma case_whens_client:
  "srv_validate_case_whens td e = Inr () \<Longrightarrow> validate_computed_case_whens e = Inr ()"
  "srv_validate_case_when td w = Inr () \<Longrightarrow> validate_case_when w = Inr ()"
  by (induction td e and td w rule: srv_validate_case_whens_srv_validate_case_when.induct)
     (auto simp: srv_validate_filter_expr_fields_def leaf_markers leaf_relative)

text \<open>The sample of a static kind: a value of one of three scalar forms.\<close>

lemma srv_kind_client:
  assumes "b64_decode x ''s'' = None" "srv_validate_value x ty (kind_sample kind)"
  shows "validate_value ty (kind_sample kind)"
  using assms(2)
proof (induction ty)
  case TyInt64
  then show ?case
    by (cases kind) (auto simp: is_valid_int64_def parse_i64_def strip_sign_def all_digits_def is_digit_def)
next
  case TyBytes
  then show ?case
    using assms(1) by (cases kind) (auto simp: is_valid_base64_def)
qed (use assms in \<open>(cases kind; auto simp: is_valid_id_def is_hex_id_def)+\<close>)

text \<open>Partial-index predicates that do not depend on the clock.\<close>

definition absolute_indexes :: "schema_def \<Rightarrow> bool" where
  "absolute_indexes schema =
     list_all (\<lambda>(t, td). list_all (\<lambda>ix. case ix_where ix of
        Some p \<Rightarrow> \<not> filter_expr_has_older_than p | None \<Rightarrow> True) (td_indexes td)) (sd_tables schema)"

lemma server_schema_ok:
  assumes ok: "srv_validate x schema = Inr ()"
    and b64: "b64_decode x ''s'' = None"
    and absolute: "absolute_indexes schema"
  shows "validate_schema x schema = Inr ()"
proof -
  have "validate_table x td = Inr ()" if mem: "(t, td) \<in> set (sd_tables schema)" for t td
  proof -
    have st: "validate_structure x td = Inr ()"
      using ok mem by (auto simp: srv_validate_def check_distinct_ok)
    note rules = st[unfolded validate_structure_def, simplified]
    have c1: "validate_constraints x td = Inr ()"
      using rules by (fastforce simp: srv_validate_constraints_def validate_constraints_def srv_constraints_entry_ok)
    have c2: "\<not> filter_expr_has_older_than a" if "td_authorize td = Some a" for a
      using rules that by (auto simp: srv_validate_filter_expr_fields_def leaf_relative)
    have c3: "validate_index td ix = Inr ()" if "ix \<in> set (td_indexes td)" for ix
    proof -
      have "validate_index_body td ix = Inr ()"
        using rules that by (auto simp: validate_indexes_def check_distinct_ok)
      then show ?thesis
        using absolute mem that
        by (fastforce simp: absolute_indexes_def list_all_iff validate_index_body_def validate_index_def validate_btree_field_def validate_index_field_def
            check_distinct_ok split: option.splits prod.splits dest!: indexed_column_type_client)
    qed
    have c4: "validate_ttl td ttl = Inr ()" if "td_ttl td = Some ttl" for ttl
      using rules that by (auto simp: srv_validate_ttl_def validate_ttl_def declared_identifier_def split: option.splits)
    have c5: "validate_updated_at td f = Inr ()" if "td_updated_at_field td = Some f" for f
      using rules that by (auto simp: srv_validate_updated_at_def validate_updated_at_def declared_identifier_def)
    have c6: "validate_auto_increment td f = Inr ()" if "td_auto_increment_field td = Some f" for f
      using rules that by (auto simp: srv_validate_auto_increment_def validate_auto_increment_def declared_identifier_def)
    have "validate_computed_entry td e = Inr ()" if "srv_validate_computed_entry x td e = Inr ()" for e
      using that srv_kind_client[OF b64]
      by (auto simp: srv_validate_computed_entry_def validate_computed_entry_def srv_accepts_kind_def accepts_kind_def
          case_whens_client split: option.splits)
    then have c7: "validate_computed td = Inr ()"
      using rules by (auto simp: srv_validate_computed_def validate_computed_def split: option.splits)
    show ?thesis
      using c1 c2 c3 c4 c5 c6 c7 by (simp add: validate_table_def)
  qed
  then show ?thesis
    by (auto simp: validate_schema_def)
qed

text \<open>
  C27: whatever schema the server's structural validation accepts, the in-memory engine
  accepts too, so a schema that works against the server works in tests; partial-index
  predicates relative to the clock, which the server rejects when it compiles them, are
  excluded.
\<close>

theorem server_schema_accepted:
  assumes "srv_validate x schema = Inr ()" "b64_decode x ''s'' = None"
    and "absolute_indexes schema"
  shows "validate_schema x schema = Inr ()"
  using assms by (rule server_schema_ok)

text \<open>
  A schema of two tables: accounts with a unique handle and an expiry, and posts that are
  deleted with their account.  The decoder rejects what is not a multiple of four characters.
\<close>

definition board_accounts :: table_def where
  "board_accounts = empty_table\<lparr>
     td_fields := [(''expires'', TyNumber), (''handle'', TyString), (''karma'', TyInt64),
       (''shown'', TyOptional TyString)],
     td_indexes := [plain_index ''by_expires'' [''expires''] False, plain_index ''by_handle'' [''handle''] True],
     td_ttl := Some \<lparr>ttl_field = ''expires'', ttl_default_duration_ms = Some 1000\<rparr>,
     td_computed := [(''shown'', VUpper (VField ''handle''))]\<rparr>"

definition board_posts :: table_def where
  "board_posts = empty_table\<lparr>
     td_fields := [(''account'', TyId ''accounts'' (Some Cascade)), (''body'', TyString)],
     td_indexes := [plain_index ''by_account'' [''account''] False]\<rparr>"

definition board_schema :: schema_def where
  "board_schema = \<lparr>sd_tables = [(''accounts'', board_accounts), (''posts'', board_posts)]\<rparr>"

definition board_ext :: ext where
  "board_ext = sample_ext\<lparr>b64_decode := \<lambda>s. if length s mod 4 = 0 then Some s else None\<rparr>"

theorem server_schema_accepted_witness:
  "srv_validate board_ext board_schema = Inr () \<and> validate_schema board_ext board_schema = Inr ()"
proof -
  have ok: "srv_validate board_ext board_schema = Inr ()"
    by code_simp
  have b64: "b64_decode board_ext ''s'' = None"
    by code_simp
  have "absolute_indexes board_schema"
    by code_simp
  then show ?thesis
    using ok server_schema_accepted[OF ok b64] by blast
qed

section \<open>Documents\<close>

text \<open>
  The types without bytes: the in-memory engine checks only the shape of base64 text, where
  the server decodes it.
\<close>

fun bytes_free :: "field_type \<Rightarrow> bool" where
  "bytes_free TyBytes = False"
| "bytes_free (TyOptional inner) = bytes_free inner"
| "bytes_free (TyUnion variants) = list_all bytes_free variants"
| "bytes_free (TyArray element) = bytes_free element"
| "bytes_free (TyObject fs) = list_all (\<lambda>p. bytes_free (snd p)) fs"
| "bytes_free (TyRecord t) = bytes_free t"
| "bytes_free _ = True"

lemma client_value_ok: "validate_value ty v \<Longrightarrow> bytes_free ty \<Longrightarrow> srv_validate_value x ty v"
proof (induction ty v rule: validate_value.induct)
  case (10 fs v)
  then show ?case
    by (fastforce simp: list_all_iff split: option.splits)
qed (auto simp: is_hex_id_def is_valid_id_def is_int64_string_def is_valid_int64_def list_all_iff Let_def
    split: option.splits)

text \<open>
  C28: a document the in-memory engine stores is one the server stores, on every table
  without byte fields: what passes in tests is not rejected in production.
\<close>

theorem client_document_accepted:
  assumes "validate_doc x td (JObject d) = Inr ()" "\<forall>p\<in>set (td_fields td). bytes_free (snd p)"
  shows "srv_validate_doc x td d = Inr ()"
proof -
  have "srv_validate_field x td d p = Inr ()" if "p \<in> set (td_fields td)" "validate_field x td d p = Inr ()" for p
    using that assms(2)
    by (auto simp: srv_validate_field_def validate_field_def srv_check_constraints_eq client_value_ok
        split: option.splits if_splits)
  then show ?thesis
    using assms(1) by (auto simp: srv_validate_doc_def validate_doc_def split: if_splits)
qed

theorem client_document_accepted_witness:
  "srv_validate_doc board_ext board_accounts [(''expires'', json_of_int 9), (''handle'', JString ''ann''), (''karma'', JString ''7'')] = Inr ()"
proof -
  have ok: "validate_doc board_ext board_accounts
      (JObject [(''expires'', json_of_int 9), (''handle'', JString ''ann''), (''karma'', JString ''7'')]) = Inr ()"
    by code_simp
  have free: "\<forall>p\<in>set (td_fields board_accounts). bytes_free (snd p)"
    by (simp add: board_accounts_def)
  show ?thesis
    by (rule client_document_accepted[OF ok free])
qed

text \<open>The converse fails: an explicit plus sign parses on the server and is refused in memory.\<close>

lemma signed_int64_diverges:
  "srv_validate_value x TyInt64 (JString ''+7'') \<and> \<not> validate_value TyInt64 (JString ''+7'')"
proof -
  have "parse_i64 ''+7'' = Some 7" "\<not> is_int64_string (JString ''+7'')"
    by code_simp+
  then show ?thesis
    by (simp add: is_valid_int64_def)
qed

end
