(* ===== verification/Server_Plan.thy ===== *)
theory Server_Plan
  imports Migrate Server_Structure
begin

text \<open>
  The planning half of the server's migrations (\<^verbatim>\<open>server/src/migrate/plan.rs\<close>): each directive
  folded into the schema, without touching rows.  The in-memory engine folds the same
  directives; the section on agreement says when the two derive the same schema, and which
  directives they treat differently.
\<close>

section \<open>Directives\<close>

definition rename_field_refs :: "string \<Rightarrow> string \<Rightarrow> table_def \<Rightarrow> table_def" where
  "rename_field_refs from to t =
     t\<lparr>td_indexes := map (\<lambda>ix. ix\<lparr>ix_fields := map (rename_name from to) (ix_fields ix)\<rparr>) (td_indexes t),
       td_owner_field := map_option (rename_name from to) (td_owner_field t),
       td_collaborators_field := map_option (rename_name from to) (td_collaborators_field t),
       td_auto_increment_field := map_option (rename_name from to) (td_auto_increment_field t),
       td_updated_at_field := map_option (rename_name from to) (td_updated_at_field t),
       td_ttl := map_option (\<lambda>ttl. ttl\<lparr>ttl_field := rename_name from to (ttl_field ttl)\<rparr>) (td_ttl t),
       td_authorize := map_option (rename_filter_fields from to) (td_authorize t),
       td_computed := map (\<lambda>(k, e). (k, rename_value_expr_fields from to e)) (td_computed t)\<rparr>"

definition plan_rename_field :: "schema_def \<Rightarrow> string \<Rightarrow> string \<Rightarrow> string \<Rightarrow> schema_def res" where
  "plan_rename_field schema table from to =
     bindE (migrate_table schema table) (\<lambda>t.
     bindE (ensure (map_of (td_fields t) to = None) BadRequest) (\<lambda>_.
     case map_of (td_fields t) from of
       None \<Rightarrow> Inl BadRequest
     | Some ft \<Rightarrow>
         Inr (put_table table (rename_field_refs from to
           (t\<lparr>td_fields := bt_insert to ft (bt_remove from (td_fields t)),
              td_computed := rekey from to (td_computed t),
              td_defaults := rekey from to (td_defaults t),
              td_constraints := rekey from to (td_constraints t)\<rparr>)) schema)))"

definition plan_rename_table :: "schema_def \<Rightarrow> string \<Rightarrow> string \<Rightarrow> schema_def res" where
  "plan_rename_table schema from to =
     bindE (ensure (map_of (sd_tables schema) to = None) BadRequest) (\<lambda>_.
     bindE (migrate_table schema from) (\<lambda>def.
     let others = map (\<lambda>(n, t). (n, retarget_table from to t)) (bt_remove from (sd_tables schema))
     in Inr (schema\<lparr>sd_tables := bt_insert to (retarget_table from to def) others\<rparr>)))"

definition plan_change_type ::
  "ext \<Rightarrow> schema_def \<Rightarrow> string \<Rightarrow> string \<Rightarrow> field_type \<Rightarrow> cast \<Rightarrow> schema_def res" where
  "plan_change_type x schema table field new_ty c =
     bindE (migrate_table schema table) (\<lambda>t.
     case map_of (td_fields t) field of
       None \<Rightarrow> Inl BadRequest
     | Some old_ty \<Rightarrow>
         bindE (ensure (cast_valid_for c old_ty) BadRequest) (\<lambda>_.
         bindE (each_option (srv_validate_constraints_entry x new_ty) (map_of (td_constraints t) field)) (\<lambda>_.
         Inr (put_table table (t\<lparr>td_fields := bt_insert field new_ty (td_fields t),
           td_defaults := bt_remove field (td_defaults t)\<rparr>) schema))))"

fun filter_expr_references_field :: "filter_expr \<Rightarrow> string \<Rightarrow> bool" where
  "filter_expr_references_field (FAnd es) field = list_ex (\<lambda>e. filter_expr_references_field e field) es"
| "filter_expr_references_field (FOr es) field = list_ex (\<lambda>e. filter_expr_references_field e field) es"
| "filter_expr_references_field (FNot e) field = filter_expr_references_field e field"
| "filter_expr_references_field (FEq f v) field = (f = field)"
| "filter_expr_references_field (FNeq f v) field = (f = field)"
| "filter_expr_references_field (FGt f v) field = (f = field)"
| "filter_expr_references_field (FGte f v) field = (f = field)"
| "filter_expr_references_field (FLt f v) field = (f = field)"
| "filter_expr_references_field (FLte f v) field = (f = field)"
| "filter_expr_references_field (FIn f vs) field = (f = field)"
| "filter_expr_references_field (FContains f v) field = (f = field)"
| "filter_expr_references_field (FExists f) field = (f = field)"
| "filter_expr_references_field (FOlderThan f ms) field = (f = field)"

definition clear_ttl :: "string \<Rightarrow> ttl_def option \<Rightarrow> ttl_def option" where
  "clear_ttl field v = (case v of Some ttl \<Rightarrow> if ttl_field ttl = field then None else v | None \<Rightarrow> None)"

definition plan_drop_field :: "schema_def \<Rightarrow> string \<Rightarrow> string \<Rightarrow> schema_def res" where
  "plan_drop_field schema table field =
     bindE (migrate_table schema table) (\<lambda>t.
     bindE (each_option (\<lambda>a. ensure (\<not> filter_expr_references_field a field) BadRequest) (td_authorize t)) (\<lambda>_.
     bindE (ensure (map_of (td_fields t) field \<noteq> None) BadRequest) (\<lambda>_.
     bindE (ensure (\<not> computed_reads t field) BadRequest) (\<lambda>_.
     Inr (put_table table
       (t\<lparr>td_fields := bt_remove field (td_fields t),
          td_indexes := map (\<lambda>ix. ix\<lparr>ix_fields := filter (\<lambda>f. f \<noteq> field) (ix_fields ix)\<rparr>) (td_indexes t),
          td_owner_field := clear_name field (td_owner_field t),
          td_collaborators_field := clear_name field (td_collaborators_field t),
          td_auto_increment_field := clear_name field (td_auto_increment_field t),
          td_updated_at_field := clear_name field (td_updated_at_field t),
          td_ttl := clear_ttl field (td_ttl t),
          td_computed := bt_remove field (td_computed t),
          td_defaults := bt_remove field (td_defaults t),
          td_constraints := bt_remove field (td_constraints t)\<rparr>) schema)))))"

definition plan_drop_table :: "schema_def \<Rightarrow> string \<Rightarrow> schema_def res" where
  "plan_drop_table schema name =
     bindE (migrate_table schema name) (\<lambda>_. Inr (schema\<lparr>sd_tables := bt_remove name (sd_tables schema)\<rparr>))"

definition plan_drop_index :: "schema_def \<Rightarrow> string \<Rightarrow> string \<Rightarrow> schema_def res" where
  "plan_drop_index schema table name =
     bindE (migrate_table schema table) (\<lambda>t.
     bindE (ensure (has_index name t) BadRequest) (\<lambda>_.
     Inr (put_table table (drop_index name t) schema)))"

definition plan_set_default :: "schema_def \<Rightarrow> string \<Rightarrow> string \<Rightarrow> schema_def res" where
  "plan_set_default schema table field =
     bindE (migrate_table schema table) (\<lambda>t.
     bindE (ensure (map_of (td_fields t) field \<noteq> None) BadRequest) (\<lambda>_. Inr schema))"

fun validate_value_expr_fields :: "table_def \<Rightarrow> value_expr \<Rightarrow> unit res"
  and validate_case_when_fields :: "table_def \<Rightarrow> case_when \<Rightarrow> unit res" where
  "validate_value_expr_fields table (VField field) = ensure (map_of (td_fields table) field \<noteq> None) BadRequest"
| "validate_value_expr_fields table (VLiteral v) = Inr ()"
| "validate_value_expr_fields table VNow = Inr ()"
| "validate_value_expr_fields table (VConcat parts) = eachE (validate_value_expr_fields table) parts"
| "validate_value_expr_fields table (VCoalesce parts) = eachE (validate_value_expr_fields table) parts"
| "validate_value_expr_fields table (VAdd l r) =
     bindE (validate_value_expr_fields table l) (\<lambda>_. validate_value_expr_fields table r)"
| "validate_value_expr_fields table (VSub l r) =
     bindE (validate_value_expr_fields table l) (\<lambda>_. validate_value_expr_fields table r)"
| "validate_value_expr_fields table (VMul l r) =
     bindE (validate_value_expr_fields table l) (\<lambda>_. validate_value_expr_fields table r)"
| "validate_value_expr_fields table (VDiv l r) =
     bindE (validate_value_expr_fields table l) (\<lambda>_. validate_value_expr_fields table r)"
| "validate_value_expr_fields table (VLower v) = validate_value_expr_fields table v"
| "validate_value_expr_fields table (VUpper v) = validate_value_expr_fields table v"
| "validate_value_expr_fields table (VTrim v) = validate_value_expr_fields table v"
| "validate_value_expr_fields table (VCast v to) = validate_value_expr_fields table v"
| "validate_value_expr_fields table (VCase whens otherwise) =
     bindE (eachE (validate_case_when_fields table) whens) (\<lambda>_. validate_value_expr_fields table otherwise)"
| "validate_case_when_fields table (CaseWhen w t) =
     bindE (as_bad_request (srv_validate_filter_expr_fields w table False False)) (\<lambda>_.
     validate_value_expr_fields table t)"

definition plan_eval_expr ::
  "schema_def \<Rightarrow> string \<Rightarrow> string \<Rightarrow> expr_source \<Rightarrow> cond_source option \<Rightarrow> schema_def res" where
  "plan_eval_expr schema table field e where_clause =
     bindE (migrate_table schema table) (\<lambda>t.
     bindE (ensure (is_valid_identifier field MAX_FIELD_NAME_LEN) BadRequest) (\<lambda>_.
     bindE (case e of TypedExpr ve \<Rightarrow> validate_value_expr_fields t ve | LegacyExpr _ \<Rightarrow> Inr ()) (\<lambda>_.
     bindE (case where_clause of
              Some (TypedCond f) \<Rightarrow> as_bad_request (srv_validate_filter_expr_fields f t False False)
            | _ \<Rightarrow> Inr ()) (\<lambda>_.
     Inr schema))))"

fun validate_one :: "ext \<Rightarrow> schema_def \<Rightarrow> directive \<Rightarrow> schema_def res" where
  "validate_one x schema (RenameField table from to) = plan_rename_field schema table from to"
| "validate_one x schema (RenameTable from to) = plan_rename_table schema from to"
| "validate_one x schema (ChangeType table field to c d) = plan_change_type x schema table field to c"
| "validate_one x schema (DropField table field) = plan_drop_field schema table field"
| "validate_one x schema (DropTable name) = plan_drop_table schema name"
| "validate_one x schema (DropIndex table name) = plan_drop_index schema table name"
| "validate_one x schema (SetDefault table field v) = plan_set_default schema table field"
| "validate_one x schema (EvalExpr table field e w) = plan_eval_expr schema table field e w"

definition plan_migration :: "ext \<Rightarrow> schema_def \<Rightarrow> directive list \<Rightarrow> schema_def res" where
  "plan_migration x old directives =
     bindE (foldE (\<lambda>d schema. validate_one x schema d) directives old) (\<lambda>schema.
     bindE (eachE (srv_validate_computed x \<circ> snd) (sd_tables schema)) (\<lambda>_.
     bindE (eachE (srv_validate_constraints x \<circ> snd) (sd_tables schema)) (\<lambda>_.
     Inr schema)))"

section \<open>Agreement with the in-memory engine\<close>

text \<open>
  The cases in which the two folds differ: a rename of a constrained field, of a table that
  refers to itself, a retyped field with a default, a dropped field that one of the
  declarations names which only the server clears, and computed back-fills, which the
  in-memory engine has no evaluator for.
\<close>

fun portable :: "schema_def \<Rightarrow> directive \<Rightarrow> bool" where
  "portable schema (RenameField table from to) = on_table schema table (\<lambda>t. map_of (td_constraints t) from = None)"
| "portable schema (RenameTable from to) =
     on_table schema from (\<lambda>t. list_all (\<lambda>(f, ft). retarget from to ft = ft) (td_fields t))"
| "portable schema (ChangeType table field to c d) = on_table schema table (\<lambda>t. map_of (td_defaults t) field = None)"
| "portable schema (DropField table field) =
     on_table schema table (\<lambda>t.
       td_auto_increment_field t \<noteq> Some field \<and> td_updated_at_field t \<noteq> Some field \<and> \<not> is_ttl_field t field
       \<and> map_of (td_defaults t) field = None \<and> map_of (td_constraints t) field = None)"
| "portable schema (EvalExpr table field e w) = False"
| "portable schema _ = True"

fun is_change_type :: "directive \<Rightarrow> bool" where
  "is_change_type (ChangeType table field to c d) = True"
| "is_change_type _ = False"

lemma bt_remove_absent: "map_of m k = None \<Longrightarrow> bt_remove k m = m"
  by (auto simp: bt_remove_def map_of_eq_None_iff filter_id_conv)

lemma clear_ttl_absent: "\<not> is_ttl_field t f \<Longrightarrow> clear_ttl f (td_ttl t) = td_ttl t"
  by (auto simp: is_ttl_field_def clear_ttl_def split: option.splits)

lemma retarget_table_id: "list_all (\<lambda>(f, ft). retarget from to ft = ft) (td_fields t) \<Longrightarrow> retarget_table from to t = t"
  by (auto simp: retarget_table_def list_all_iff intro: map_idI[THEN arg_cong[where f = "\<lambda>fs. t\<lparr>td_fields := fs\<rparr>"], THEN trans])

lemma rename_field_refs_client:
  assumes "map_of (td_constraints t) from = None"
  shows "rename_field_refs from to
      (t\<lparr>td_fields := bt_insert to ft (bt_remove from (td_fields t)),
         td_computed := rekey from to (td_computed t),
         td_defaults := rekey from to (td_defaults t),
         td_constraints := rekey from to (td_constraints t)\<rparr>) = rename_table_field from to ft t"
  using assms
  by (intro table_def.equality)
     (simp_all add: rename_field_refs_def rename_table_field_def rekey_def[of _ _ "td_constraints t"])

lemma drop_field_client:
  assumes "td_auto_increment_field t \<noteq> Some field" "td_updated_at_field t \<noteq> Some field"
    "\<not> is_ttl_field t field" "map_of (td_defaults t) field = None" "map_of (td_constraints t) field = None"
  shows "t\<lparr>td_fields := bt_remove field (td_fields t),
          td_indexes := map (\<lambda>ix. ix\<lparr>ix_fields := filter (\<lambda>f. f \<noteq> field) (ix_fields ix)\<rparr>) (td_indexes t),
          td_owner_field := clear_name field (td_owner_field t),
          td_collaborators_field := clear_name field (td_collaborators_field t),
          td_auto_increment_field := clear_name field (td_auto_increment_field t),
          td_updated_at_field := clear_name field (td_updated_at_field t),
          td_ttl := clear_ttl field (td_ttl t),
          td_computed := bt_remove field (td_computed t),
          td_defaults := bt_remove field (td_defaults t),
          td_constraints := bt_remove field (td_constraints t)\<rparr> = drop_table_field field t"
  using assms
  by (intro table_def.equality)
     (simp_all add: drop_table_field_def bt_remove_absent clear_ttl_absent clear_name_def)

lemma run_rewrite_rows:
  "rewrite_rows op table f p planned s =
     (Inr (planned, \<lparr>dr_op = op, dr_affected_rows = count_rows table p (c_docs s)\<rparr>, Some table),
      s\<lparr>c_docs := map_rows table f (c_docs s)\<rparr>)"
  by (simp add: rewrite_rows_def run_simps)

lemma validate_one_agrees:
  assumes "validate_one x schema d = Inr schema'" "portable schema d"
  shows "(\<exists>report t s'. apply_migration_directive x schema d s = (Inr (schema', report, t), s'))
     \<or> is_change_type d \<and> fst (apply_migration_directive x schema d s) = Inl BadRequest"
proof (cases d)
  case (RenameField table src dst)
  then show ?thesis
    using assms
    by (auto simp: plan_rename_field_def apply_rename_field_directive_def on_table_def rename_field_refs_client
        run_simps run_rewrite_rows migrate_table_def split: option.splits)
next
  case (RenameTable src dst)
  then show ?thesis
    using assms
    by (auto simp: plan_rename_table_def apply_rename_table_directive_def on_table_def run_simps Let_def
        migrate_table_def retarget_table_id split: option.splits)
next
  case (ChangeType table field to c dflt)
  obtain t old_ty where t: "migrate_table schema table = Inr t" "map_of (td_fields t) field = Some old_ty"
    "cast_valid_for c old_ty"
    and sch: "schema' = put_table table (t\<lparr>td_fields := bt_insert field to (td_fields t),
       td_defaults := bt_remove field (td_defaults t)\<rparr>) schema"
    using assms(1) ChangeType by (auto simp: plan_change_type_def split: option.splits)
  have err: "e = BadRequest" if "change_rows x table field c dflt docs = (Inl e, docs')" for e docs docs'
    using that
    by (induction x table field c dflt docs arbitrary: e docs' rule: change_rows.induct)
       (auto simp: bindE_eq_Inl split: if_splits option.splits prod.splits)
  have "td_defaults t = bt_remove field (td_defaults t)"
    using assms(2) t(1) ChangeType by (auto simp: on_table_def migrate_table_def bt_remove_absent split: option.splits)
  then have "schema' = put_table table (t\<lparr>td_fields := bt_insert field to (td_fields t)\<rparr>) schema"
    using sch by simp
  then show ?thesis
    using ChangeType t err
    by (cases "change_rows x table field c dflt (c_docs s)"; cases "fst (change_rows x table field c dflt (c_docs s))")
       (auto simp: apply_change_type_directive_def run_simps)
next
  case (DropField table field)
  then show ?thesis
    using assms
    by (auto simp: plan_drop_field_def apply_drop_field_directive_def on_table_def drop_field_client run_simps
        run_rewrite_rows migrate_table_def split: option.splits)
next
  case (DropTable name)
  then show ?thesis
    using assms by (auto simp: plan_drop_table_def apply_drop_table_directive_def run_simps)
next
  case (DropIndex table name)
  then show ?thesis
    using assms by (auto simp: plan_drop_index_def apply_drop_index_directive_def run_simps)
next
  case (SetDefault table field v)
  then show ?thesis
    using assms by (auto simp: plan_set_default_def apply_set_default_directive_def run_simps run_rewrite_rows)
qed (use assms in simp)

text \<open>A batch outside those cases, each directive judged at the schema planned before it.\<close>

fun portable_batch :: "ext \<Rightarrow> schema_def \<Rightarrow> directive list \<Rightarrow> bool" where
  "portable_batch x schema [] = True"
| "portable_batch x schema (d # ds) =
     (portable schema d \<and>
      (case validate_one x schema d of Inl _ \<Rightarrow> True | Inr schema' \<Rightarrow> portable_batch x schema' ds))"

lemma batch_agrees:
  assumes "foldE (\<lambda>d schema. validate_one x schema d) ds schema = Inr schema'" "portable_batch x schema ds"
  shows "(\<exists>reports t s'. apply_directives x schema ds s = (Inr (schema', reports, t), s'))
     \<or> list_ex is_change_type ds \<and> fst (apply_directives x schema ds s) = Inl BadRequest"
  using assms
proof (induction ds arbitrary: schema s)
  case Nil
  then show ?case by (simp add: run_simps)
next
  case (Cons d ds)
  obtain mid where mid: "validate_one x schema d = Inr mid"
    "foldE (\<lambda>d schema. validate_one x schema d) ds mid = Inr schema'" "portable schema d" "portable_batch x mid ds"
    using Cons.prems by (cases "validate_one x schema d") auto
  consider (ok) report t s1 where "apply_migration_directive x schema d s = (Inr (mid, report, t), s1)"
    | (failed) s1 where "is_change_type d" "apply_migration_directive x schema d s = (Inl BadRequest, s1)"
    using validate_one_agrees[OF mid(1,3), of s] by (metis prod.collapse)
  then show ?case
  proof cases
    case ok
    then show ?thesis
      using Cons.IH[OF mid(2,4), of s1]
      by (cases "apply_directives x mid ds s1") (auto simp: run_simps)
  next
    case failed
    then show ?thesis by (simp add: run_simps)
  qed
qed

text \<open>
  C29: a migration the server plans and whose derived schema it validates is a migration the
  in-memory engine runs, to the same schema, when the batch is outside the cases in which the
  two folds differ.  Only a retype of rows that cannot be coerced can still fail, and it fails
  with a bad request.
\<close>

theorem server_migration_accepted:
  assumes "c_schema s = Some old" "plan_migration x old ds = Inr derived"
    and valid: "srv_validate x derived = Inr ()"
    and "portable_batch x old ds" "b64_decode x ''s'' = None"
    and absolute: "absolute_indexes derived"
  shows "(\<exists>r touched s'. migrate_schema x ds dry_run s = (Inr (r, touched), s') \<and> mr_schema r = derived)
     \<or> list_ex is_change_type ds \<and> fst (migrate_schema x ds dry_run s) = Inl BadRequest"
proof -
  have fold: "foldE (\<lambda>d schema. validate_one x schema d) ds old = Inr derived"
    using assms(2) by (simp add: plan_migration_def)
  have "validate_schema x derived = Inr ()"
    using valid assms(5) absolute by (rule server_schema_ok)
  then show ?thesis
    using batch_agrees[OF fold assms(4), of s] assms(1)
    by (cases "apply_directives x old ds s"; cases dry_run) (auto simp: migrate_schema_def restoring_docs_def run_simps)
qed

definition board_client :: client where
  "board_client = (new_client (\<lambda>n. 1000 + int n) (\<lambda>n. Fin 0))
     \<lparr>c_schema := Some board_schema, c_tables := sd_tables board_schema,
      c_docs := [sample_entry ''accounts'' CHR ''a''
                   [(''expires'', json_of_int 9), (''handle'', JString ''ann''), (''karma'', JString ''7''),
                    (''shown'', JString ''ANN'')],
                 sample_entry ''posts'' CHR ''b''
                   [(''account'', JString (sample_id CHR ''a'')), (''body'', JString ''hi'')]]\<rparr>"

definition board_migration :: "directive list" where
  "board_migration = [RenameField ''accounts'' ''handle'' ''nick'', DropField ''accounts'' ''karma'',
     RenameTable ''accounts'' ''members'', SetDefault ''posts'' ''body'' (JString [])]"

definition board_derived :: schema_def where
  "board_derived = (case plan_migration board_ext board_schema board_migration of Inr d \<Rightarrow> d | Inl _ \<Rightarrow> board_schema)"

theorem server_migration_accepted_witness:
  "plan_migration board_ext board_schema board_migration = Inr board_derived
   \<and> (\<exists>r touched s'. migrate_schema board_ext board_migration False board_client = (Inr (r, touched), s')
        \<and> mr_schema r = board_derived)"
proof -
  have planned: "is_ok (plan_migration board_ext board_schema board_migration)"
    by code_simp
  then have plan: "plan_migration board_ext board_schema board_migration = Inr board_derived"
    by (auto simp: board_derived_def split: sum.splits)
  have valid: "srv_validate board_ext board_derived = Inr ()"
    by code_simp
  have rest: "portable_batch board_ext board_schema board_migration" "b64_decode board_ext ''s'' = None"
    "absolute_indexes board_derived" "\<not> list_ex is_change_type board_migration"
    by code_simp+
  have "c_schema board_client = Some board_schema"
    by (simp add: board_client_def)
  then show ?thesis
    using server_migration_accepted[OF _ plan valid rest(1-3), of board_client False] rest(4) plan by blast
qed

text \<open>
  The divergent cases are real.  Renaming a constrained field and dropping the field of a
  modification stamp are planned by the server and fail in memory; after renaming a table
  that refers to itself, the in-memory schema still names the old table.
\<close>

definition tree_schema :: schema_def where
  "tree_schema = \<lparr>sd_tables = [(''nodes'', empty_table\<lparr>
     td_fields := [(''label'', TyString), (''parent'', TyOptional (TyId ''nodes'' None)), (''root'', TyId ''nodes'' None),
       (''touched'', TyNumber)],
     td_constraints := [(''label'', \<lparr>fc_min = None, fc_max = None, fc_min_length = Some 1, fc_max_length = None,
       fc_pattern = None\<rparr>)],
     td_updated_at_field := Some ''touched''\<rparr>)]\<rparr>"

definition tree_client :: client where
  "tree_client = (new_client (\<lambda>n. 1000 + int n) (\<lambda>n. Fin 0))
     \<lparr>c_schema := Some tree_schema, c_tables := sd_tables tree_schema\<rparr>"

definition field_of :: "schema_def \<Rightarrow> string \<Rightarrow> string \<Rightarrow> field_type option" where
  "field_of schema table f = Option.bind (map_of (sd_tables schema) table) (\<lambda>t. map_of (td_fields t) f)"

lemma constrained_rename_diverges:
  "is_ok (plan_migration board_ext tree_schema [RenameField ''nodes'' ''label'' ''title''])
   \<and> fst (migrate_schema board_ext [RenameField ''nodes'' ''label'' ''title''] False tree_client) = Inl SchemaViolation"
  by code_simp

lemma stamped_drop_diverges:
  "is_ok (plan_migration board_ext tree_schema [DropField ''nodes'' ''touched''])
   \<and> fst (migrate_schema board_ext [DropField ''nodes'' ''touched''] False tree_client) = Inl SchemaViolation"
  by code_simp

lemma self_reference_diverges:
  "(case plan_migration board_ext tree_schema [RenameTable ''nodes'' ''items''] of
      Inr planned \<Rightarrow> field_of planned ''items'' ''root'' = Some (TyId ''items'' None)
        \<and> field_of planned ''items'' ''parent'' = Some (TyOptional (TyId ''nodes'' None))
    | Inl _ \<Rightarrow> False)
   \<and> (case fst (migrate_schema board_ext [RenameTable ''nodes'' ''items''] False tree_client) of
        Inr (r, _) \<Rightarrow> field_of (mr_schema r) ''items'' ''root'' = Some (TyId ''nodes'' None)
      | Inl _ \<Rightarrow> False)"
  by code_simp

end
