(* ===== verification/Migrate_Props.thy ===== *)
theory Migrate_Props
  imports Store_Inv Migrate
begin

text \<open>
  Properties of schema changes: a migration is all or nothing, and the directives that do not
  touch the key of a unique index keep the store invariant, so that the rows a migration
  leaves are rows the engine would have accepted under the new schema.
\<close>

section \<open>Atomicity\<close>

definition docs_only :: "client \<Rightarrow> client \<Rightarrow> bool" where
  "docs_only s s' \<longleftrightarrow> s' = s\<lparr>c_docs := c_docs s'\<rparr>"

interpretation docs_only: preorder_rel docs_only
proof
  show "docs_only s s" for s
    by (simp add: docs_only_def)
  show "docs_only s u" if "docs_only s t" "docs_only t u" for s t u
    using that by (cases s; cases t; cases u) (simp add: docs_only_def)
qed

lemma docs_only_write: "keeps docs_only (modifyM (\<lambda>s. s\<lparr>c_docs := f s\<rparr>))"
  by (rule docs_only.keeps_modify) (simp add: docs_only_def)

lemmas docs_only_rules = docs_only.keeps_rules docs_only_write

lemma docs_only_rewrite: "keeps docs_only (rewrite_rows op table f p planned)"
  unfolding rewrite_rows_def by (intro docs_only_rules)

lemma docs_only_change: "keeps docs_only (\<lambda>s. case g (c_docs s) of (r, docs) \<Rightarrow> (r, s\<lparr>c_docs := docs\<rparr>))"
  by (rule keepsI) (auto simp: docs_only_def split: prod.splits)

lemma docs_only_directive: "keeps docs_only (apply_migration_directive x planned d)"
  by (cases d)
     (auto simp: apply_rename_field_directive_def apply_rename_table_directive_def apply_change_type_directive_def
        apply_drop_field_directive_def apply_drop_table_directive_def apply_drop_index_directive_def
        apply_set_default_directive_def apply_eval_expr_directive_def Let_def
        intro!: docs_only_rules docs_only_rewrite docs_only_change split: option.split)

lemma docs_only_directives: "keeps docs_only (apply_directives x planned ds)"
  by (induction ds arbitrary: planned)
     (auto intro!: docs_only_rules docs_only_directive split: prod.split)

text \<open>
  C1: a migration is all or nothing.  One that fails, and a dry run, leave the whole state as it
  was; one that is applied installs a validated schema with its table map and changes
  nothing else but the rows.
\<close>

theorem migrate_all_or_nothing:
  "case migrate_schema x ds dry_run s of
     (Inl e, s') \<Rightarrow> s' = s
   | (Inr (r, touched), s') \<Rightarrow>
       validate_schema x (mr_schema r) = Inr () \<and> mr_applied r = (\<not> dry_run) \<and>
       (if dry_run then s' = s \<and> touched = {}
        else s' = s\<lparr>c_docs := c_docs s', c_schema := Some (mr_schema r),
                    c_tables := insert_tables (sd_tables (mr_schema r)) []\<rparr>)"
proof (cases "c_schema s")
  case None
  then show ?thesis by (simp add: migrate_schema_def run_simps)
next
  case (Some old)
  obtain r s1 where run: "apply_directives x old ds s = (r, s1)"
    by (cases "apply_directives x old ds s")
  have "s1 = s\<lparr>c_docs := c_docs s1\<rparr>"
    using keepsD[OF docs_only_directives run] by (simp add: docs_only_def)
  then obtain docs where s1: "s1 = s\<lparr>c_docs := docs\<rparr>" ..
  show ?thesis
    using Some run s1
    by (cases r; cases dry_run; cases "validate_schema x (fst (projr r))")
       (auto simp: migrate_schema_def restoring_docs_def run_simps split: prod.splits sum.splits)
qed

section \<open>Rows under the new schema\<close>

definition rows_inv :: "ext \<Rightarrow> (string \<times> table_def) list \<Rightarrow> (row_key \<times> stored_row) list \<Rightarrow> bool" where
  "rows_inv x ts docs \<longleftrightarrow>
     hm_ok docs \<and> (\<forall>e\<in>set docs. row_ok x ts (fst e) (snd e)) \<and> unique_ok x ts docs"

definition doc_valid :: "ext \<Rightarrow> table_def \<Rightarrow> doc \<Rightarrow> bool" where
  "doc_valid x td d \<longleftrightarrow> bt_ok d \<and> validate_doc x td (JObject d) = Inr ()"

text \<open>Documents and fields as finite maps: validity does not depend on how they are listed.\<close>

lemma doc_valid_iff:
  assumes "bt_ok (td_fields td)"
  shows "doc_valid x td d \<longleftrightarrow>
     bt_ok d \<and> (\<forall>k v. map_of d k = Some v \<longrightarrow> \<not> starts_with ''_'' k \<and> map_of (td_fields td) k \<noteq> None)
     \<and> (\<forall>k ft. map_of (td_fields td) k = Some ft \<longrightarrow> validate_field x td d (k, ft) = Inr ())"
proof -
  have fs: "(k, ft) \<in> set (td_fields td) \<longleftrightarrow> map_of (td_fields td) k = Some ft" for k ft
    using assms by (auto simp: bt_ok_def strict_sorted_iff)
  have keys: "k \<in> fst ` set d \<longleftrightarrow> (\<exists>v. map_of d k = Some v)" for k
    by (metis map_of_eq_None_iff option.exhaust option.distinct(1))
  show ?thesis
    unfolding doc_valid_def validate_doc_iff Ball_def split_paired_All fs keys by blast
qed

text \<open>
  A rewrite of the rows of one table keeps the rows valid when each document is valid for the
  new definition and every unique index reads the key of one that was unique before.
\<close>

definition map_row :: "string \<Rightarrow> (doc \<Rightarrow> doc) \<Rightarrow> row_key \<times> stored_row \<Rightarrow> row_key \<times> stored_row" where
  "map_row t f e = (fst e, if fst (fst e) = t then (snd e)\<lparr>row_doc := f (row_doc (snd e))\<rparr> else snd e)"

lemma map_rows_eq: "map_rows t f docs = map (map_row t f) docs"
  by (auto simp: map_rows_def map_row_def)

lemma fst_map_row [simp]: "fst (map_row t f e) = fst e"
  by (simp add: map_row_def)

lemma unique_ok_map:
  assumes old: "unique_ok x ts docs" and td: "map_of ts t = Some td"
    and td': "map_of ts' t = Some td'" and others: "\<And>u. u \<noteq> t \<Longrightarrow> map_of ts' u = map_of ts u"
    and dv: "\<And>e. e \<in> set docs \<Longrightarrow> fst (fst e) = t \<Longrightarrow> doc_valid x td (row_doc (snd e))"
    and keys: "\<And>ix'. ix' \<in> set (td_indexes td') \<Longrightarrow> ix_unique ix' \<Longrightarrow>
      \<exists>ix\<in>set (td_indexes td). ix_unique ix \<and> (\<forall>d. doc_valid x td d \<longrightarrow> unique_key x td' ix' (f d) = unique_key x td ix d)"
  shows "unique_ok x ts' (map (map_row t f) docs)"
  unfolding unique_ok_def
proof (intro ballI impI)
  fix h h'
  assume hs: "h \<in> set (map (map_row t f) docs)" "h' \<in> set (map (map_row t f) docs)"
    "fst (fst h) = fst (fst h') \<and> fst h \<noteq> fst h'"
  then obtain e e' where e: "e \<in> set docs" "e' \<in> set docs" "h = map_row t f e" "h' = map_row t f e'"
    by auto
  then have same: "fst (fst e) = fst (fst e') \<and> fst e \<noteq> fst e'"
    using hs(3) by simp
  then have clash: "case map_of ts (fst (fst e)) of None \<Rightarrow> True | Some td \<Rightarrow> \<not> rows_clash x td (snd e) (snd e')"
    using old e(1,2) unfolding unique_ok_def by blast
  show "case map_of ts' (fst (fst h)) of None \<Rightarrow> True | Some td \<Rightarrow> \<not> rows_clash x td (snd h) (snd h')"
  proof (cases "fst (fst e) = t")
    case True
    have live: "is_live (snd h) = is_live (snd e)" "is_live (snd h') = is_live (snd e')"
      and doc: "row_doc (snd h) = f (row_doc (snd e))" "row_doc (snd h') = f (row_doc (snd e'))"
      using e(3,4) True same by (simp_all add: map_row_def is_live_def)
    have "\<not> rows_clash x td' (snd h) (snd h')"
      using clash keys dv[OF e(1) True] dv[OF e(2)] same td True
      unfolding rows_clash_def live doc by fastforce
    then show ?thesis
      using e(3) True td' by simp
  next
    case False
    then show ?thesis
      using clash others[OF False] e(3,4) same by (auto simp: map_row_def split: option.splits)
  qed
qed

lemma rows_inv_map:
  assumes inv: "rows_inv x ts docs" and td: "map_of ts t = Some td"
    and td': "map_of ts' t = Some td'" and others: "\<And>u. u \<noteq> t \<Longrightarrow> map_of ts' u = map_of ts u"
    and valid: "\<And>d. doc_valid x td d \<Longrightarrow> doc_valid x td' (f d)"
    and keys: "\<And>ix'. ix' \<in> set (td_indexes td') \<Longrightarrow> ix_unique ix' \<Longrightarrow>
      \<exists>ix\<in>set (td_indexes td). ix_unique ix \<and> (\<forall>d. doc_valid x td d \<longrightarrow> unique_key x td' ix' (f d) = unique_key x td ix d)"
  shows "rows_inv x ts' (map_rows t f docs)"
proof -
  have ok: "row_ok x ts (fst e) (snd e)" if "e \<in> set docs" for e
    using inv that by (simp add: rows_inv_def)
  have dv: "doc_valid x td (row_doc (snd e))" if "e \<in> set docs" "fst (fst e) = t" for e
    using ok[OF that(1)] that(2) td by (simp add: row_ok_def doc_valid_def)
  have "row_ok x ts' (fst e) (snd (map_row t f e))" if "e \<in> set docs" for e
    using ok[OF that] dv[OF that] valid td' others[of "fst (fst e)"]
    by (auto simp: row_ok_def doc_valid_def map_row_def)
  moreover have "unique_ok x ts' (map (map_row t f) docs)"
    using inv dv by (intro unique_ok_map[OF _ td td' others _ keys]) (auto simp: rows_inv_def)
  moreover have "hm_ok (map (map_row t f) docs)"
    using inv by (simp add: rows_inv_def hm_ok_def comp_def)
  ultimately show ?thesis
    unfolding map_rows_eq rows_inv_def by auto
qed

section \<open>Directives that keep the rows valid\<close>

lemma map_of_rekey:
  assumes "map_of m b = None" "a \<noteq> b"
  shows "map_of (rekey a b m) k = (if k = b then map_of m a else if k = a then None else map_of m k)"
  using assms by (auto simp: rekey_def split: option.split)

lemma bt_ok_rekey [simp]: "bt_ok m \<Longrightarrow> bt_ok (rekey a b m)"
  by (auto simp: rekey_def split: option.split)

lemma check_constraints_cong:
  assumes "map_of (td_constraints td') k' = map_of (td_constraints td) k" "map_of (td_fields td') k' = map_of (td_fields td) k"
  shows "check_constraints_for_field x td' k' v = check_constraints_for_field x td k v"
  unfolding check_constraints_for_field_def assms ..

lemma validate_field_cong:
  assumes "map_of d' k' = map_of d k" "map_of (td_constraints td') k' = map_of (td_constraints td) k"
    "map_of (td_fields td') k' = map_of (td_fields td) k"
  shows "validate_field x td' d' (k', ft) = validate_field x td d (k, ft)"
  unfolding validate_field_def fst_conv snd_conv assms(1) check_constraints_cong[OF assms(2,3)] ..

definition where_reads :: "index_def \<Rightarrow> string \<Rightarrow> bool" where
  "where_reads ix f = (case ix_where ix of Some p \<Rightarrow> f \<in> set (walk_filter_expr_fields p) | None \<Rightarrow> False)"

lemma collect_index_key_map:
  "(\<And>f. f \<in> set fs \<Longrightarrow> map_of d' (g f) = map_of d f) \<Longrightarrow>
   collect_index_key (map g fs) (JObject d') = collect_index_key fs (JObject d)"
  by (induction fs) (simp_all split: option.split)

lemma unique_key_map:
  assumes "ix_where ix' = ix_where ix" "ix_fields ix' = map g (ix_fields ix)"
    and "\<And>f. f \<in> set (ix_fields ix) \<Longrightarrow> map_of d' (g f) = map_of d f"
    and "\<And>f. where_reads ix f \<Longrightarrow> map_of d' f = map_of d f \<and> map_of (td_fields td') f = map_of (td_fields td) f"
  shows "unique_key x td' ix' d' = unique_key x td ix d"
proof -
  have "eval_filter_expr x p d' (td_fields td') = eval_filter_expr x p d (td_fields td)" if "ix_where ix = Some p" for p
    using that assms(4) unfolding eval_filter_expr_def by (intro eval_filter_cong) (auto simp: where_reads_def)
  then show ?thesis
    using assms(1,2) collect_index_key_map[of "ix_fields ix" d' g d, OF assms(3)]
    by (simp add: unique_key_def split: option.split)
qed

lemma rename_name_other [simp]: "f \<noteq> a \<Longrightarrow> rename_name a b f = f"
  by (simp add: rename_name_def)

lemma rename_name_self [simp]: "rename_name a b a = b"
  by (simp add: rename_name_def)

lemma rename_table_field_simps [simp]:
  "td_fields (rename_table_field a b ft td) = bt_insert b ft (bt_remove a (td_fields td))"
  "td_constraints (rename_table_field a b ft td) = td_constraints td"
  "td_indexes (rename_table_field a b ft td)
    = map (\<lambda>ix. ix\<lparr>ix_fields := map (rename_name a b) (ix_fields ix)\<rparr>) (td_indexes td)"
  by (simp_all add: rename_table_field_def)

lemma rename_doc_valid:
  assumes ok: "bt_ok (td_fields td)" and fs: "map_of (td_fields td) b = None" "map_of (td_fields td) a = Some ft"
    and cs: "map_of (td_constraints td) a = None" "map_of (td_constraints td) b = None" "\<not> starts_with ''_'' b"
    and d: "doc_valid x td d"
  shows "doc_valid x (rename_table_field a b ft td) (rekey a b d)"
proof -
  have ab: "a \<noteq> b" using fs by auto
  have keys: "\<not> starts_with ''_'' k \<and> map_of (td_fields td) k \<noteq> None" if "map_of d k = Some v" for k v
    using d that unfolding doc_valid_iff[OF ok] by blast
  have b: "map_of d b = None" using keys[of b] fs(1) by (cases "map_of d b") auto
  note re = map_of_rekey[OF b ab]
  have field: "validate_field x (rename_table_field a b ft td) (rekey a b d) (k, t) = Inr ()"
    if "map_of (td_fields (rename_table_field a b ft td)) k = Some t" for k t
  proof (cases "k = b")
    case True
    have "validate_field x (rename_table_field a b ft td) (rekey a b d) (b, ft) = validate_field x td d (a, ft)"
      using re cs fs ab by (intro validate_field_cong) auto
    then show ?thesis
      using True that d fs unfolding doc_valid_iff[OF ok] by auto
  next
    case False
    then have "validate_field x (rename_table_field a b ft td) (rekey a b d) (k, t) = validate_field x td d (k, t)"
      using that re by (intro validate_field_cong) (auto split: if_splits)
    then show ?thesis
      using False that d unfolding doc_valid_iff[OF ok] by (auto split: if_splits)
  qed
  have "bt_ok (td_fields (rename_table_field a b ft td))" using ok by simp
  then show ?thesis
    using field keys d cs(3) fs unfolding doc_valid_iff[OF ok]
    by (subst doc_valid_iff) (auto simp: re split: if_splits)
qed

lemma set_bt_insert_sub: "set (bt_insert k v m) \<subseteq> insert (k, v) (set m)"
  by (induction k v m rule: bt_insert.induct) auto

lemma set_bt_remove_sub: "set (bt_remove k m) \<subseteq> set m"
  by (auto simp: bt_remove_def)

lemma set_rekey_vals: "snd ` set (rekey a b m) \<subseteq> snd ` set m"
proof (cases "map_of m a")
  case (Some v)
  then have "v \<in> snd ` set m"
    by (force dest: map_of_SomeD)
  then show ?thesis
    using Some set_bt_insert_sub[of b v "bt_remove a m"] set_bt_remove_sub[of a m]
    by (auto simp: rekey_def image_iff) (metis insertE snd_conv subsetD)
qed (simp add: rekey_def)

lemma doc_ok_rekey: "doc_ok m \<Longrightarrow> doc_ok (rekey a b m)"
  using set_rekey_vals[of a b m] by (force simp: doc_ok_def)

lemma bt_ok_map_vals [simp]: "bt_ok (map (\<lambda>(k, v). (k, g v)) m) = bt_ok m"
  by (simp add: bt_ok_def comp_def case_prod_beta)

lemma table_ok_rename: "table_ok td \<Longrightarrow> map_of (td_fields td) a = Some ft \<Longrightarrow> table_ok (rename_table_field a b ft td)"
  using set_bt_insert_sub[of b ft "bt_remove a (td_fields td)"] set_bt_remove_sub[of a "td_fields td"]
    table_ok_field[of td a ft]
  by (fastforce simp: table_ok_def rename_table_field_def doc_ok_rekey)

lemma schema_ok_put: "schema_ok sch \<Longrightarrow> table_ok td \<Longrightarrow> schema_ok (put_table t td sch)"
  using set_bt_insert_sub[of t td "sd_tables sch"] by (fastforce simp: schema_ok_def put_table_def)

definition schema_rows :: "ext \<Rightarrow> schema_def \<Rightarrow> (row_key \<times> stored_row) list \<Rightarrow> bool" where
  "schema_rows x sch docs \<longleftrightarrow> schema_ok sch \<and> rows_inv x (sd_tables sch) docs"

lemma schema_rows_map:
  assumes "schema_rows x sch docs" "map_of (sd_tables sch) t = Some td" "table_ok td'"
    and "\<And>d. doc_valid x td d \<Longrightarrow> doc_valid x td' (f d)"
    and "\<And>ix'. ix' \<in> set (td_indexes td') \<Longrightarrow> ix_unique ix' \<Longrightarrow>
      \<exists>ix\<in>set (td_indexes td). ix_unique ix \<and> (\<forall>d. doc_valid x td d \<longrightarrow> unique_key x td' ix' (f d) = unique_key x td ix d)"
  shows "schema_rows x (put_table t td' sch) (map_rows t f docs)"
  using assms(1,3) rows_inv_map[of x "sd_tables sch" docs t td "sd_tables (put_table t td' sch)" td' f] assms(2,4,5)
  by (auto simp: schema_rows_def schema_ok_put) (auto simp: put_table_def)

lemma schema_rows_tableD:
  "schema_rows x sch docs \<Longrightarrow> map_of (sd_tables sch) t = Some td \<Longrightarrow> table_ok td \<and> bt_ok (td_fields td)"
  using schema_ok_table by (auto simp: schema_rows_def table_ok_def)

text \<open>
  When a directive keeps the rows valid: it is not a rename onto a reserved name or onto a name
  an index or a constraint already reads, and it leaves the keys of unique indexes alone.
  A retype is left out, since the code checks the cast against the old type only.
\<close>

definition unread :: "string \<Rightarrow> table_def \<Rightarrow> bool" where
  "unread f td = list_all (\<lambda>ix. ix_unique ix \<longrightarrow> f \<notin> set (ix_fields ix) \<and> \<not> where_reads ix f) (td_indexes td)"

definition safe_rename :: "string \<Rightarrow> string \<Rightarrow> table_def \<Rightarrow> bool" where
  "safe_rename a b td \<longleftrightarrow>
     \<not> starts_with ''_'' b \<and> map_of (td_constraints td) a = None \<and> map_of (td_constraints td) b = None
     \<and> unread b td \<and> list_all (\<lambda>ix. ix_unique ix \<longrightarrow> \<not> where_reads ix a) (td_indexes td)"

definition safe_default :: "ext \<Rightarrow> string \<Rightarrow> json \<Rightarrow> table_def \<Rightarrow> bool" where
  "safe_default x f v td \<longleftrightarrow>
     \<not> starts_with ''_'' f \<and> unread f td
     \<and> (case map_of (td_fields td) f of
          Some ft \<Rightarrow> validate_value ft v \<and> check_constraints_for_field x td f v = Inr ()
        | None \<Rightarrow> False)"

lemma rename_keeps_rows:
  assumes inv: "schema_rows x sch docs" and td: "map_of (sd_tables sch) t = Some td"
    and fs: "map_of (td_fields td) b = None" "map_of (td_fields td) a = Some ft" and safe: "safe_rename a b td"
  shows "schema_rows x (put_table t (rename_table_field a b ft td) sch) (map_rows t (rekey a b) docs)"
proof (rule schema_rows_map[OF inv td])
  note ok = schema_rows_tableD[OF inv td]
  show "table_ok (rename_table_field a b ft td)"
    using ok fs(2) by (simp add: table_ok_rename)
  show "doc_valid x (rename_table_field a b ft td) (rekey a b d)" if "doc_valid x td d" for d
    using rename_doc_valid[OF _ fs _ _ _ that] ok safe by (simp add: safe_rename_def)
  fix ix'
  assume ix': "ix' \<in> set (td_indexes (rename_table_field a b ft td))" "ix_unique ix'"
  then obtain ix where ix: "ix \<in> set (td_indexes td)" "ix' = ix\<lparr>ix_fields := map (rename_name a b) (ix_fields ix)\<rparr>"
    by auto
  have u: "ix_unique ix" "b \<notin> set (ix_fields ix)" "\<not> where_reads ix b" "\<not> where_reads ix a"
    using ix ix'(2) safe by (auto simp: safe_rename_def unread_def list_all_iff)
  have "unique_key x (rename_table_field a b ft td) ix' (rekey a b d) = unique_key x td ix d" if "doc_valid x td d" for d
  proof -
    have b: "map_of d b = None"
      using that fs(1) ok unfolding doc_valid_iff[of td] by (cases "map_of d b") (auto simp: doc_valid_iff)
    have ab: "a \<noteq> b" using fs by auto
    show ?thesis
    proof (rule unique_key_map[where g = "rename_name a b"])
      show "map_of (rekey a b d) (rename_name a b f) = map_of d f" if "f \<in> set (ix_fields ix)" for f
        using that u(2) by (cases "f = a") (auto simp: map_of_rekey[OF b ab])
      show "map_of (rekey a b d) f = map_of d f
          \<and> map_of (td_fields (rename_table_field a b ft td)) f = map_of (td_fields td) f" if "where_reads ix f" for f
        using that u(3,4) by (cases "f = a \<or> f = b") (auto simp: map_of_rekey[OF b ab])
    qed (simp_all add: ix(2))
  qed
  then show "\<exists>ix\<in>set (td_indexes td). ix_unique ix \<and>
      (\<forall>d. doc_valid x td d \<longrightarrow> unique_key x (rename_table_field a b ft td) ix' (rekey a b d) = unique_key x td ix d)"
    using ix(1) u(1) by blast
qed

lemma fill_keeps_rows:
  assumes inv: "schema_rows x sch docs" and td: "map_of (sd_tables sch) t = Some td" and safe: "safe_default x f v td"
  shows "schema_rows x (put_table t td sch) (map_rows t (fill_field f v) docs)"
proof (rule schema_rows_map[OF inv td])
  note ok = schema_rows_tableD[OF inv td]
  show "table_ok td" using ok ..
  have fill: "map_of (fill_field f v d) k = (if k = f \<and> map_of d f = None then Some v else map_of d k)" for d k
    by (auto simp: fill_field_def)
  show "doc_valid x td (fill_field f v d)" if "doc_valid x td d" for d
    using that ok safe unfolding doc_valid_iff[OF conjunct2[OF ok]] validate_field_def
    by (auto simp: fill safe_default_def split: option.splits if_splits) (auto simp: fill_field_def)
  fix ix'
  assume ix': "ix' \<in> set (td_indexes td)" "ix_unique ix'"
  then have "f \<notin> set (ix_fields ix')" "\<not> where_reads ix' f"
    using safe by (auto simp: safe_default_def unread_def list_all_iff)
  then have "unique_key x td ix' (fill_field f v d) = unique_key x td ix' d" for d
    by (intro unique_key_map[where g = id]) (auto simp: fill)
  then show "\<exists>ix\<in>set (td_indexes td). ix_unique ix \<and>
      (\<forall>d. doc_valid x td d \<longrightarrow> unique_key x td ix' (fill_field f v d) = unique_key x td ix d)"
    using ix' by blast
qed

lemma drop_field_keeps_rows:
  assumes inv: "schema_rows x sch docs" and td: "map_of (sd_tables sch) t = Some td" and safe: "unread f td"
  shows "schema_rows x (put_table t (drop_table_field f td) sch) (map_rows t (bt_remove f) docs)"
proof (rule schema_rows_map[OF inv td])
  note ok = schema_rows_tableD[OF inv td]
  show "table_ok (drop_table_field f td)"
    using ok set_bt_remove_sub[of f "td_fields td"] by (auto simp: table_ok_def drop_table_field_def)
  have fields: "td_fields (drop_table_field f td) = bt_remove f (td_fields td)"
    "td_constraints (drop_table_field f td) = td_constraints td"
    by (simp_all add: drop_table_field_def)
  have bt: "bt_ok (td_fields (drop_table_field f td))"
    using ok by (simp add: fields)
  show "doc_valid x (drop_table_field f td) (bt_remove f d)" if d: "doc_valid x td d" for d
  proof -
    have "validate_field x (drop_table_field f td) (bt_remove f d) (k, ft) = validate_field x td d (k, ft)" if "k \<noteq> f" for k ft
      using that by (intro validate_field_cong) (auto simp: fields)
    then show ?thesis
      using d unfolding doc_valid_iff[OF bt] doc_valid_iff[OF conjunct2[OF ok]]
      by (auto simp: fields split: if_splits)
  qed
  fix ix'
  assume ix': "ix' \<in> set (td_indexes (drop_table_field f td))" "ix_unique ix'"
  then obtain ix where ix: "ix \<in> set (td_indexes td)" "ix' = ix\<lparr>ix_fields := filter (\<lambda>g. g \<noteq> f) (ix_fields ix)\<rparr>"
    by (auto simp: drop_table_field_def)
  then have u: "ix_unique ix" "f \<notin> set (ix_fields ix)" "\<not> where_reads ix f"
    using ix'(2) safe by (auto simp: unread_def list_all_iff)
  then have same: "filter (\<lambda>g. g \<noteq> f) (ix_fields ix) = ix_fields ix"
    by (auto simp: filter_id_conv)
  have "unique_key x (drop_table_field f td) ix' (bt_remove f d) = unique_key x td ix d" for d
    using u by (intro unique_key_map[where g = id]) (auto simp: ix(2) same fields)
  then show "\<exists>ix\<in>set (td_indexes td). ix_unique ix \<and>
      (\<forall>d. doc_valid x td d \<longrightarrow> unique_key x (drop_table_field f td) ix' (bt_remove f d) = unique_key x td ix d)"
    using ix(1) u(1) by blast
qed

lemma map_rows_id: "map_rows t (\<lambda>d. d) docs = docs"
  by (auto simp: map_rows_def intro!: map_idI)

lemma drop_index_keeps_rows:
  assumes inv: "schema_rows x sch docs" and td: "map_of (sd_tables sch) t = Some td"
  shows "schema_rows x (put_table t (drop_index name td) sch) docs"
proof -
  have "table_ok (drop_index name td)"
    using schema_rows_tableD[OF inv td] by (simp add: table_ok_def drop_index_def)
  moreover have "validate_field x (drop_index name td) d p = validate_field x td d p" for d p
    by (cases p) (auto intro: validate_field_cong simp: drop_index_def)
  then have "doc_valid x (drop_index name td) d = doc_valid x td d" for d
    by (simp add: doc_valid_def validate_doc_iff) (simp add: drop_index_def)
  moreover have "unique_key x (drop_index name td) ix d = unique_key x td ix d" for ix d
    by (simp add: unique_key_def drop_index_def split: option.split)
  ultimately show ?thesis
    using schema_rows_map[OF inv td, of "drop_index name td" "\<lambda>d. d"] map_rows_id[of t docs]
    by (auto simp: drop_index_def)
qed

lemma drop_table_rows: "fold (\<lambda>i. hm_remove (name, i)) (table_ids name docs) docs = filter (\<lambda>e. fst (fst e) \<noteq> name) docs"
proof -
  have all: "fold (\<lambda>i. hm_remove (name, i)) ids ds = filter (\<lambda>e. \<forall>i\<in>set ids. fst e \<noteq> (name, i)) ds" for ids ds
    by (induction ids arbitrary: ds) (auto simp: AList.delete_eq intro!: filter_cong)
  have "(\<forall>i\<in>set (table_ids name docs). fst e \<noteq> (name, i)) \<longleftrightarrow> fst (fst e) \<noteq> name" if e: "e \<in> set docs" for e
  proof -
    have "snd (fst e) \<in> set (table_ids name docs)" if "fst (fst e) = name"
      using that e by (auto simp: table_ids_def)
    then show ?thesis by (auto simp: prod_eq_iff)
  qed
  then show ?thesis
    unfolding all by (rule filter_cong[OF refl])
qed

lemma drop_table_keeps_rows:
  assumes inv: "schema_rows x sch docs"
  shows "schema_rows x (sch\<lparr>sd_tables := bt_remove name (sd_tables sch)\<rparr>) (filter (\<lambda>e. fst (fst e) \<noteq> name) docs)"
proof -
  have "schema_ok (sch\<lparr>sd_tables := bt_remove name (sd_tables sch)\<rparr>)"
    using inv set_bt_remove_sub[of name "sd_tables sch"] by (auto simp: schema_rows_def schema_ok_def)
  moreover have "hm_ok (filter (\<lambda>e. fst (fst e) \<noteq> name) docs)"
    using inv by (auto simp: schema_rows_def rows_inv_def hm_ok_def distinct_map_filter)
  moreover have "unique_ok x (bt_remove name (sd_tables sch)) (filter (\<lambda>e. fst (fst e) \<noteq> name) docs)"
    using inv by (auto simp: schema_rows_def rows_inv_def unique_ok_def)
  moreover have "row_ok x (bt_remove name (sd_tables sch)) (fst e) (snd e)"
    if "e \<in> set docs" "fst (fst e) \<noteq> name" for e
    using inv that by (auto simp: schema_rows_def rows_inv_def row_ok_def)
  ultimately show ?thesis
    by (auto simp: schema_rows_def rows_inv_def)
qed

text \<open>The rows of a renamed table, as a map: filed under the new name, in its place.\<close>

lemma move_rows_map:
  assumes "hm_ok docs" "a \<noteq> b"
  shows "hm_ok (fold (move_row a b) ids docs)
    \<and> map_of (fold (move_row a b) ids docs) (t, i) =
        (if i \<in> set ids \<and> t = a then None
         else if i \<in> set ids \<and> t = b \<and> map_of docs (a, i) \<noteq> None then map_of docs (a, i)
         else map_of docs (t, i))"
  using assms(1)
proof (induction ids arbitrary: docs)
  case (Cons j ids)
  have ok: "hm_ok (move_row a b j docs)"
    using Cons.prems by (auto simp: move_row_def hm_ok_def distinct_update distinct_delete split: option.split)
  have get: "map_of (move_row a b j docs) (t, i) =
      (if i = j \<and> map_of docs (a, j) \<noteq> None then (if t = a then None else if t = b then map_of docs (a, j) else map_of docs (t, i))
       else map_of docs (t, i))" for t i
    using assms(2) by (auto simp: move_row_def update_conv' delete_conv' split: option.split)
  show ?case
    using Cons.IH[OF ok] assms(2) by (auto simp: get)
qed simp

lemma renamed_rows:
  assumes "hm_ok docs" "a \<noteq> b" "\<And>i. map_of docs (b, i) = None"
  shows "map_of (fold (move_row a b) (table_ids a docs) docs) (t, i) =
     (if t = a then None else if t = b then map_of docs (a, i) else map_of docs (t, i))"
proof -
  have "map_of docs (a, i) = None" if "i \<notin> set (table_ids a docs)"
    using that by (force simp: table_ids_def map_of_eq_None_iff)
  then show ?thesis
    using move_rows_map[OF assms(1,2), of "table_ids a docs" t i] assms(3)[of i] by auto
qed

lemma rows_inv_get:
  assumes "hm_ok docs"
  shows "rows_inv x ts docs \<longleftrightarrow>
     (\<forall>t i row. map_of docs (t, i) = Some row \<longrightarrow> row_ok x ts (t, i) row)
     \<and> (\<forall>t i j r q td. map_of docs (t, i) = Some r \<longrightarrow> map_of docs (t, j) = Some q \<longrightarrow> i \<noteq> j \<longrightarrow>
          map_of ts t = Some td \<longrightarrow> \<not> rows_clash x td r q)"
proof -
  have mem: "((t, i), row) \<in> set docs \<longleftrightarrow> map_of docs (t, i) = Some row" for t i row
    using assms by (auto simp: hm_ok_def)
  show ?thesis
    unfolding rows_inv_def unique_ok_def Ball_def split_paired_All mem
    using assms by (auto split: option.splits)
qed

lemma compare_leaf_types:
  "is_int64_field (map_of fs' f) = is_int64_field (map_of fs f) \<Longrightarrow> compare_leaf x op f v d fs' = compare_leaf x op f v d fs"
  unfolding compare_leaf_def by (simp only:)

lemma eval_older_than_types:
  "is_int64_field (map_of fs' f) = is_int64_field (map_of fs f) \<Longrightarrow>
   eval_older_than f ms d fs' now = eval_older_than f ms d fs now"
  unfolding eval_older_than_def by (simp only:)

lemma eval_filter_types:
  assumes "\<And>f. is_int64_field (map_of fs' f) = is_int64_field (map_of fs f)"
  shows "eval_filter_with_clock x e d fs' now = eval_filter_with_clock x e d fs now"
  using assms
  by (induction x e d fs now rule: eval_filter_with_clock.induct)
     (simp_all add: compare_leaf_types[of fs'] eval_older_than_types[of fs'])

lemma map_of_map_vals: "map_of (map (\<lambda>(k, v). (k, g v)) m) k = map_option g (map_of m k)"
  by (induction m) auto

lemma map_of_retarget:
  "map_of (td_fields (retarget_table a b td)) f = map_option (retarget a b) (map_of (td_fields td) f)"
  by (simp add: retarget_table_def map_of_map_vals)

lemma retarget_validate [simp]: "validate_value (retarget a b ft) v = validate_value ft v"
  "is_optional (retarget a b ft) = is_optional ft"
  by (cases ft; simp)+

lemma retarget_int64: "is_int64_field (map_option (retarget a b) ft) = is_int64_field ft"
  by (cases ft; cases "the ft") (auto simp: is_int64_field_def)

lemma retarget_constraints: "check_constraints_for_field x (retarget_table a b td) k v = check_constraints_for_field x td k v"
proof -
  have c: "td_constraints (retarget_table a b td) = td_constraints td"
    by (simp add: retarget_table_def)
  show ?thesis
  proof (cases "\<exists>t od. map_of (td_fields td) k = Some (TyId t od)")
    case True
    then obtain t od where f: "map_of (td_fields td) k = Some (TyId t od)" by blast
    show ?thesis
      unfolding check_constraints_for_field_def map_of_retarget c f by (simp split: option.split)
  next
    case False
    then have "map_option (retarget a b) (map_of (td_fields td) k) = map_of (td_fields td) k"
      by (cases "map_of (td_fields td) k"; cases "the (map_of (td_fields td) k)") auto
    then show ?thesis
      by (intro check_constraints_cong) (simp_all only: map_of_retarget c)
  qed
qed

lemma retarget_doc: "validate_doc x (retarget_table a b td) (JObject d) = Inr () \<longleftrightarrow> validate_doc x td (JObject d) = Inr ()"
proof -
  have "validate_field x (retarget_table a b td) d (k, retarget a b ft) = validate_field x td d (k, ft)" for k ft
    by (simp add: validate_field_def retarget_constraints split: option.split)
  then have "(\<forall>p\<in>set (td_fields (retarget_table a b td)). validate_field x (retarget_table a b td) d p = Inr ())
      \<longleftrightarrow> (\<forall>p\<in>set (td_fields td). validate_field x td d p = Inr ())"
    by (auto simp: retarget_table_def[of a b td] split: prod.splits)
  then show ?thesis
    by (simp add: validate_doc_iff map_of_retarget)
qed

lemma retarget_clash: "rows_clash x (retarget_table a b td) r q = rows_clash x td r q"
proof -
  have "eval_filter_expr x p d (td_fields (retarget_table a b td)) = eval_filter_expr x p d (td_fields td)" for p d
    unfolding eval_filter_expr_def by (rule eval_filter_types) (simp add: map_of_retarget retarget_int64)
  then have "unique_key x (retarget_table a b td) ix d = unique_key x td ix d" for ix d
    by (simp add: unique_key_def split: option.split)
  then show ?thesis
    by (simp add: rows_clash_def) (simp add: retarget_table_def)
qed

lemma rename_table_keeps_rows:
  assumes inv: "schema_rows x sch docs" and td: "map_of (sd_tables sch) a = Some td" and fresh: "map_of (sd_tables sch) b = None"
  defines "ts \<equiv> bt_insert b td (map (\<lambda>(n, t). (n, retarget_table a b t)) (bt_remove a (sd_tables sch)))"
  shows "schema_rows x (sch\<lparr>sd_tables := ts\<rparr>) (fold (move_row a b) (table_ids a docs) docs)"
proof -
  have ab: "a \<noteq> b" using td fresh by auto
  have hm: "hm_ok docs" and rows: "rows_inv x (sd_tables sch) docs" and ok: "schema_ok sch"
    using inv by (auto simp: schema_rows_def rows_inv_def)
  have valid: "row_ok x (sd_tables sch) (t, i) row" if "map_of docs (t, i) = Some row" for t i row
    using rows that unfolding rows_inv_get[OF hm] by blast
  have apart: "\<not> rows_clash x def r q" if "map_of docs (t, i) = Some r" "map_of docs (t, j) = Some q" "i \<noteq> j"
    "map_of (sd_tables sch) t = Some def" for t i j r q "def"
    using rows that unfolding rows_inv_get[OF hm] by blast
  have none: "map_of docs (b, i) = None" for i
    using valid[of b i] fresh by (cases "map_of docs (b, i)") (auto simp: row_ok_def)
  have ts: "map_of ts u = (if u = b then Some td else if u = a then None
      else map_option (retarget_table a b) (map_of (sd_tables sch) u))" for u
    using ab by (simp add: ts_def map_of_map_vals)
  note get = renamed_rows[OF hm ab none]
  have "rows_inv x ts (fold (move_row a b) (table_ids a docs) docs)"
    unfolding rows_inv_get[OF conjunct1[OF move_rows_map[OF hm ab]]] get
  proof (intro conjI allI impI)
    fix t i row
    assume "(if t = a then None else if t = b then map_of docs (a, i) else map_of docs (t, i)) = Some row"
    then show "row_ok x ts (t, i) row"
      using valid[of a i row] valid[of t i row] td
      by (auto simp: ts row_ok_def retarget_doc split: if_splits option.splits)
  next
    fix t i j r q td'
    assume "(if t = a then None else if t = b then map_of docs (a, i) else map_of docs (t, i)) = Some r"
      "(if t = a then None else if t = b then map_of docs (a, j) else map_of docs (t, j)) = Some q"
      "i \<noteq> j" "map_of ts t = Some td'"
    then show "\<not> rows_clash x td' r q"
      using apart[of a i r j q td] apart[of t i r j q] td
      by (auto simp: ts retarget_clash split: if_splits)
  qed
  moreover have "table_ok (retarget_table a b t)" if "table_ok t" for t
  proof -
    have "ft_ok (retarget a b ft) = ft_ok ft" for ft by (cases ft) auto
    then show ?thesis using that by (auto simp: table_ok_def retarget_table_def)
  qed
  then have "table_ok (snd p)" if "p \<in> set ts" for p
    using that ok schema_ok_table[OF ok td] subsetD[OF set_bt_insert_sub that[unfolded ts_def]]
      set_bt_remove_sub[of a "sd_tables sch"]
    by (fastforce simp: schema_ok_def)
  then have "schema_ok (sch\<lparr>sd_tables := ts\<rparr>)"
    using ok by (simp add: schema_ok_def) (simp add: ts_def)
  ultimately show ?thesis
    by (simp add: schema_rows_def)
qed

fun data_safe :: "ext \<Rightarrow> schema_def \<Rightarrow> directive \<Rightarrow> bool" where
  "data_safe x schema (RenameField table a b) = on_table schema table (safe_rename a b)"
| "data_safe x schema (DropField table field) = on_table schema table (unread field)"
| "data_safe x schema (SetDefault table field v) = on_table schema table (safe_default x field v)"
| "data_safe x schema (ChangeType table field to c dflt) = False"
| "data_safe x schema _ = True"

fun data_safe_batch :: "ext \<Rightarrow> schema_def \<Rightarrow> directive list \<Rightarrow> client \<Rightarrow> bool" where
  "data_safe_batch x schema [] s = True"
| "data_safe_batch x schema (d # ds) s =
     (data_safe x schema d \<and>
      (case apply_migration_directive x schema d s of
         (Inr (schema', _, _), s') \<Rightarrow> data_safe_batch x schema' ds s'
       | _ \<Rightarrow> True))"

lemma put_same_table: "bt_ok (sd_tables sch) \<Longrightarrow> map_of (sd_tables sch) t = Some td \<Longrightarrow> put_table t td sch = sch"
proof -
  have "bt_ok m \<Longrightarrow> map_of m k = Some v \<Longrightarrow> bt_insert k v m = m" for k :: string and v :: table_def and m
    by (induction k v m rule: bt_insert.induct) (auto simp: bt_ok_def split: if_splits dest!: map_of_SomeD)
  then show "bt_ok (sd_tables sch) \<Longrightarrow> map_of (sd_tables sch) t = Some td \<Longrightarrow> put_table t td sch = sch"
    by (simp add: put_table_def)
qed

lemma migrate_table_ok: "migrate_table sch t = Inr td \<longleftrightarrow> map_of (sd_tables sch) t = Some td"
  by (simp add: migrate_table_def split: option.split)

lemma directive_keeps_rows:
  assumes inv: "schema_rows x sch (c_docs s)" and safe: "data_safe x sch d"
    and run: "apply_migration_directive x sch d s = (Inr (sch', rep, t), s')"
  shows "schema_rows x sch' (c_docs s')"
proof -
  have bt: "bt_ok (sd_tables sch)"
    using inv by (simp add: schema_rows_def schema_ok_def)
  show ?thesis
  proof (cases d)
    case (RenameField table a b)
    then show ?thesis
      using run safe inv
      by (auto simp: apply_rename_field_directive_def run_simps rewrite_rows_def migrate_table_def on_table_def
          intro!: rename_keeps_rows split: option.splits sum.splits prod.splits if_splits)
  next
    case (RenameTable a b)
    then show ?thesis
      using run inv
      by (auto simp: apply_rename_table_directive_def run_simps Let_def migrate_table_def
          intro!: rename_table_keeps_rows split: option.splits sum.splits prod.splits if_splits)
  next
    case (DropField table f)
    then show ?thesis
      using run safe inv
      by (auto simp: apply_drop_field_directive_def run_simps rewrite_rows_def migrate_table_def on_table_def
          intro!: drop_field_keeps_rows split: option.splits sum.splits prod.splits if_splits)
  next
    case (DropTable name)
    then show ?thesis
      using run drop_table_keeps_rows[OF inv, of name]
      by (auto simp: apply_drop_table_directive_def run_simps migrate_table_def drop_table_rows
          split: option.splits sum.splits prod.splits if_splits)
  next
    case (DropIndex table name)
    then show ?thesis
      using run inv
      by (auto simp: apply_drop_index_directive_def run_simps migrate_table_def
          intro!: drop_index_keeps_rows split: option.splits sum.splits prod.splits if_splits)
  next
    case (SetDefault table f v)
    then obtain td where td: "map_of (sd_tables sch) table = Some td" "sch' = sch"
      "c_docs s' = map_rows table (fill_field f v) (c_docs s)"
      using run
      by (auto simp: apply_set_default_directive_def run_simps rewrite_rows_def migrate_table_def
          split: option.splits sum.splits prod.splits if_splits)
    then show ?thesis
      using fill_keeps_rows[OF inv td(1)] safe SetDefault put_same_table[OF bt td(1)] by (simp add: on_table_def)
  qed (use safe run in \<open>auto simp: apply_eval_expr_directive_def run_simps\<close>)
qed

lemma directives_keep_rows:
  assumes "schema_rows x sch (c_docs s)" "data_safe_batch x sch ds s"
    and "apply_directives x sch ds s = (Inr (sch', reps, ts), s')"
  shows "schema_rows x sch' (c_docs s')"
  using assms
proof (induction ds arbitrary: sch s reps ts)
  case Nil
  then show ?case by (simp add: run_simps)
next
  case (Cons d ds)
  then obtain mid rep t s1 reps1 ts1 where run: "apply_migration_directive x sch d s = (Inr (mid, rep, t), s1)"
    "apply_directives x mid ds s1 = (Inr (sch', reps1, ts1), s')"
    by (auto simp: run_simps split: prod.splits sum.splits)
  show ?case
    using Cons.IH[OF directive_keeps_rows[OF Cons.prems(1) _ run(1)] _ run(2)] Cons.prems(2) run(1) by simp
qed

lemma insert_tables_ok: "hm_ok m \<Longrightarrow> hm_ok (insert_tables ts m)"
  by (induction ts arbitrary: m) (auto simp: insert_tables_def hm_ok_def distinct_update)

lemma insert_tables_get:
  assumes "hm_ok ts"
  shows "map_of (insert_tables ts m) = map_of m ++ map_of ts"
proof -
  have "map_of (insert_tables us m) = map_of m ++ map_of (rev us)" for us m
    by (induction us arbitrary: m) (auto simp: insert_tables_def update_conv' fun_eq_iff map_add_def split: option.splits)
  moreover have "map_of (rev ts) = map_of ts"
    using assms by (simp add: hm_ok_def map_of_inject_set rev_map[symmetric])
  ultimately show ?thesis by simp
qed

lemma insert_tables_same: "hm_ok ts \<Longrightarrow> same_tables (insert_tables ts []) ts"
  using insert_tables_get[of ts "[]"] insert_tables_ok[of "[]" ts]
  by (simp add: same_tables_def hm_ok_def map_of_inject_set)

lemma store_inv_rows:
  assumes "schema_rows x sch (c_docs s)" "c_schema s = Some sch" "same_tables (c_tables s) (sd_tables sch)"
  shows "store_inv x (sd_tables sch) s"
  using assms by (auto simp: store_inv_def schema_rows_def rows_inv_def schema_ok_def schema_synced_def)

lemma store_inv_schema_rows: "store_inv x (sd_tables sch) s \<Longrightarrow> schema_ok sch \<Longrightarrow> schema_rows x sch (c_docs s)"
  by (simp add: store_inv_def schema_rows_def rows_inv_def)

text \<open>
  C2: a migration of directives that leave unique keys alone and fill fields with valid values
  keeps the store invariant: every row it leaves is valid for the migrated schema, filed
  under its id in its (renamed) table, and unique indexes stay unique.
\<close>

theorem migrate_store_inv:
  assumes inv: "store_inv x (sd_tables old) s" and sch: "c_schema s = Some old" "schema_ok old"
    and safe: "data_safe_batch x old ds s"
    and run: "migrate_schema x ds False s = (Inr (r, touched), s')"
  shows "store_inv x (sd_tables (mr_schema r)) s'"
proof -
  obtain reports s1 where ds: "apply_directives x old ds s = (Inr (mr_schema r, reports, touched), s1)"
    and s': "s' = s1\<lparr>c_schema := Some (mr_schema r), c_tables := insert_tables (sd_tables (mr_schema r)) []\<rparr>"
    using run sch(1)
    by (auto simp: migrate_schema_def restoring_docs_def run_simps split: prod.splits sum.splits)
  have rows: "schema_rows x (mr_schema r) (c_docs s1)"
    using directives_keep_rows[OF store_inv_schema_rows[OF inv sch(2)] safe ds] .
  then have "hm_ok (sd_tables (mr_schema r))"
    by (simp add: schema_rows_def schema_ok_def hm_ok_def bt_ok_distinct)
  then show ?thesis
    using rows insert_tables_same by (intro store_inv_rows) (simp_all add: s')
qed

definition sample_migration :: "directive list" where
  "sample_migration = [RenameField ''users'' ''email'' ''mail'', RenameTable ''users'' ''people'',
     SetDefault ''people'' ''score'' (json_of_int 1), DropField ''notes'' ''owner'', DropTable ''comments'']"

theorem migrate_store_inv_witness:
  "case migrate_schema sample_ext sample_migration False sample_client of
     (Inr (r, touched), s') \<Rightarrow> length (c_docs s') = 4 \<and> store_inv sample_ext (sd_tables (mr_schema r)) s'
   | _ \<Rightarrow> False"
proof -
  let ?run = "migrate_schema sample_ext sample_migration False sample_client"
  have ok: "is_ok (fst ?run)" "length (c_docs (snd ?run)) = 4"
    by code_simp+
  have "schema_ok sample_schema" "data_safe_batch sample_ext sample_schema sample_migration sample_client"
    by code_simp+
  moreover have "c_schema sample_client = Some sample_schema"
    by (simp add: sample_client_def)
  ultimately show ?thesis
    using migrate_store_inv[OF sample_inv, of sample_migration] ok by (cases ?run) (auto split: sum.splits)
qed

end
