(* ===== verification/Push_Props.thy ===== *)
theory Push_Props
  imports Migrate_Props
begin

text \<open>
  Schema pushes: which of the schemas a push accepts keep every stored row valid, and that a
  rejected push changes nothing.
\<close>

section \<open>Pushes that keep the rows valid\<close>

text \<open>
  What a push has to respect beyond the comparison of the code: fields it adds are optional,
  constraints and the types they constrain are those of before, and so are unique indexes and
  the types their predicates read.
\<close>

definition lax_fields :: "table_def \<Rightarrow> table_def \<Rightarrow> bool" where
  "lax_fields ot nt = list_all (\<lambda>(f, ft). map_of (td_fields ot) f \<noteq> None \<or> is_optional ft) (td_fields nt)"

definition kept_constraints :: "table_def \<Rightarrow> table_def \<Rightarrow> bool" where
  "kept_constraints ot nt =
     list_all (\<lambda>(f, fc). map_of (td_constraints ot) f = Some fc \<and> map_of (td_fields nt) f = map_of (td_fields ot) f)
       (td_constraints nt)"

definition kept_index :: "table_def \<Rightarrow> table_def \<Rightarrow> index_def \<Rightarrow> bool" where
  "kept_index ot nt ix =
     (ix_unique ix \<longrightarrow>
        list_ex (\<lambda>o'. ix_unique o' \<and> ix_fields o' = ix_fields ix \<and> ix_where o' = ix_where ix) (td_indexes ot)
        \<and> (case ix_where ix of
             None \<Rightarrow> True
           | Some p \<Rightarrow> list_all (\<lambda>f. map_of (td_fields nt) f = map_of (td_fields ot) f) (walk_filter_expr_fields p)))"

definition kept_unique :: "table_def \<Rightarrow> table_def \<Rightarrow> bool" where
  "kept_unique ot nt = list_all (kept_index ot nt) (td_indexes nt)"

definition additive :: "schema_def \<Rightarrow> schema_def \<Rightarrow> bool" where
  "additive old new =
     list_all (\<lambda>(t, nt). case map_of (sd_tables old) t of
        None \<Rightarrow> True
      | Some ot \<Rightarrow> lax_fields ot nt \<and> kept_constraints ot nt \<and> kept_unique ot nt) (sd_tables new)"

lemma pushed_doc_valid:
  assumes ok: "table_ok ot" "table_ok nt" and lax: "lax_fields ot nt" and cs: "kept_constraints ot nt"
    and types: "\<And>f oty. map_of (td_fields ot) f = Some oty \<Longrightarrow>
      \<exists>nty. map_of (td_fields nt) f = Some nty \<and> \<not> is_type_change_rejected oty nty"
    and d: "doc_valid x ot d"
  shows "doc_valid x nt d"
proof -
  have bt: "bt_ok (td_fields ot)" "bt_ok (td_fields nt)"
    using ok by (auto simp: table_ok_def)
  have con: "check_constraints_for_field x nt f v = Inr ()" if "check_constraints_for_field x ot f v = Inr ()" for f v
  proof (cases "map_of (td_constraints nt) f")
    case (Some fc)
    then have "map_of (td_constraints ot) f = Some fc" "map_of (td_fields nt) f = map_of (td_fields ot) f"
      using cs map_of_SomeD[OF Some] by (auto simp: kept_constraints_def list_all_iff)
    then have "check_constraints_for_field x nt f v = check_constraints_for_field x ot f v"
      using Some by (intro check_constraints_cong) simp_all
    then show ?thesis using that by simp
  qed (simp add: check_constraints_for_field_def)
  have new: "is_optional nty" if "map_of (td_fields nt) f = Some nty" "map_of (td_fields ot) f = None" for f nty
    using lax that(2) map_of_SomeD[OF that(1)] by (fastforce simp: lax_fields_def list_all_iff)
  have keys: "\<not> starts_with ''_'' k \<and> map_of (td_fields ot) k \<noteq> None" if "map_of d k = Some v" for k v
    using d that unfolding doc_valid_iff[OF bt(1)] by blast
  have field: "validate_field x nt d (f, nty) = Inr ()" if f: "map_of (td_fields nt) f = Some nty" for f nty
  proof (cases "map_of (td_fields ot) f")
    case None
    then have "map_of d f = None"
      using keys[of f] by (cases "map_of d f") auto
    then show ?thesis
      using new[OF f None] by (simp add: validate_field_def)
  next
    case (Some oty)
    have rej: "\<not> is_type_change_rejected oty nty"
      using types[OF Some] f by auto
    have "validate_field x ot d (f, oty) = Inr ()"
      using d Some unfolding doc_valid_iff[OF bt(1)] by blast
    moreover have "is_optional oty \<Longrightarrow> is_optional nty"
      using accepted_keeps_optional[OF rej] by blast
    ultimately show ?thesis
      using widening_valid(3)[OF rej table_ok_field[OF ok(1) Some] table_ok_field[OF ok(2) f]] con
      by (auto simp: validate_field_def split: option.splits if_splits)
  qed
  show ?thesis
    using d keys field types unfolding doc_valid_iff[OF bt(2)] doc_valid_iff[OF bt(1)] by fastforce
qed

lemma grandfathered_kept:
  fixes old t
  assumes "lax_fields ot nt" "kept_constraints ot nt" "kept_unique ot nt"
  defines "nt' \<equiv> snd (grandfather_table old (t, nt))"
  shows "lax_fields ot nt' \<and> kept_constraints ot nt' \<and> kept_unique ot nt' \<and> td_fields nt' = td_fields nt
    \<and> (table_ok nt \<longrightarrow> table_ok nt')"
proof -
  have same: "td_fields nt' = td_fields nt" "td_constraints nt' = td_constraints nt" "td_defaults nt' = td_defaults nt"
    "td_computed nt' = td_computed nt"
    by (simp_all add: nt'_def grandfather_table_def split: option.split)
  have "kept_index ot nt' (grandfather_index o' ix) = kept_index ot nt ix" for o' ix
    by (simp add: kept_index_def same split: option.split)
  moreover have "kept_index ot nt' = kept_index ot nt"
    by (simp add: fun_eq_iff kept_index_def same split: option.split)
  ultimately have "kept_unique ot nt'"
    using assms(3) by (simp add: kept_unique_def list_all_iff) (auto simp: nt'_def grandfather_table_def split: option.splits)
  then show ?thesis
    using assms(1,2) by (simp add: lax_fields_def kept_constraints_def same table_ok_def)
qed

lemma kept_unique_clash:
  assumes "kept_unique ot nt" "rows_clash x nt r q"
  shows "rows_clash x ot r q"
proof -
  obtain ix where ix: "ix \<in> set (td_indexes nt)" "ix_unique ix" "unique_key x nt ix (row_doc r) \<noteq> None"
    "unique_key x nt ix (row_doc r) = unique_key x nt ix (row_doc q)" and live: "is_live r" "is_live q"
    using assms(2) unfolding rows_clash_def by blast
  obtain o' where o: "o' \<in> set (td_indexes ot)" "ix_unique o'" "ix_fields o' = ix_fields ix" "ix_where o' = ix_where ix"
    using assms(1) ix(1,2) by (auto simp: kept_unique_def kept_index_def list_all_iff list_ex_iff)
  have "map_of (td_fields nt) f = map_of (td_fields ot) f" if "where_reads o' f" for f
    using that assms(1) ix(1,2) o(4) by (auto simp: kept_unique_def kept_index_def list_all_iff where_reads_def split: option.splits)
  then have "unique_key x nt ix d = unique_key x ot o' d" for d
    using o(3,4) by (intro unique_key_map[where g = id]) auto
  then show ?thesis
    using ix o live by (auto simp: rows_clash_def)
qed

lemma insert_tables_over:
  assumes "hm_ok ts" "hm_ok m" "dom (map_of m) \<subseteq> dom (map_of ts)"
  shows "same_tables (insert_tables ts m) ts"
proof -
  have "map_of (insert_tables ts m) = map_of ts"
    using assms(3) insert_tables_get[OF assms(1)] by (auto simp: fun_eq_iff map_add_def split: option.split)
  then show ?thesis
    using assms(1) insert_tables_ok[OF assms(2), of ts] by (simp add: same_tables_def hm_ok_def map_of_inject_set)
qed

lemma schema_ok_grandfather: "schema_ok new \<Longrightarrow> schema_ok (grandfather_trgm (Some old) new)"
proof -
  have "table_ok (snd (grandfather_table old p)) = table_ok (snd p)" for p
    by (simp add: grandfather_table_def table_ok_def split: option.split)
  then show "schema_ok new \<Longrightarrow> schema_ok (grandfather_trgm (Some old) new)"
    by (simp add: schema_ok_def grandfather_trgm_def bt_ok_def comp_def)
qed

lemma pushed_table:
  assumes ok: "schema_ok old" "schema_ok new" and add: "additive old new"
    and det: "detect_destructive_changes old new = Inr ()" and ot: "map_of (sd_tables old) t = Some ot"
  shows "\<exists>nt. map_of (sd_tables (grandfather_trgm (Some old) new)) t = Some nt
     \<and> (\<forall>d. doc_valid x ot d \<longrightarrow> doc_valid x nt d) \<and> (\<forall>r q. rows_clash x nt r q \<longrightarrow> rows_clash x ot r q)"
proof -
  obtain nt where nt: "map_of (sd_tables new) t = Some nt"
    and types: "\<forall>(f, oty)\<in>set (td_fields ot). \<exists>nty. map_of (td_fields nt) f = Some nty \<and> \<not> is_type_change_rejected oty nty"
    using det map_of_SomeD[OF ot] unfolding detect_ok_iff by blast
  have kept: "lax_fields ot nt" "kept_constraints ot nt" "kept_unique ot nt"
    using add map_of_SomeD[OF nt] ot by (fastforce simp: additive_def list_all_iff)+
  let ?nt = "snd (grandfather_table old (t, nt))"
  note g = grandfathered_kept[OF kept, of old t]
  have tok: "table_ok ot" "table_ok ?nt"
    using schema_ok_table[OF ok(1) ot] schema_ok_table[OF ok(2) nt] g by auto
  have "doc_valid x ?nt d" if "doc_valid x ot d" for d
    using g that types by (intro pushed_doc_valid[OF tok _ _ _ that]) (auto dest!: map_of_SomeD)
  moreover have "rows_clash x ot r q" if "rows_clash x ?nt r q" for r q
    using kept_unique_clash[OF _ that] g by blast
  ultimately show ?thesis
    using nt by (auto simp: grandfather_trgm_def map_of_grandfather)
qed

lemma pushed_rows:
  assumes inv: "schema_rows x old docs" and ok: "schema_ok old" "schema_ok new" and add: "additive old new"
    and det: "detect_destructive_changes old new = Inr ()"
  shows "schema_rows x (grandfather_trgm (Some old) new) docs"
proof -
  let ?ts = "sd_tables (grandfather_trgm (Some old) new)"
  note tables = pushed_table[OF ok add det, of _ _ x]
  have hm: "hm_ok docs" and rows: "rows_inv x (sd_tables old) docs"
    using inv by (auto simp: schema_rows_def rows_inv_def)
  have valid: "row_ok x (sd_tables old) (t, i) row" if "map_of docs (t, i) = Some row" for t i row
    using rows that unfolding rows_inv_get[OF hm] by blast
  have "row_ok x ?ts (t, i) row" if "map_of docs (t, i) = Some row" for t i row
    using valid[OF that] tables[of t] by (auto simp: row_ok_def doc_valid_def split: option.splits)
  moreover have "\<not> rows_clash x td r q" if rq: "map_of docs (t, i) = Some r" "map_of docs (t, j) = Some q" "i \<noteq> j"
    "map_of ?ts t = Some td" for t i j r q td
  proof -
    obtain ot where ot: "map_of (sd_tables old) t = Some ot"
      using valid[OF rq(1)] by (auto simp: row_ok_def split: option.splits)
    then have "\<not> rows_clash x ot r q"
      using rows rq(1-3) unfolding rows_inv_get[OF hm] by blast
    then show ?thesis
      using tables[OF ot] rq(4) by auto
  qed
  ultimately show ?thesis
    using schema_ok_grandfather[OF ok(2)] by (auto simp: schema_rows_def rows_inv_get[OF hm])
qed

text \<open>
  C1: an accepted push that only adds optional fields, plain indexes and tables keeps the store
  invariant without touching a row: every stored document is valid for the pushed schema.
\<close>

theorem push_store_inv:
  assumes inv: "store_inv x (sd_tables old) s" and sch: "c_schema s = Some old" "schema_ok old" "schema_ok new"
    and add: "additive old new" and run: "push_schema x new s = (Inr (), s')"
  shows "store_inv x (sd_tables (grandfather_trgm (Some old) new)) s' \<and> c_docs s' = c_docs s"
proof -
  let ?new = "grandfather_trgm (Some old) new"
  have det: "detect_destructive_changes old ?new = Inr ()"
    and s': "s' = s\<lparr>c_schema := Some ?new, c_tables := insert_tables (sd_tables ?new) (c_tables s)\<rparr>"
    using run sch(1) by (auto simp: push_schema_def run_simps Let_def split: sum.splits)
  have det': "detect_destructive_changes old new = Inr ()"
    using det by (simp add: detect_grandfathered)
  have rows: "schema_rows x ?new (c_docs s)"
    using pushed_rows[OF store_inv_schema_rows[OF inv sch(2)] sch(2,3) add det'] .
  have "dom (map_of (c_tables s)) \<subseteq> dom (map_of (sd_tables ?new))"
    using pushed_table[OF sch(2,3) add det'] store_inv_tables[OF inv] by fastforce
  moreover have "hm_ok (sd_tables ?new)"
    using rows by (simp add: schema_rows_def schema_ok_def hm_ok_def bt_ok_distinct)
  moreover have "hm_ok (c_tables s)"
    using inv by (simp add: store_inv_def same_tables_def)
  ultimately have "same_tables (c_tables s') (sd_tables ?new)"
    using insert_tables_over by (simp add: s')
  then show ?thesis
    using rows store_inv_rows[of x ?new s'] by (simp add: s')
qed

definition sample_push :: schema_def where
  "sample_push = \<lparr>sd_tables =
     [(''comments'', sample_comments), (''notes'', sample_notes), (''posts'', sample_posts),
      (''tags'', empty_table\<lparr>td_fields := [(''name'', TyString)]\<rparr>),
      (''users'', sample_users\<lparr>
         td_fields := [(''bio'', TyOptional TyString), (''email'', TyOptional TyString), (''score'', TyNumber)],
         td_indexes := td_indexes sample_users @ [plain_index ''by_bio'' [''bio''] False]\<rparr>)]\<rparr>"

theorem push_store_inv_witness:
  "fst (push_schema sample_ext sample_push sample_client) = Inr ()
   \<and> store_inv sample_ext (sd_tables (grandfather_trgm (Some sample_schema) sample_push))
       (snd (push_schema sample_ext sample_push sample_client))"
proof -
  have ok: "fst (push_schema sample_ext sample_push sample_client) = Inr ()"
    by code_simp
  have sch: "c_schema sample_client = Some sample_schema"
    by (simp add: sample_client_def)
  have "schema_ok sample_schema" "schema_ok sample_push" "additive sample_schema sample_push"
    by code_simp+
  then show ?thesis
    using push_store_inv[OF sample_inv sch] ok prod.collapse[of "push_schema sample_ext sample_push sample_client"] by auto
qed

section \<open>Well-formed schemas\<close>

fun directive_ok :: "directive \<Rightarrow> bool" where
  "directive_ok (ChangeType table field to c dflt) = ft_ok to"
| "directive_ok _ = True"

lemma schema_rows_Nil: "schema_rows x sch [] = schema_ok sch"
  by (simp add: schema_rows_def rows_inv_def hm_ok_def unique_ok_def)

lemma table_ok_parts:
  "table_ok td \<Longrightarrow> table_ok (drop_table_field f td)"
  "table_ok td \<Longrightarrow> table_ok (drop_index name td)"
  "table_ok td \<Longrightarrow> ft_ok ft \<Longrightarrow> table_ok (td\<lparr>td_fields := bt_insert f ft (td_fields td)\<rparr>)"
  using set_bt_remove_sub[of f "td_fields td"] set_bt_insert_sub[of f ft "td_fields td"]
  by (auto simp: table_ok_def drop_table_field_def drop_index_def)

lemma directive_schema_ok:
  assumes ok: "schema_ok sch" "directive_ok d" and run: "apply_migration_directive x sch d s = (Inr (sch', rep, t), s')"
  shows "schema_ok sch'"
proof (cases "\<exists>a b. d = RenameTable a b")
  case True
  then show ?thesis
    using run ok rename_table_keeps_rows[of undefined sch "[]"]
    by (auto simp: apply_rename_table_directive_def run_simps Let_def migrate_table_def schema_rows_Nil table_ids_def
        split: option.splits sum.splits prod.splits if_splits)
next
  case False
  then show ?thesis
    using run ok drop_table_keeps_rows[of undefined sch "[]"] schema_ok_table[OF ok(1)]
    by (cases d)
       (auto simp: apply_rename_field_directive_def apply_change_type_directive_def apply_drop_field_directive_def
          apply_drop_table_directive_def apply_drop_index_directive_def apply_set_default_directive_def
          apply_eval_expr_directive_def rewrite_rows_def run_simps migrate_table_def schema_rows_Nil
          intro!: schema_ok_put table_ok_parts table_ok_rename
          split: option.splits sum.splits prod.splits if_splits)
qed

text \<open>
  C3: a migration derives a well-formed schema from a well-formed one: its tables and the
  maps inside each definition stay ordered and free of duplicate names, through every directive.
\<close>

theorem migrate_well_formed:
  assumes "c_schema s = Some old" "schema_ok old" "list_all directive_ok ds"
    and run: "migrate_schema x ds dry_run s = (Inr (r, touched), s')"
  shows "schema_ok (mr_schema r)"
proof -
  have fold: "schema_ok sch'" if "apply_directives x sch ds s = (Inr (sch', reps, ts), s')" "schema_ok sch" "list_all directive_ok ds"
    for sch ds s sch' reps ts s'
    using that
  proof (induction ds arbitrary: sch s reps ts)
    case (Cons d ds)
    then obtain mid rep t s1 reps1 ts1 where "apply_migration_directive x sch d s = (Inr (mid, rep, t), s1)"
      "apply_directives x mid ds s1 = (Inr (sch', reps1, ts1), s')"
      by (auto simp: run_simps split: prod.splits sum.splits)
    then show ?case
      using Cons.IH directive_schema_ok Cons.prems(2,3) by fastforce
  qed (simp add: run_simps)
  obtain reps ts s1 where "apply_directives x old ds s = (Inr (mr_schema r, reps, ts), s1)"
    using run assms(1)
    by (cases dry_run) (auto simp: migrate_schema_def restoring_docs_def run_simps split: prod.splits sum.splits)
  then show ?thesis
    using fold assms(2,3) by blast
qed

theorem migrate_well_formed_witness:
  "case migrate_schema sample_ext [ChangeType ''users'' ''score'' TyString ToString None] True sample_client of
     (Inr (r, touched), s') \<Rightarrow> schema_ok (mr_schema r) | _ \<Rightarrow> False"
proof -
  let ?run = "migrate_schema sample_ext [ChangeType ''users'' ''score'' TyString ToString None] True sample_client"
  have "is_ok (fst ?run)" "schema_ok sample_schema"
    by code_simp+
  moreover have "c_schema sample_client = Some sample_schema"
    by (simp add: sample_client_def)
  ultimately show ?thesis
    using migrate_well_formed[of sample_client sample_schema "[ChangeType ''users'' ''score'' TyString ToString None]" sample_ext True]
    by (cases ?run) (auto split: sum.splits)
qed

section \<open>Errors\<close>

definition errs :: "'e set \<Rightarrow> 'e + 'a \<Rightarrow> bool" where
  "errs E r \<longleftrightarrow> (\<forall>e. r = Inl e \<longrightarrow> e \<in> E)"

lemma errs_rules [intro!]:
  "errs E (Inr v)"
  "e \<in> E \<Longrightarrow> errs E (Inl e)"
  "errs E r \<Longrightarrow> (\<And>v. r = Inr v \<Longrightarrow> errs E (f v)) \<Longrightarrow> errs E (bindE r f)"
  by (auto simp: errs_def bindE_def split: sum.splits)

lemma errs_checks [intro!]:
  "e \<in> E \<Longrightarrow> errs E (ensure b e)"
  "(\<And>v. errs E (g v)) \<Longrightarrow> errs E (each_option g o')"
  by (auto simp: errs_def ensure_def each_option_def split: option.splits)

lemma errs_each [intro!]: "(\<And>v. v \<in> set vs \<Longrightarrow> errs E (g v)) \<Longrightarrow> errs E (eachE g vs)"
  by (induction vs) auto

lemma errs_if [intro!]: "(b \<Longrightarrow> errs E r) \<Longrightarrow> (\<not> b \<Longrightarrow> errs E q) \<Longrightarrow> errs E (if b then r else q)"
  by simp

abbreviation schema_errors :: "error_code set" where
  "schema_errors \<equiv> {SchemaViolation, BadRequest}"

lemma errs_column: "errs schema_errors (index_column_type ft)"
  by (induction ft rule: index_column_type.induct) auto

lemma errs_case_whens: "errs schema_errors (validate_computed_case_whens ve)" "errs schema_errors (validate_case_when cw)"
  by (induction ve and cw rule: validate_computed_case_whens_validate_case_when.induct) auto

lemma errs_constraints: "errs schema_errors (validate_constraints x td)"
  by (auto simp: validate_constraints_def validate_constraints_entry_def check_bound_def Let_def split: option.splits prod.splits)

lemma errs_validate_table: "errs schema_errors (validate_table x td)"
  by (auto simp: validate_table_def validate_index_def validate_index_field_def validate_ttl_def validate_updated_at_def
      validate_auto_increment_def validate_computed_def validate_computed_entry_def
      intro!: errs_constraints errs_column errs_case_whens split: option.splits prod.splits)

lemma errs_validate_schema: "errs schema_errors (validate_schema x schema)"
  unfolding validate_schema_def by (auto intro!: errs_validate_table)

text \<open>For methods: the errors a run can end with, from any state.\<close>

definition throws :: "'e set \<Rightarrow> ('s, 'e, 'a) meth \<Rightarrow> bool" where
  "throws E m \<longleftrightarrow> (\<forall>s. errs E (fst (m s)))"

lemma throws_rules [intro!]:
  "throws E (returnM v)" "e \<in> E \<Longrightarrow> throws E (throwM e)" "errs E r \<Longrightarrow> throws E (liftM r)" "throws E (getM g)"
  "(\<And>s. errs E (h s)) \<Longrightarrow> throws E (askM h)" "throws E (modifyM k)"
  by (auto simp: throws_def run_simps)

lemma throws_bind [intro!]: "throws E m \<Longrightarrow> (\<And>v. throws E (f v)) \<Longrightarrow> throws E (bindM m f)"
  by (auto simp: throws_def run_simps errs_def split: prod.splits sum.splits) (metis fst_conv)+

lemma throws_restoring [intro!]: "throws E m \<Longrightarrow> throws E (restoring_docs m)"
  by (auto simp: throws_def restoring_docs_def errs_def split: prod.splits sum.splits) (metis fst_conv)

lemma throws_if [intro!]: "throws E m \<Longrightarrow> throws E n \<Longrightarrow> throws E (if b then m else n)"
  by simp

lemma errs_migrate_table [intro!]: "errs schema_errors (migrate_table sch t)"
  by (auto simp: migrate_table_def split: option.split)

lemma throws_change:
  "throws schema_errors (\<lambda>s. case change_rows x table field c dflt (c_docs s) of (r, docs) \<Rightarrow> (r, s\<lparr>c_docs := docs\<rparr>))"
proof -
  have "errs schema_errors (fst (change_rows x table field c dflt docs))" for docs
    by (induction x table field c dflt docs rule: change_rows.induct) (auto split: option.splits prod.splits)
  then show ?thesis
    by (simp add: throws_def split: prod.split) (metis fst_conv)
qed

lemma throws_directive: "throws schema_errors (apply_migration_directive x planned d)"
  by (cases d)
     (auto simp: apply_rename_field_directive_def apply_rename_table_directive_def apply_change_type_directive_def
        apply_drop_field_directive_def apply_drop_table_directive_def apply_drop_index_directive_def
        apply_set_default_directive_def apply_eval_expr_directive_def rewrite_rows_def Let_def
        intro!: throws_change split: option.split)

lemma throws_directives: "throws schema_errors (apply_directives x planned ds)"
  by (induction ds arbitrary: planned) (auto intro!: throws_directive split: prod.split)

text \<open>
  C2: a schema change that fails reports a bad request or a schema violation and nothing else,
  whatever the directives, the schema and the state.
\<close>

theorem schema_change_errors:
  assumes "fst (migrate_schema x ds dry_run s) = Inl e \<or> fst (push_schema x new s) = Inl e"
  shows "e = BadRequest \<or> e = SchemaViolation"
proof -
  have "throws schema_errors (migrate_schema x ds dry_run)"
    unfolding migrate_schema_def
    by (auto intro!: throws_directives errs_validate_schema split: prod.split option.split)
  moreover have "throws schema_errors (push_schema x new)"
    unfolding push_schema_def Let_def by (auto intro!: errs_validate_schema split: option.split sum.split)
  ultimately show ?thesis
    using assms by (auto simp: throws_def errs_def)
qed

theorem schema_change_errors_witness:
  "fst (migrate_schema sample_ext [DropTable ''gone''] False sample_client) = Inl BadRequest
   \<and> (BadRequest = BadRequest \<or> BadRequest = SchemaViolation)"
proof -
  have failed: "fst (migrate_schema sample_ext [DropTable ''gone''] False sample_client) = Inl BadRequest"
    by code_simp
  show ?thesis
    using schema_change_errors[OF disjI1, OF failed] failed by blast
qed

end
