(* ===== verification/Write_Set.thy ===== *)
theory Write_Set
  imports Frame
begin

text \<open>
  The tables a transaction reports as written: rows of any other table are exactly those
  before it.  The fan-out to subscribers rests on this.
\<close>

definition table_rows :: "string \<Rightarrow> client \<Rightarrow> (row_key \<times> stored_row) list" where
  "table_rows u s = filter (\<lambda>e. fst (fst e) = u) (c_docs s)"

section \<open>Relations kept by operations on some tables\<close>

locale table_rel = counter_rel R for R :: "client \<Rightarrow> client \<Rightarrow> bool" +
  fixes free :: "string \<Rightarrow> bool"
  assumes put_write: "free t \<Longrightarrow> R s (put_row (t, i) row s)"
    and drop_write: "free t \<Longrightarrow> R s (drop_row (t, i) s)"
begin

lemma keeps_update_at: "free t \<Longrightarrow> keeps R (modifyM (update_row (t, i) f))"
  by (rule keeps_modify) (simp add: update_row_def put_write refl split: option.splits)

lemma keeps_writes_at: "free t \<Longrightarrow> keeps R (modifyM (put_row (t, i) row))" "free t \<Longrightarrow> keeps R (modifyM (drop_row (t, i)))"
  by (rule keeps_modify; simp add: put_write drop_write)+

lemma keeps_do_update_at: "free t \<Longrightarrow> keeps R (do_update x td t i d)"
  unfolding do_update_def by (intro keeps_rules keeps_update_at)

lemma keeps_do_insert_at: "free t \<Longrightarrow> keeps R (do_insert x t td d)"
  unfolding do_insert_def Let_def
  by (intro keeps_rules keeps_reads keeps_stamp_auto keeps_new_id keeps_writes_at)

lemma keeps_do_patch_at: "free t \<Longrightarrow> keeps R (do_patch x td t i p)"
  unfolding do_patch_def by (intro keeps_rules keeps_reads keeps_do_update_at)

lemma keeps_do_replace_at: "free t \<Longrightarrow> keeps R (do_replace x td t i d)"
  unfolding do_replace_def Let_def by (intro keeps_rules keeps_reads keeps_update_at)

lemma keeps_do_delete_at: "free t \<Longrightarrow> keeps R (do_delete t i)"
  unfolding do_delete_def by (intro keeps_rules keeps_writes_at)

lemma keeps_do_soft_delete_at: "free t \<Longrightarrow> keeps R (do_soft_delete t i)"
  unfolding do_soft_delete_def by (intro keeps_rules keeps_reads keeps_update_at)

lemma keeps_do_undelete_at: "free t \<Longrightarrow> keeps R (do_undelete x td t i)"
  unfolding do_undelete_def by (auto intro!: keeps_rules keeps_update_at)

lemmas keeps_at = keeps_reads keeps_do_update_at keeps_do_insert_at keeps_do_patch_at keeps_do_replace_at
  keeps_do_delete_at keeps_do_soft_delete_at keeps_do_undelete_at keeps_scan

end

lemma filter_hm_insert: "\<not> P k \<Longrightarrow> filter (\<lambda>e. P (fst e)) (hm_insert k v m) = filter (\<lambda>e. P (fst e)) m"
  by (induction m) auto

lemma filter_hm_remove: "\<not> P k \<Longrightarrow> filter (\<lambda>e. P (fst e)) (hm_remove k m) = filter (\<lambda>e. P (fst e)) m"
  by (induction m) auto

interpretation other_rows: table_rel "same_rel (table_rows u)" "\<lambda>t. t \<noteq> u" for u
  by unfold_locales
     (simp_all add: same_rel_def table_rows_def put_row_def drop_row_def
        filter_hm_insert[of "\<lambda>k. fst k = u"] filter_hm_remove[of "\<lambda>k. fst k = u"])

interpretation rows_docs: schedule_rel "same_rel (table_rows u)" for u
  by unfold_locales (simp_all add: same_rel_def table_rows_def)

section \<open>Successful runs\<close>

text \<open>What a method does to the state when it returns; a failure is rolled back.\<close>

definition commits :: "('s \<Rightarrow> 's \<Rightarrow> bool) \<Rightarrow> ('s, 'e, 'a) meth \<Rightarrow> bool" where
  "commits R m \<longleftrightarrow> (\<forall>s y s'. m s = (Inr y, s') \<longrightarrow> R s s')"

lemma commits_keeps: "keeps R m \<Longrightarrow> commits R m"
  unfolding commits_def by (blast dest: keepsD)

context preorder_rel
begin

lemma commits_bind: "commits R m \<Longrightarrow> (\<And>y. commits R (f y)) \<Longrightarrow> commits R (bindM m f)"
  unfolding commits_def by (auto simp: run_simps split: prod.splits sum.splits) (metis trans)

lemma commits_each: "(\<And>y. commits R (f y)) \<Longrightarrow> commits R (eachM f ys)"
  by (induction ys) (auto intro!: commits_bind keeps_pure[THEN commits_keeps])

lemmas commits_rules = keeps_pure[THEN commits_keeps] commits_bind commits_each

end

section \<open>Cascades\<close>

definition touched_rows :: "string \<Rightarrow> client \<times> cascade \<Rightarrow> client \<times> cascade \<Rightarrow> bool" where
  "touched_rows u sc sc' \<longleftrightarrow>
     set (cs_touched (snd sc)) \<subseteq> set (cs_touched (snd sc'))
     \<and> (u \<in> set (cs_touched (snd sc')) \<or> table_rows u (fst sc') = table_rows u (fst sc))"

interpretation touched: preorder_rel "touched_rows u" for u
  by unfold_locales (auto simp: touched_rows_def)

lemma touched_write:
  assumes "t \<noteq> u \<Longrightarrow> keeps (same_rel (table_rows u)) m"
  shows "commits (touched_rows u) (bindM (on_client m) (\<lambda>_. touch t))"
proof -
  have "table_rows u s' = table_rows u s" if "t \<noteq> u" "m s = (r, s')" for s r s'
    using keepsD[OF assms that(2)] that(1) by (simp add: same_rel_def)
  then show ?thesis
    unfolding commits_def
    by (auto simp: run_simps on_client_def touch_def touched_rows_def split: prod.splits sum.splits)
qed

lemma touched_prims: "commits (touched_rows u) (cascade_enter k)" "commits (touched_rows u) charge"
  by (auto simp: commits_def cascade_enter_def charge_def touched_rows_def split: if_splits prod.splits)

lemma touched_entry:
  assumes "\<And>t i. commits (touched_rows u) (rec t i)"
  shows "commits (touched_rows u) (cascade_entry rec x i e)"
  unfolding cascade_entry_def set_null_child_def
  by (auto intro!: touched.commits_rules touched_write other_rows.keeps_at touched_prims assms
      split: prod.splits on_delete_action.splits)

lemma touched_fuel: "commits (touched_rows u) (cascade_fuel n x h t i)"
proof (induction n arbitrary: t i)
  case (Suc n)
  then show ?case
    by (auto simp: cascade_body_def
        intro!: touched.commits_rules touched_entry touched_write other_rows.keeps_at touched_prims)
qed (auto intro!: touched.commits_rules)

section \<open>Steps and transactions\<close>

text \<open>A step that returns reports every table whose rows it changed.\<close>

definition reports :: "string \<Rightarrow> step_out m \<Rightarrow> bool" where
  "reports u m \<longleftrightarrow> (\<forall>s r ws s'. m s = (Inr (r, ws), s') \<longrightarrow> u \<in> set ws \<or> table_rows u s' = table_rows u s)"

lemma reports_kept: "keeps (same_rel (table_rows u)) m \<Longrightarrow> reports u m"
  unfolding reports_def by (auto dest: keepsD simp: same_rel_def)

definition names :: "string \<Rightarrow> step_out m \<Rightarrow> bool" where
  "names t m \<longleftrightarrow> (\<forall>s r ws s'. m s = (Inr (r, ws), s') \<longrightarrow> t \<in> set ws)"

lemma names_rules:
  "names t (returnM (r, [t]))" "names t (throwM e)" "(\<And>y. names t (f y)) \<Longrightarrow> names t (bindM m f)"
  by (auto simp: names_def run_simps split: prod.splits sum.splits)

lemma reports_written:
  assumes "t \<noteq> u \<Longrightarrow> keeps (same_rel (table_rows u)) m" "names t m"
  shows "reports u m"
proof (cases "t = u")
  case True
  then show ?thesis using assms(2) by (auto simp: reports_def names_def)
qed (use assms(1) reports_kept in blast)

lemma reports_cascade:
  assumes "\<And>u. commits (touched_rows u) m"
  shows "reports u (bindM (with_cascade m) (\<lambda>touched. returnM (f touched, touched)))"
proof -
  have "u \<in> set (cs_touched c) \<or> table_rows u s' = table_rows u s" if "m (s, fresh_cascade) = (Inr y, (s', c))" for s y s' c
    using assms[of u] that by (auto simp: commits_def touched_rows_def)
  then show ?thesis
    unfolding reports_def by (fastforce simp: with_cascade_def run_simps split: prod.splits sum.splits)
qed

lemma reports_bind:
  assumes "keeps (same_rel (table_rows u)) m" "\<And>y. reports u (f y)"
  shows "reports u (bindM m f)"
proof -
  have "table_rows u s' = table_rows u s" if "m s = (r, s')" for s r s'
    using keepsD[OF assms(1) that] by (simp add: same_rel_def)
  then show ?thesis
    using assms(2) unfolding reports_def by (auto simp: run_simps split: prod.splits sum.splits) metis
qed

lemma reports_delete: "reports u (step_delete x t i)"
proof -
  have "reports u (bindM (do_soft_delete t i) (\<lambda>_. returnM (RNull, [t])))"
    by (rule reports_written[where t = t]) (auto intro!: same.keeps_rules other_rows.keeps_at names_rules)
  moreover have "reports u (bindM (with_cascade (delete_row_cascade x False t i)) (\<lambda>touched. returnM (RNull, touched)))"
    unfolding delete_row_cascade_def by (intro reports_cascade touched_fuel)
  ultimately show ?thesis
    unfolding step_delete_def table_of_def by (auto intro!: reports_bind same.keeps_pure)
qed

lemma reports_delete_by_query: "reports u (step_delete_by_query x t f l)"
proof -
  have "reports u (bindM (with_cascade (eachM (delete_row_cascade x False t) ids)) (\<lambda>touched. returnM (RDeleteByQuery n b, touched)))"
    for ids n b
    unfolding delete_row_cascade_def by (intro reports_cascade touched.commits_each touched_fuel)
  then have "reports u (bindM (table_of t) (\<lambda>td. bindM (scan_ids_by_filter x td t f l) (\<lambda>(ids, truncated).
      bindM (with_cascade (eachM (delete_row_cascade x False t) ids)) (\<lambda>touched.
      returnM (RDeleteByQuery (length ids) truncated, touched)))))"
    unfolding table_of_def
    by (intro reports_bind[OF same.keeps_pure(5)] reports_bind[OF other_rows.keeps_scan]) (auto split: prod.split)
  moreover have "step_delete_by_query x t f l = bindM (table_of t) (\<lambda>td. bindM (scan_ids_by_filter x td t f l) (\<lambda>(ids, truncated).
      bindM (with_cascade (eachM (delete_row_cascade x False t) ids)) (\<lambda>touched.
      returnM (RDeleteByQuery (length ids) truncated, touched))))"
    by (auto simp: step_delete_by_query_def delete_by_query_def fun_eq_iff run_simps split: prod.splits sum.splits)
  ultimately show ?thesis by simp
qed

text \<open>The table a step writes, when it is one table known from the step.\<close>

fun written_table :: "step \<Rightarrow> string option" where
  "written_table (Insert t d) = Some t"
| "written_table (InsertMany t ds) = Some t"
| "written_table (Upsert t ix eq ins p) = Some t"
| "written_table (UpsertMany t ix ds) = Some t"
| "written_table (Patch t i p) = Some t"
| "written_table (AdjustCounter t i f d mn mx e) = Some t"
| "written_table (Replace t i d) = Some t"
| "written_table (Undelete t i) = Some t"
| "written_table (PatchByQuery t f p l) = Some t"
| "written_table _ = None"

fun deletes :: "step \<Rightarrow> bool" where
  "deletes (Delete t i) = True"
| "deletes (DeleteByQuery t f l) = True"
| "deletes _ = False"

lemmas step_defs = step_insert_def step_insert_many_def step_upsert_def step_upsert_many_def step_patch_def
  step_adjust_counter_def step_replace_def step_undelete_def step_expect_version_def step_expect_fields_def
  step_expect_absent_def step_expect_no_match_def step_patch_by_query_def patch_by_query_def step_workflow_def
  table_of_def step_schedule_def

lemma names_step: "written_table st = Some t \<Longrightarrow> names t (run_step x st)"
  by (cases st) (auto simp: step_defs intro!: names_rules split: prod.splits list.splits)

lemma keeps_other_rows:
  "\<not> deletes st \<Longrightarrow> written_table st \<noteq> Some u \<Longrightarrow> keeps (same_rel (table_rows u)) (run_step x st)"
  by (cases st)
     (auto simp: step_defs
      intro!: same.keeps_rules other_rows.keeps_at rows_docs.keeps_schedule rows_docs.keeps_step_cancel
      split: prod.splits list.splits step_result.splits)

lemma reports_step: "reports u (run_step x st)"
proof (cases "deletes st")
  case True
  then show ?thesis
    by (cases st) (auto simp: reports_delete reports_delete_by_query)
next
  case False
  then show ?thesis
    using keeps_other_rows[OF False, of u x] reports_kept reports_written[of u u, OF _ names_step]
    by (cases "written_table st = Some u") auto
qed

lemma reports_execute: "reports u (execute_step x st)"
  unfolding execute_step_def by (rule reports_bind[OF same.keeps_pure(5) reports_step])

lemma steps_report:
  "mapM (execute_step x) sts s = (Inr outs, s') \<Longrightarrow> u \<notin> \<Union> (set (map (set \<circ> snd) outs)) \<Longrightarrow>
   table_rows u s' = table_rows u s"
proof (induction sts arbitrary: s outs)
  case (Cons st sts)
  then obtain r ws s1 outs1 where run: "execute_step x st s = (Inr (r, ws), s1)" "mapM (execute_step x) sts s1 = (Inr outs1, s')"
    "outs = (r, ws) # outs1"
    by (auto simp: run_simps split: prod.splits sum.splits)
  then show ?case
    using Cons.IH[OF run(2)] Cons.prems(2) reports_execute[of u x st] by (auto simp: reports_def)
qed (simp add: run_simps)

lemma map_of_table_rows: "map_of (table_rows t s) (t, i) = map_of (c_docs s) (t, i)"
proof -
  have "map_of (filter (\<lambda>e. fst (fst e) = t) m) (t, i) = map_of m (t, i)" for m :: "(row_key \<times> stored_row) list"
    by (induction m) auto
  then show ?thesis
    by (simp add: table_rows_def)
qed

lemma transaction_rows:
  assumes run: "execute_transaction x txn s = (Inr (results, write_set), s')" and u: "u \<notin> write_set"
  shows "table_rows u s' = table_rows u s"
proof -
  obtain d s1 outs s2 where admit: "check_deadline d s = (Inr (), s1)" "mapM (execute_step x) (txn_steps txn) s1 = (Inr outs, s2)"
    "check_deadline d s2 = (Inr (), s')" "write_set = \<Union> (set (map (set \<circ> snd) outs))"
    using run
    by (auto simp: execute_transaction_def rollback_on_error_def run_steps_def run_simps split: prod.splits sum.splits)
  then show ?thesis
    using steps_report[OF admit(2)] u check_deadline_data[OF admit(1)] check_deadline_data[OF admit(3)]
    by (simp add: table_rows_def)
qed

text \<open>
  C1: the write set of a committed transaction is complete: the rows of every table outside it
  are exactly those before the transaction, whatever the steps, the cascades they run and
  the order in which they run them.
\<close>

theorem write_set_complete:
  assumes "execute_transaction x txn s = (Inr (results, write_set), s')"
  shows "map_of (c_docs s') |` {k. fst k \<notin> write_set} = map_of (c_docs s) |` {k. fst k \<notin> write_set}"
proof (rule ext)
  fix k :: row_key
  have at: "map_of (table_rows (fst k) st) k = map_of (c_docs st) k" for st
    using map_of_table_rows[of "fst k" st "snd k"] by simp
  have "map_of (c_docs s') k = map_of (c_docs s) k" if "fst k \<notin> write_set"
    using transaction_rows[OF assms that] by (simp only: at[symmetric])
  then show "(map_of (c_docs s') |` {k. fst k \<notin> write_set}) k = (map_of (c_docs s) |` {k. fst k \<notin> write_set}) k"
    by (simp add: restrict_map_def)
qed

theorem write_set_complete_witness:
  "(case fst (execute_transaction sample_ext (Transaction [Delete ''posts'' (sample_id CHR ''c'')]) sample_client) of
      Inr (results, ws) \<Rightarrow> ws = {''posts'', ''comments''} | Inl _ \<Rightarrow> False)
   \<and> map_of (c_docs (snd (execute_transaction sample_ext (Transaction [Delete ''posts'' (sample_id CHR ''c'')]) sample_client)))
       |` {k. fst k \<notin> {''posts'', ''comments''}}
     = map_of (c_docs sample_client) |` {k. fst k \<notin> {''posts'', ''comments''}}"
proof -
  let ?run = "execute_transaction sample_ext (Transaction [Delete ''posts'' (sample_id CHR ''c'')]) sample_client"
  have ok: "case fst ?run of Inr (results, ws) \<Rightarrow> ws = {''posts'', ''comments''} | Inl _ \<Rightarrow> False"
    by code_simp
  then obtain results s' where "?run = (Inr (results, {''posts'', ''comments''}), s')"
    by (cases ?run) (auto split: sum.splits)
  then show ?thesis
    using ok write_set_complete[of sample_ext _ sample_client results "{''posts'', ''comments''}" s'] by simp
qed

end
