(* ===== verification/Reactive.thy ===== *)
theory Reactive
  imports Write_Set Run_Query Scheduler Migrate
begin

text \<open>
  Subscriptions of \<^verbatim>\<open>rust-client/src/in_memory/mod.rs\<close>: \<^verbatim>\<open>subscribe\<close>, the handle's \<^verbatim>\<open>unsubscribe\<close>
  (and its drop), \<^verbatim>\<open>notify_subs\<close>, and the calls that fan out: \<^verbatim>\<open>execute_transaction\<close>, \<^verbatim>\<open>mutate\<close>,
  \<^verbatim>\<open>migrate_schema\<close> and \<^verbatim>\<open>tick\<close>.  A callback is a name; the calls made so far are a log of names
  and values.  The shared flag of a handle is the flag of the subscription with its number.
\<close>

section \<open>State\<close>

record subscription =
  sub_handle :: nat
  sub_query :: query
  sub_table :: string
  sub_alive :: bool
  sub_callback :: string
  sub_last :: "string option"

record reactive =
  rx_client :: client
  rx_subscribers :: "subscription list"
  rx_handles :: nat
  rx_calls :: "(string \<times> json) list"

definition subscribe :: "ext \<Rightarrow> query \<Rightarrow> string \<Rightarrow> reactive \<Rightarrow> nat \<times> reactive" where
  "subscribe x q on_update r =
     (let sub = \<lparr>sub_handle = rx_handles r, sub_query = q, sub_table = q_table q, sub_alive = True,
                sub_callback = on_update, sub_last = None\<rparr>
      in (rx_handles r,
          case run_query x (rx_client r) q of
            Inr initial \<Rightarrow>
              r\<lparr>rx_subscribers := rx_subscribers r @ [sub\<lparr>sub_last := Some (diff_canonical x q initial)\<rparr>],
                rx_handles := Suc (rx_handles r), rx_calls := rx_calls r @ [(on_update, initial)]\<rparr>
          | Inl _ \<Rightarrow> r\<lparr>rx_subscribers := rx_subscribers r @ [sub], rx_handles := Suc (rx_handles r)\<rparr>))"

definition unsubscribe :: "nat \<Rightarrow> reactive \<Rightarrow> reactive" where
  "unsubscribe h r =
     r\<lparr>rx_subscribers := map (\<lambda>sub. if sub_handle sub = h then sub\<lparr>sub_alive := False\<rparr> else sub) (rx_subscribers r)\<rparr>"

text \<open>One subscription of the loop: the subscription with its last value, and the call to make.\<close>

definition notify_one :: "ext \<Rightarrow> client \<Rightarrow> string set \<Rightarrow> subscription \<Rightarrow> subscription \<times> (string \<times> json) list" where
  "notify_one x s write_set sub =
     (if \<not> sub_alive sub then (sub, [])
      else if sub_table sub \<notin> write_set then (sub, [])
      else
        (case run_query x s (sub_query sub) of
           Inl _ \<Rightarrow> (sub, [])
         | Inr next \<Rightarrow>
             let next_canon = diff_canonical x (sub_query sub) next
             in if sub_last sub = Some next_canon then (sub, [])
                else (sub\<lparr>sub_last := Some next_canon\<rparr>, [(sub_callback sub, next)])))"

definition notify_subs :: "ext \<Rightarrow> string set \<Rightarrow> reactive \<Rightarrow> reactive" where
  "notify_subs x write_set r =
     (let outs = map (notify_one x (rx_client r) write_set) (rx_subscribers r)
      in r\<lparr>rx_subscribers := filter sub_alive (map fst outs), rx_calls := rx_calls r @ concat (map snd outs)\<rparr>)"

section \<open>Writes with fan-out\<close>

definition rx_execute_transaction :: "ext \<Rightarrow> transaction \<Rightarrow> reactive \<Rightarrow> step_result list res \<times> reactive" where
  "rx_execute_transaction x txn r =
     (case execute_transaction x txn (rx_client r) of
        (Inl e, s) \<Rightarrow> (Inl e, r\<lparr>rx_client := s\<rparr>)
      | (Inr (results, write_set), s) \<Rightarrow> (Inr results, notify_subs x write_set (r\<lparr>rx_client := s\<rparr>)))"

definition remember :: "string option \<Rightarrow> step_result list \<Rightarrow> client \<Rightarrow> client" where
  "remember mut_id results s =
     (case mut_id of
        None \<Rightarrow> s
      | Some mid \<Rightarrow> s\<lparr>c_idempotency := hm_insert mid results (c_idempotency s)\<rparr>)"

definition rx_mutate :: "ext \<Rightarrow> transaction \<Rightarrow> string option \<Rightarrow> reactive \<Rightarrow> step_result list res \<times> reactive" where
  "rx_mutate x txn mut_id r =
     (case (case mut_id of None \<Rightarrow> None | Some mid \<Rightarrow> map_of (c_idempotency (rx_client r)) mid) of
        Some results \<Rightarrow> (Inr results, r)
      | None \<Rightarrow>
          if c_read_only (rx_client r) then (Inl ReadOnly, r)
          else
            (case rx_execute_transaction x txn r of
               (Inl e, r') \<Rightarrow> (Inl e, r')
             | (Inr results, r') \<Rightarrow> (Inr results, r'\<lparr>rx_client := remember mut_id results (rx_client r')\<rparr>)))"

definition rx_migrate_schema :: "ext \<Rightarrow> directive list \<Rightarrow> bool \<Rightarrow> reactive \<Rightarrow> migrate_result res \<times> reactive" where
  "rx_migrate_schema x directives dry_run r =
     (case migrate_schema x directives dry_run (rx_client r) of
        (Inl e, s) \<Rightarrow> (Inl e, r\<lparr>rx_client := s\<rparr>)
      | (Inr (result, touched), s) \<Rightarrow>
          (Inr result,
           if dry_run then r\<lparr>rx_client := s\<rparr> else notify_subs x touched (r\<lparr>rx_client := s\<rparr>)))"

text \<open>A due job: its transaction with the fan-out, then its re-arming.\<close>

definition rx_fire_job :: "ext \<Rightarrow> int \<Rightarrow> scheduled_job \<Rightarrow> reactive \<Rightarrow> bool \<times> reactive" where
  "rx_fire_job x now job r =
     (case fire_job x now job (rx_client r) of
        (stay, s) \<Rightarrow> (stay, (snd (rx_execute_transaction x (job_txn job) r))\<lparr>rx_client := s\<rparr>))"

lemma rx_fire_job_client:
  "fire_job x now job (rx_client r) = (stay, s) \<Longrightarrow> rx_fire_job x now job r = (stay, r') \<Longrightarrow> rx_client r' = s"
  by (auto simp: rx_fire_job_def)

function rx_tick_loop :: "ext \<Rightarrow> int \<Rightarrow> nat \<Rightarrow> reactive \<Rightarrow> reactive" where
  "rx_tick_loop x now i r =
     (if length (c_schedules (rx_client r)) \<le> i then r
      else if skip_job now (c_schedules (rx_client r) ! i) then rx_tick_loop x now (Suc i) r
      else (case rx_fire_job x now (c_schedules (rx_client r) ! i) r of
              (stay, r') \<Rightarrow> rx_tick_loop x now (if stay then i else Suc i) r'))"
  by pat_completeness auto
termination
proof (relation "measure (\<lambda>(x, now, i, r). jobs_weight (drop i (c_schedules (rx_client r))))", goal_cases)
  case (2 x now i r)
  then show ?case
    using weight_drop_nth[of i "c_schedules (rx_client r)"] by (simp add: job_weight_def)
next
  case (3 x now i r stay r')
  obtain stay' s where run: "fire_job x now (c_schedules (rx_client r) ! i) (rx_client r) = (stay', s)"
    by fastforce
  have "stay' = stay" "rx_client r' = s"
    using 3(3) run by (auto simp: rx_fire_job_def)
  then show ?case
    using 3(1) fire_job_weight[of i "rx_client r" x now stay' s] run by simp
qed simp

declare rx_tick_loop.simps [simp del]

definition rx_reap_ttl :: "ext \<Rightarrow> int \<Rightarrow> reactive \<Rightarrow> nat \<times> reactive" where
  "rx_reap_ttl x now r =
     (case reap_ttl x now (rx_client r) of
        ((removed, touched), s) \<Rightarrow>
          (removed,
           if touched = [] then r\<lparr>rx_client := s\<rparr> else notify_subs x (set touched) (r\<lparr>rx_client := s\<rparr>)))"

definition rx_tick :: "ext \<Rightarrow> int option \<Rightarrow> reactive \<Rightarrow> nat \<times> reactive" where
  "rx_tick x now_ms r =
     (case now_ms of
        Some now \<Rightarrow> rx_reap_ttl x now (rx_tick_loop x now 0 r)
      | None \<Rightarrow>
          let s = rx_client r; now = c_now s (c_now_reads s)
          in rx_reap_ttl x now (rx_tick_loop x now 0 (r\<lparr>rx_client := s\<lparr>c_now_reads := Suc (c_now_reads s)\<rparr>\<rparr>)))"

end
