(* ===== verification/Reactive_Props.thy ===== *)
theory Reactive_Props
  imports Reactive
begin

text \<open>
  Subscriptions stay current.  A query without lookups reads the rows of its own table, the
  write set of a transaction names every table whose rows it changed, so the fan-out by
  write set delivers what a fan-out to every subscriber would.
\<close>

section \<open>What a query reads\<close>

lemma live_rows_table: "live_rows s t = map snd (filter (\<lambda>e. is_live (snd e)) (table_rows t s))"
  by (simp add: live_rows_def table_rows_def case_prod_unfold conj_commute)

lemma live_row_table: "live_row s t i = (case map_of (table_rows t s) (t, i) of
    None \<Rightarrow> None | Some row \<Rightarrow> if is_live row then Some row else None)"
  by (simp add: live_row_def map_of_table_rows)

lemma run_query_local:
  assumes "q_lookups q = []" "c_tables s' = c_tables s" "table_rows (q_table q) s' = table_rows (q_table q) s"
  shows "run_query x s' q = run_query x s q"
proof -
  have rows: "live_rows s' (q_table q) = live_rows s (q_table q)" "collect_all s' (q_table q) = collect_all s (q_table q)"
    "get_doc s' (q_table q) i = get_doc s (q_table q) i" for i
    by (simp_all add: collect_all_def get_doc_def live_rows_table live_row_table assms(3))
  then have "execute_query x s' q td = execute_query x s q td" for td
    unfolding execute_query_def execute_vector_search_terminal_def execute_hybrid_search_terminal_def
      execute_search_terminal_def fetch_filtered_rows_def by (simp only:)
  then show ?thesis
    by (simp add: run_query_def require_table_def assms(1,2))
qed

section \<open>Fan-out by write set\<close>

text \<open>A subscription that follows its query: the last delivered value is the current result.\<close>

definition follows :: "ext \<Rightarrow> client \<Rightarrow> subscription \<Rightarrow> bool" where
  "follows x s sub \<longleftrightarrow>
     sub_table sub = q_table (sub_query sub) \<and> q_lookups (sub_query sub) = []
     \<and> (case run_query x s (sub_query sub) of
          Inr v \<Rightarrow> sub_last sub = Some (diff_canonical x (sub_query sub) v)
        | Inl _ \<Rightarrow> True)"

definition up_to_date :: "ext \<Rightarrow> reactive \<Rightarrow> bool" where
  "up_to_date x r \<longleftrightarrow> (\<forall>sub\<in>set (rx_subscribers r). sub_alive sub \<longrightarrow> follows x (rx_client r) sub)"

text \<open>The reference: after a write, every live subscription runs its query again.\<close>

definition notify_all :: "ext \<Rightarrow> reactive \<Rightarrow> reactive" where
  "notify_all x r = notify_subs x (sub_table ` set (rx_subscribers r)) r"

lemma notify_unwritten:
  assumes old: "follows x s sub" and ws: "\<And>u. u \<notin> write_set \<Longrightarrow> table_rows u s' = table_rows u s"
    and tables: "c_tables s' = c_tables s"
  shows "notify_one x s' write_set sub = notify_one x s' UNIV sub"
proof (cases "sub_table sub \<in> write_set")
  case False
  then have "run_query x s' (sub_query sub) = run_query x s (sub_query sub)"
    using old ws tables by (intro run_query_local) (auto simp: follows_def)
  then show ?thesis
    using old by (auto simp: notify_one_def follows_def Let_def split: sum.splits)
qed (simp add: notify_one_def)

lemma notify_one_all: "sub_table sub \<in> ts \<Longrightarrow> notify_one x s ts sub = notify_one x s UNIV sub"
  by (simp add: notify_one_def)

lemma notify_follows:
  assumes "sub_table sub = q_table (sub_query sub)" "q_lookups (sub_query sub) = []" "sub_alive sub"
  shows "follows x s (fst (notify_one x s UNIV sub))"
  using assms by (auto simp: notify_one_def follows_def Let_def split: sum.split)

lemma notify_alive: "sub_alive (fst (notify_one x s ws sub)) = sub_alive sub"
  by (auto simp: notify_one_def Let_def split: sum.split)

lemma notify_one_subscribed:
  "sub \<in> set subs \<Longrightarrow> notify_one x s (sub_table ` set subs) sub = notify_one x s UNIV sub"
  by (intro notify_one_all imageI)

lemma notify_filter:
  assumes "up_to_date x r" and ws: "\<And>u. u \<notin> write_set \<Longrightarrow> table_rows u s' = table_rows u (rx_client r)"
    and tables: "c_tables s' = c_tables (rx_client r)"
  shows "notify_subs x write_set (r\<lparr>rx_client := s'\<rparr>) = notify_all x (r\<lparr>rx_client := s'\<rparr>)"
proof -
  have "notify_one x s' write_set sub = notify_one x s' (sub_table ` set (rx_subscribers r)) sub"
    if sub: "sub \<in> set (rx_subscribers r)" for sub
  proof (cases "sub_alive sub")
    case True
    then have "follows x (rx_client r) sub"
      using sub assms(1) by (simp add: up_to_date_def)
    from notify_unwritten[OF this ws tables] show ?thesis
      by (simp add: notify_one_subscribed[OF sub])
  qed (simp add: notify_one_def)
  then have "map (notify_one x s' write_set) (rx_subscribers r)
      = map (notify_one x s' (sub_table ` set (rx_subscribers r))) (rx_subscribers r)"
    by simp
  then show ?thesis
    by (simp add: notify_subs_def notify_all_def Let_def del: map_eq_conv)
qed

lemma notify_all_up_to_date:
  assumes "up_to_date x r"
  shows "up_to_date x (notify_all x (r\<lparr>rx_client := s'\<rparr>))"
proof -
  have "follows x s' (fst (notify_one x s' (sub_table ` set (rx_subscribers r)) sub))"
    if sub: "sub \<in> set (rx_subscribers r)" "sub_alive sub" for sub
  proof -
    have "follows x (rx_client r) sub"
      using sub assms(1) by (simp add: up_to_date_def)
    then show ?thesis
      using notify_follows[of sub x s'] sub by (simp add: notify_one_subscribed follows_def[of x "rx_client r"])
  qed
  then show ?thesis
    by (auto simp: up_to_date_def notify_all_def notify_subs_def Let_def notify_alive)
qed


section \<open>The calls that fan out\<close>

text \<open>What an up-to-date client reads: the rows and the table definitions.\<close>

lemma up_to_date_reads:
  assumes "up_to_date x r" "c_docs s = c_docs (rx_client r)" "c_tables s = c_tables (rx_client r)"
  shows "up_to_date x (r\<lparr>rx_client := s\<rparr>)"
proof -
  have "run_query x s (sub_query sub) = run_query x (rx_client r) (sub_query sub)"
    if "follows x (rx_client r) sub" for sub
    using that assms(2,3) by (intro run_query_local) (simp_all add: follows_def table_rows_def)
  then show ?thesis
    using assms(1) by (auto simp: up_to_date_def follows_def)
qed

lemma transaction_tables: "execute_transaction x txn s = (out, s') \<Longrightarrow> c_tables s' = c_tables s \<and> c_schema s' = c_schema s"
  using keepsD[OF execute_transaction_frame, of x txn s out s'] by (simp add: same_rel_def settings_def)

lemma transaction_up_to_date:
  assumes "up_to_date x r"
  shows "up_to_date x (snd (rx_execute_transaction x txn r))"
proof (cases "execute_transaction x txn (rx_client r)")
  case (Pair out s)
  note tables = transaction_tables[OF Pair]
  show ?thesis
  proof (cases out)
    case (Inl e)
    then show ?thesis
      using Pair tables execute_transaction_rollback[of x txn "rx_client r" e s] up_to_date_reads[OF assms, of s]
      by (simp add: rx_execute_transaction_def)
  next
    case (Inr res)
    then show ?thesis
      using Pair tables transaction_rows[of x txn "rx_client r" "fst res" "snd res" s]
        notify_filter[OF assms, of "snd res" s] notify_all_up_to_date[OF assms, of s]
      by (cases res) (simp add: rx_execute_transaction_def)
  qed
qed

lemma rx_transaction_client:
  "map_prod (map_sum id fst) id (execute_transaction x txn (rx_client r))
     = map_prod id rx_client (rx_execute_transaction x txn r)"
  by (auto simp: rx_execute_transaction_def notify_subs_def Let_def split: prod.split sum.split)

lemma mutate_up_to_date:
  assumes "up_to_date x r"
  shows "up_to_date x (snd (rx_mutate x txn mut_id r))"
proof (cases "rx_execute_transaction x txn r")
  case (Pair out r')
  then have r': "up_to_date x r'"
    using transaction_up_to_date[OF assms, of txn] by simp
  have "up_to_date x (r'\<lparr>rx_client := remember mut_id results (rx_client r')\<rparr>)" for results
    by (rule up_to_date_reads[OF r']) (simp_all add: remember_def split: option.split)
  then show ?thesis
    using Pair r' assms by (auto simp: rx_mutate_def split: option.split sum.split)
qed

lemma fire_job_reads:
  "fire_job x now job s = (stay, s') \<Longrightarrow> execute_transaction x (job_txn job) s = (out, s1)
     \<Longrightarrow> c_docs s' = c_docs s1 \<and> c_tables s' = c_tables s1 \<and> c_schema s' = c_schema s1"
  by (auto simp: fire_job_def split: sum.splits option.splits if_splits)

lemma rx_fire_job_inv:
  assumes "up_to_date x r" "rx_fire_job x now job r = (stay, r')"
  shows "up_to_date x r' \<and> c_tables (rx_client r') = c_tables (rx_client r) \<and> c_schema (rx_client r') = c_schema (rx_client r)"
proof -
  obtain out s1 where txn: "execute_transaction x (job_txn job) (rx_client r) = (out, s1)"
    by fastforce
  obtain out' r1 where rx: "rx_execute_transaction x (job_txn job) r = (out', r1)" and r1: "rx_client r1 = s1"
    using rx_transaction_client[of x "job_txn job" r] txn by (cases "rx_execute_transaction x (job_txn job) r") auto
  obtain s where fire: "fire_job x now job (rx_client r) = (stay, s)" and r': "r' = r1\<lparr>rx_client := s\<rparr>"
    using assms(2) rx by (auto simp: rx_fire_job_def split: prod.splits)
  show ?thesis
    using transaction_up_to_date[OF assms(1), of "job_txn job"] fire_job_reads[OF fire txn] transaction_tables[OF txn]
      up_to_date_reads[of x r1 s]
    by (simp add: rx r' r1)
qed

lemma tick_loop_up_to_date:
  "up_to_date x r \<Longrightarrow> up_to_date x (rx_tick_loop x now i r)
     \<and> c_tables (rx_client (rx_tick_loop x now i r)) = c_tables (rx_client r)
     \<and> c_schema (rx_client (rx_tick_loop x now i r)) = c_schema (rx_client r)"
proof (induction x now i r rule: rx_tick_loop.induct)
  case (1 x now i r)
  show ?case
  proof (cases "length (c_schedules (rx_client r)) \<le> i \<or> skip_job now (c_schedules (rx_client r) ! i)")
    case True
    then show ?thesis
      using 1 by (subst (1 2 3) rx_tick_loop.simps) auto
  next
    case False
    obtain stay r' where fire: "rx_fire_job x now (c_schedules (rx_client r) ! i) r = (stay, r')"
      by fastforce
    then show ?thesis
      using 1(2)[of stay r'] rx_fire_job_inv[OF 1(3) fire] False by (subst (1 2 3) rx_tick_loop.simps) auto
  qed
qed

section \<open>Expiry\<close>

text \<open>No table with a TTL has \<^verbatim>\<open>onDelete\<close> children: expiry removes rows without cascading.\<close>

definition plain_ttl :: "client \<Rightarrow> bool" where
  "plain_ttl s \<longleftrightarrow>
     (case c_schema s of
        None \<Rightarrow> True
      | Some sch \<Rightarrow> list_all (\<lambda>(t, td). td_ttl td = None \<or> \<not> has_on_delete_children sch t) (c_tables s))"

lemma reap_plain_rows:
  "reap_plain t ids ((n, tc), s) = ((n', tc'), s')
     \<Longrightarrow> set tc \<subseteq> set tc' \<and> c_tables s' = c_tables s \<and> (u \<notin> set tc' \<longrightarrow> table_rows u s' = table_rows u s)"
proof (induction ids arbitrary: n tc s)
  case (Cons i ids)
  have "table_rows u (drop_row (t, i) s) = table_rows u s" if "u \<noteq> t"
    unfolding table_rows_def drop_row_def using that by (simp add: filter_hm_remove[of "\<lambda>k. fst k = u"])
  moreover have "c_tables (drop_row (t, i) s) = c_tables s"
    by (simp add: drop_row_def)
  ultimately show ?case
    using Cons.prems Cons.IH by (fastforce split: option.splits)
qed simp

lemma reap_groups_rows:
  "fold (\<lambda>(t, ids). reap_plain t ids) gs ((n, tc), s) = ((n', tc'), s')
     \<Longrightarrow> set tc \<subseteq> set tc' \<and> c_tables s' = c_tables s \<and> (u \<notin> set tc' \<longrightarrow> table_rows u s' = table_rows u s)"
proof (induction gs arbitrary: n tc s)
  case (Cons g gs)
  obtain n1 tc1 s1 where g: "reap_plain (fst g) (snd g) ((n, tc), s) = ((n1, tc1), s1)"
    by (metis prod.collapse)
  then show ?case
    using Cons.prems Cons.IH[of n1 tc1 s1] reap_plain_rows[OF g] by (auto simp: case_prod_unfold)
qed simp

lemma reap_ttl_rows:
  assumes "plain_ttl s" "reap_ttl x now s = ((n, touched), s')"
  shows "c_tables s' = c_tables s" and "u \<notin> set touched \<Longrightarrow> table_rows u s' = table_rows u s"
proof -
  have "c_tables s' = c_tables s \<and> (u \<notin> set touched \<longrightarrow> table_rows u s' = table_rows u s)" for u
  proof (cases "c_schema s")
    case (Some sch)
    have "\<not> has_on_delete_children sch t" if "(t, ids) \<in> set (expired_by_table now s)" for t ids
      using that assms(1) Some unfolding expired_by_table_iff by (auto simp: plain_ttl_def list_all_iff)
    then have "reap_ttl x now s = fold (\<lambda>(t, ids). reap_plain t ids) (expired_by_table now s) ((0, []), s)"
      unfolding reap_ttl_def Some option.case by (intro fold_cong) (auto simp: reap_group_def)
    then show ?thesis
      using assms(2) reap_groups_rows[of "expired_by_table now s" 0 "[]" s n touched s' u] by simp
  qed (use assms(2) in \<open>simp add: reap_ttl_def\<close>)
  then show "c_tables s' = c_tables s" and "u \<notin> set touched \<Longrightarrow> table_rows u s' = table_rows u s"
    by auto
qed

lemma reap_up_to_date:
  assumes "up_to_date x r" "plain_ttl (rx_client r)"
  shows "up_to_date x (snd (rx_reap_ttl x now r))"
proof (cases "reap_ttl x now (rx_client r)")
  case (Pair out s)
  obtain n touched where out: "out = (n, touched)"
    by (cases out)
  note rows = reap_ttl_rows[OF assms(2) Pair[unfolded out]]
  show ?thesis
  proof (cases "touched = []")
    case True
    have "up_to_date x (notify_subs x (set touched) (r\<lparr>rx_client := s\<rparr>))"
      using notify_filter[OF assms(1) rows(2,1)] notify_all_up_to_date[OF assms(1), of s] by simp
    moreover have "follows x s sub" if "sub \<in> set (rx_subscribers r)" "sub_alive sub" for sub
      using that calculation True
      by (auto simp: up_to_date_def notify_subs_def notify_one_def Let_def image_iff)
    ultimately show ?thesis
      using Pair True by (simp add: rx_reap_ttl_def out up_to_date_def)
  next
    case False
    then show ?thesis
      using Pair notify_filter[OF assms(1) rows(2,1)] notify_all_up_to_date[OF assms(1), of s]
      by (simp add: rx_reap_ttl_def out)
  qed
qed

lemma plain_ttl_reads: "c_tables s' = c_tables s \<Longrightarrow> c_schema s' = c_schema s \<Longrightarrow> plain_ttl s' = plain_ttl s"
  by (simp add: plain_ttl_def split: option.split)

lemma sweep_up_to_date:
  assumes "up_to_date x r" "plain_ttl (rx_client r)"
  shows "up_to_date x (snd (rx_reap_ttl x now (rx_tick_loop x now 0 r)))"
proof -
  note loop = tick_loop_up_to_date[OF assms(1), of now 0]
  have "plain_ttl (rx_client (rx_tick_loop x now 0 r)) = plain_ttl (rx_client r)"
    using loop by (intro plain_ttl_reads) blast+
  then show ?thesis
    using loop assms(2) reap_up_to_date by blast
qed

lemma tick_up_to_date:
  assumes "up_to_date x r" "plain_ttl (rx_client r)"
  shows "up_to_date x (snd (rx_tick x now_ms r))"
proof (cases now_ms)
  case None
  let ?s = "rx_client r\<lparr>c_now_reads := Suc (c_now_reads (rx_client r))\<rparr>"
  have "up_to_date x (r\<lparr>rx_client := ?s\<rparr>)"
    by (rule up_to_date_reads[OF assms(1)]) simp_all
  moreover have "plain_ttl ?s = plain_ttl (rx_client r)"
    by (rule plain_ttl_reads) simp_all
  ultimately show ?thesis
    using assms(2) sweep_up_to_date[of x "r\<lparr>rx_client := ?s\<rparr>"] unfolding None rx_tick_def Let_def by simp
next
  case (Some now)
  then show ?thesis
    using sweep_up_to_date[OF assms] by (simp add: rx_tick_def)
qed

section \<open>Reachable states\<close>

text \<open>
  A client opened without subscribers, and the calls on it: subscriptions to queries without
  lookups, the end of a subscription, mutations, and ticks of the scheduler while expiry does
  not cascade.
\<close>

inductive rx_reach :: "ext \<Rightarrow> reactive \<Rightarrow> bool" for x where
  rx_open: "rx_subscribers r = [] \<Longrightarrow> rx_reach x r"
| rx_subscribe: "rx_reach x r \<Longrightarrow> q_lookups q = [] \<Longrightarrow> rx_reach x (snd (subscribe x q on_update r))"
| rx_unsubscribe: "rx_reach x r \<Longrightarrow> rx_reach x (unsubscribe h r)"
| rx_mutated: "rx_reach x r \<Longrightarrow> rx_reach x (snd (rx_mutate x txn mut_id r))"
| rx_ticked: "rx_reach x r \<Longrightarrow> plain_ttl (rx_client r) \<Longrightarrow> rx_reach x (snd (rx_tick x now_ms r))"

lemma subscribe_up_to_date:
  "up_to_date x r \<Longrightarrow> q_lookups q = [] \<Longrightarrow> up_to_date x (snd (subscribe x q on_update r))"
  by (auto simp: subscribe_def up_to_date_def follows_def Let_def split: sum.splits)

lemma reach_up_to_date: "rx_reach x r \<Longrightarrow> up_to_date x r"
proof (induction rule: rx_reach.induct)
  case (rx_open r)
  then show ?case
    by (simp add: up_to_date_def)
next
  case (rx_unsubscribe r h)
  then show ?case
    by (auto simp: up_to_date_def unsubscribe_def)
qed (simp_all add: subscribe_up_to_date mutate_up_to_date tick_up_to_date)

section \<open>Properties\<close>

text \<open>
  C1: fan-out by write set is exact: from a state in which the live subscriptions are up to date, a
  transaction that notifies only the subscriptions on the tables it wrote leaves the same
  subscriptions, and makes the same calls in the same order, as one that runs the query of
  every live subscription again; a transaction that fails calls nobody.
\<close>

theorem fan_out_exact:
  assumes "up_to_date x r"
  shows "rx_execute_transaction x txn r =
    (case execute_transaction x txn (rx_client r) of
       (Inl e, s) \<Rightarrow> (Inl e, r\<lparr>rx_client := s\<rparr>)
     | (Inr (results, write_set), s) \<Rightarrow> (Inr results, notify_all x (r\<lparr>rx_client := s\<rparr>)))"
proof (cases "execute_transaction x txn (rx_client r)")
  case (Pair out s)
  have "notify_subs x ws (r\<lparr>rx_client := s\<rparr>) = notify_all x (r\<lparr>rx_client := s\<rparr>)" if "out = Inr (results, ws)" for results ws
    using notify_filter[OF assms, of ws s] transaction_rows[of x txn "rx_client r" results ws s] transaction_tables[OF Pair] Pair that
    by blast
  then show ?thesis
    using Pair by (auto simp: rx_execute_transaction_def split: sum.split)
qed

text \<open>
  C2: subscriptions are never stale: after any sequence of subscriptions to queries without lookups,
  unsubscriptions, mutations (committed, failed or replayed) and ticks, the value last
  delivered to a live subscription is the result its query has now.
\<close>

theorem subscriptions_current:
  assumes "rx_reach x r" "sub \<in> set (rx_subscribers r)" "sub_alive sub"
    and "run_query x (rx_client r) (sub_query sub) = Inr v"
  shows "sub_last sub = Some (diff_canonical x (sub_query sub) v)"
proof -
  have "follows x (rx_client r) sub"
    using reach_up_to_date[OF assms(1)] assms(2,3) by (simp add: up_to_date_def)
  then show ?thesis
    using assms(4) by (simp add: follows_def)
qed

lemma rx_fire_client: "map_prod id rx_client (rx_fire_job x now job r) = fire_job x now job (rx_client r)"
  by (simp add: rx_fire_job_def split: prod.split)

lemma rx_tick_loop_client: "rx_client (rx_tick_loop x now i r) = tick_loop x now i (rx_client r)"
proof (induction x now i r rule: rx_tick_loop.induct)
  case (1 x now i r)
  obtain stay r' where fire: "rx_fire_job x now (c_schedules (rx_client r) ! i) r = (stay, r')"
    by fastforce
  then have "fire_job x now (c_schedules (rx_client r) ! i) (rx_client r) = (stay, rx_client r')"
    using rx_fire_client[of x now "c_schedules (rx_client r) ! i" r] by simp
  then show ?case
    using 1 fire by (subst rx_tick_loop.simps, subst tick_loop.simps) auto
qed

lemma rx_reap_client: "map_prod id rx_client (rx_reap_ttl x now r) = map_prod fst id (reap_ttl x now (rx_client r))"
  by (simp add: rx_reap_ttl_def notify_subs_def Let_def split: prod.split)

lemma rx_mutate_client: "map_prod id rx_client (rx_mutate x txn mut_id r) = mutate x txn mut_id (rx_client r)"
proof -
  obtain out s where txn: "execute_transaction x txn (rx_client r) = (out, s)"
    by fastforce
  then obtain r' where "rx_execute_transaction x txn r = (map_sum id fst out, r')" "rx_client r' = s"
    using rx_transaction_client[of x txn r] by (cases "rx_execute_transaction x txn r") auto
  then show ?thesis
    using txn by (cases out) (auto simp: rx_mutate_def mutate_def run_simps remember_def ensure_def split: option.splits)
qed

text \<open>
  C3: the store does not depend on who listens: what a mutation and a tick return, and the client they
  leave, are those of the calls without subscribers, whatever subscriptions are open.
\<close>

theorem listeners_do_not_matter:
  "map_prod id rx_client (rx_mutate x txn mut_id r) = mutate x txn mut_id (rx_client r)
   \<and> map_prod id rx_client (rx_tick x now_ms r) = map_prod fst id (tick x now_ms (rx_client r))"
  by (simp add: rx_mutate_client rx_tick_def tick_def rx_reap_client rx_tick_loop_client Let_def split: option.split)

text \<open>
  C4: a transaction calls only those who should hear of it: every call it makes is to the callback of
  a live subscription, carries the result its query has on the state the transaction left,
  and that result differs from the one delivered last; each subscription is called at most once.
\<close>

theorem calls_are_news:
  "\<exists>new. rx_calls (snd (rx_execute_transaction x txn r)) = rx_calls r @ new
     \<and> length new \<le> length (filter sub_alive (rx_subscribers r))
     \<and> set new \<subseteq> {(sub_callback sub, v) | sub v. sub \<in> set (rx_subscribers r) \<and> sub_alive sub
          \<and> run_query x (rx_client (snd (rx_execute_transaction x txn r))) (sub_query sub) = Inr v
          \<and> sub_last sub \<noteq> Some (diff_canonical x (sub_query sub) v)}"
proof -
  have len: "length (concat (map (snd \<circ> notify_one x s ws) subs)) \<le> length (filter sub_alive subs)" for s ws subs
    by (induction subs) (auto simp: notify_one_def Let_def split: sum.split)
  have news: "(cb, v) \<in> set (snd (notify_one x s ws sub)) \<Longrightarrow> cb = sub_callback sub \<and> sub_alive sub
      \<and> run_query x s (sub_query sub) = Inr v \<and> sub_last sub \<noteq> Some (diff_canonical x (sub_query sub) v)" for cb v s ws sub
    by (auto simp: notify_one_def Let_def split: if_splits sum.splits)
  show ?thesis
    using len
    by (auto simp: rx_execute_transaction_def notify_subs_def Let_def comp_def dest!: news split: prod.split sum.split)
qed

section \<open>Witnesses\<close>

text \<open>Third-party functions whose JSON text tells results of different length apart.\<close>

definition watch_ext :: ext where
  "watch_ext = sample_ext\<lparr>json_text := (\<lambda>v. case v of JArray vs \<Rightarrow> replicate (length vs) CHR ''v'' | _ \<Rightarrow> [])\<rparr>"

definition watched :: reactive where
  "watched = snd (subscribe watch_ext (table_query ''posts'') ''on_posts''
     (snd (subscribe watch_ext (table_query ''users'') ''on_users''
       \<lparr>rx_client = sample_client, rx_subscribers = [], rx_handles = 0, rx_calls = []\<rparr>)))"

definition drop_post :: transaction where
  "drop_post = Transaction [Delete ''posts'' (sample_id CHR ''c'')]"

lemma watched_reach: "rx_reach watch_ext watched"
  unfolding watched_def by (intro rx_subscribe rx_open) (simp_all add: table_query_def)

theorem fan_out_exact_witness:
  "rx_execute_transaction watch_ext drop_post watched =
    (case execute_transaction watch_ext drop_post (rx_client watched) of
       (Inl e, s) \<Rightarrow> (Inl e, watched\<lparr>rx_client := s\<rparr>)
     | (Inr (results, write_set), s) \<Rightarrow> (Inr results, notify_all watch_ext (watched\<lparr>rx_client := s\<rparr>)))
   \<and> map fst (rx_calls (snd (rx_execute_transaction watch_ext drop_post watched))) = [''on_users'', ''on_posts'', ''on_posts'']"
proof -
  have "map fst (rx_calls (snd (rx_execute_transaction watch_ext drop_post watched))) = [''on_users'', ''on_posts'', ''on_posts'']"
    by code_simp
  then show ?thesis
    using fan_out_exact[OF reach_up_to_date[OF watched_reach], of drop_post] by blast
qed

theorem subscriptions_current_witness:
  "\<exists>sub v. rx_subscribers (snd (rx_mutate watch_ext drop_post None watched)) ! 1 = sub
     \<and> run_query watch_ext (rx_client (snd (rx_mutate watch_ext drop_post None watched))) (sub_query sub) = Inr v
     \<and> sub_last sub = Some (diff_canonical watch_ext (sub_query sub) v)"
proof -
  let ?r = "snd (rx_mutate watch_ext drop_post None watched)"
  have sub: "length (rx_subscribers ?r) = 2 \<and> sub_alive (rx_subscribers ?r ! 1)
      \<and> is_ok (run_query watch_ext (rx_client ?r) (sub_query (rx_subscribers ?r ! 1)))"
    by code_simp
  then obtain v where "run_query watch_ext (rx_client ?r) (sub_query (rx_subscribers ?r ! 1)) = Inr v"
    by (auto elim!: is_okE)
  moreover have "rx_subscribers ?r ! 1 \<in> set (rx_subscribers ?r)"
    using sub by (simp add: numeral_2_eq_2)
  ultimately show ?thesis
    using subscriptions_current[OF rx_mutated[OF watched_reach]] sub by blast
qed

section \<open>Where subscriptions go stale\<close>

text \<open>
  A subscription with a lookup is notified for its own table alone: a patch of the joined
  author changes the result of the query, and nobody is called.
\<close>

definition joined_query :: query where
  "joined_query = (table_query ''posts'')
     \<lparr>q_lookups := [\<lparr>lk_field = ''author'', lk_table = ''users'', lk_as = ''by'', lk_cap = None\<rparr>]\<rparr>"

definition joined :: reactive where
  "joined = snd (subscribe sample_ext joined_query ''on_posts''
     \<lparr>rx_client = sample_client, rx_subscribers = [], rx_handles = 0, rx_calls = []\<rparr>)"

definition rename_author :: transaction where
  "rename_author = Transaction [Patch ''users'' (sample_id CHR ''a'') [(''email'', JString ''z@x'')]]"

lemma lookup_subscription_stale:
  "is_ok (fst (rx_execute_transaction sample_ext rename_author joined))
   \<and> rx_calls (snd (rx_execute_transaction sample_ext rename_author joined)) = rx_calls joined
   \<and> map (Inr \<circ> snd) (rx_calls joined) = [run_query sample_ext (rx_client joined) joined_query]
   \<and> run_query sample_ext (rx_client (snd (rx_execute_transaction sample_ext rename_author joined))) joined_query
       \<noteq> run_query sample_ext (rx_client joined) joined_query"
  by code_simp

text \<open>
  An expired row whose cascade fails is skipped, but what its cascade deleted before the
  failure stays deleted, and the subscription on that table is not called: here the log of an
  expired session is gone, the session is in use and stays, and the log's subscriber is not told.
\<close>

definition held_schema :: schema_def where
  "held_schema = \<lparr>sd_tables =
     [(''logs'', empty_table\<lparr>td_fields := [(''session'', TyId ''sessions'' (Some Cascade))]\<rparr>),
      (''sessions'', ttl_sessions),
      (''uses'', empty_table\<lparr>td_fields := [(''session'', TyId ''sessions'' (Some Restrict))]\<rparr>)]\<rparr>"

definition held_client :: client where
  "held_client = (new_client (\<lambda>n. 1000 + int n) (\<lambda>n. Fin 0))
     \<lparr>c_schema := Some held_schema, c_tables := sd_tables held_schema,
      c_docs := [sample_entry ''sessions'' CHR ''a'' (ttl_doc 500),
                 sample_entry ''uses'' CHR ''b'' [(''session'', JString (sample_id CHR ''a''))],
                 sample_entry ''logs'' CHR ''c'' [(''session'', JString (sample_id CHR ''a''))]]\<rparr>"

definition held :: reactive where
  "held = snd (subscribe watch_ext (table_query ''logs'') ''on_logs''
     \<lparr>rx_client = held_client, rx_subscribers = [], rx_handles = 0, rx_calls = []\<rparr>)"

lemma failed_expiry_stale:
  "map fst (c_docs (rx_client (snd (rx_tick watch_ext (Some 1000) held))))
     = [(''sessions'', sample_id CHR ''a''), (''uses'', sample_id CHR ''b'')]
   \<and> fst (rx_tick watch_ext (Some 1000) held) = 0
   \<and> map snd (rx_calls held) \<noteq> [JArray []]
   \<and> rx_calls (snd (rx_tick watch_ext (Some 1000) held)) = rx_calls held
   \<and> run_query watch_ext (rx_client (snd (rx_tick watch_ext (Some 1000) held))) (table_query ''logs'') = Inr (JArray [])"
  by code_simp

end
