(* ===== verification/Spec2Isabelle.thy ===== *)
theory Spec2Isabelle
  imports Query_Props Server_Plan Push_Props Reactive_Props
begin

text \<open>
  Verification of par-rt-db, a real-time document database: the engine rules shared by
  every implementation (\<^verbatim>\<open>core/\<close>) and the in-memory engine of the Rust client
  (\<^verbatim>\<open>rust-client/src/in_memory/\<close>).
\<close>

end
